(* ===== verification/JS_Base.thy ===== *)
theory JS_Base
  imports Main
begin

text \<open>
  The prelude: what the modelled JavaScript uses of its language. Strings are lists of code
  units (\<^typ>\<open>string\<close>, so a code unit above 255 is not a value of the model; the modelled
  code compares code units with ASCII characters only). A JavaScript number that serves as an
  index or a length is an \<^typ>\<open>int\<close>. An operation that throws returns \<open>Inl\<close>; a loop that
  may not end returns \<^const>\<open>None\<close>, so a computation is a value of type \<open>'a js\<close>.
  \<open>slice\<close>, \<open>substring\<close> and indexing are written out with their behaviour on indices that are
  negative or past the end, and the lemmas of the collections \<open>js_index\<close> and \<open>js_mon\<close>
  reduce them to \<^const>\<open>take\<close>, \<^const>\<open>drop\<close> and \<^const>\<open>nth\<close> where the indices are in range.
\<close>

named_theorems js_index
named_theorems js_mon

section \<open>Computations\<close>

datatype js_error =
    Throw string        \<comment> \<open>\<open>throw\<close> with a message\<close>
  | TypeError           \<comment> \<open>a member of \<open>undefined\<close>, a call of something that is no function\<close>
  | SyntaxError         \<comment> \<open>\<open>new RegExp\<close> on a malformed pattern, \<open>JSON.parse\<close> on bad text\<close>

type_synonym 'a js = "(js_error + 'a) option"

definition ret :: "'a \<Rightarrow> 'a js" where
  "ret x = Some (Inr x)"

definition throw :: "js_error \<Rightarrow> 'a js" where
  "throw e = Some (Inl e)"

definition bind_js :: "'a js \<Rightarrow> ('a \<Rightarrow> 'b js) \<Rightarrow> 'b js" where
  "bind_js m f = (case m of None \<Rightarrow> None | Some (Inl e) \<Rightarrow> Some (Inl e) | Some (Inr x) \<Rightarrow> f x)"

lemma bind_js_simps [simp, js_mon]:
  "bind_js (ret x) f = f x"
  "bind_js (throw e) f = throw e"
  "bind_js None f = None"
  by (simp_all add: bind_js_def ret_def throw_def)

lemma ret_inject [simp]: "ret x = ret y \<longleftrightarrow> x = y"
  by (simp add: ret_def)

lemma ret_not_throw [simp]: "ret x \<noteq> throw e" "throw e \<noteq> ret x" "ret x \<noteq> None" "throw e \<noteq> None"
  "None \<noteq> ret x" "None \<noteq> throw e"
  by (simp_all add: ret_def throw_def)

lemma bind_js_ret_iff [js_mon]: "bind_js m f = ret y \<longleftrightarrow> (\<exists>x. m = ret x \<and> f x = ret y)"
  by (auto simp: bind_js_def ret_def split: option.splits sum.splits)

lemma bind_js_assoc: "bind_js (bind_js m f) g = bind_js m (\<lambda>x. bind_js (f x) g)"
  by (auto simp: bind_js_def split: option.splits sum.splits)

section \<open>Indices\<close>

text \<open>
  \<open>clamp n i\<close> is the argument of \<open>substring\<close> brought into \<open>0..n\<close>; \<open>rel_index n i\<close> is the
  argument of \<open>slice\<close> and \<open>splice\<close>, where a negative index counts from the end.
\<close>

definition clamp :: "nat \<Rightarrow> int \<Rightarrow> nat" where
  "clamp n i = nat (max 0 (min i (int n)))"

definition rel_index :: "nat \<Rightarrow> int \<Rightarrow> nat" where
  "rel_index n i = (if i < 0 then nat (max 0 (int n + i)) else nat (min i (int n)))"

definition substring :: "'a list \<Rightarrow> int \<Rightarrow> int \<Rightarrow> 'a list" where
  "substring s a b =
     (let i = clamp (length s) a; j = clamp (length s) b
      in take (max i j - min i j) (drop (min i j) s))"

definition substring_from :: "'a list \<Rightarrow> int \<Rightarrow> 'a list" where
  "substring_from s a = drop (clamp (length s) a) s"

definition slice :: "'a list \<Rightarrow> int \<Rightarrow> int \<Rightarrow> 'a list" where
  "slice s a b =
     (let i = rel_index (length s) a; j = rel_index (length s) b in take (j - i) (drop i s))"

definition slice_from :: "'a list \<Rightarrow> int \<Rightarrow> 'a list" where
  "slice_from s a = drop (rel_index (length s) a) s"

definition at :: "'a list \<Rightarrow> int \<Rightarrow> 'a option" where
  "at s i = (if 0 \<le> i \<and> i < int (length s) then Some (s ! nat i) else None)"

text \<open>\<open>array.splice(index, 1)\<close>: removes the element at \<open>index\<close>, if there is one.\<close>

definition splice1 :: "'a list \<Rightarrow> int \<Rightarrow> 'a list" where
  "splice1 s a = (let i = rel_index (length s) a in take i s @ drop (Suc i) s)"

lemma clamp_in [js_index]: "0 \<le> i \<Longrightarrow> i \<le> int n \<Longrightarrow> clamp n i = nat i"
  by (simp add: clamp_def)

lemma clamp_le [simp]: "clamp n i \<le> n"
  by (simp add: clamp_def)

lemma clamp_0 [simp]: "clamp n 0 = 0"
  by (simp add: clamp_def)

lemma rel_index_le [simp]: "rel_index n i \<le> n"
  by (auto simp: rel_index_def)

lemma rel_index_in [js_index]: "0 \<le> i \<Longrightarrow> i \<le> int n \<Longrightarrow> rel_index n i = nat i"
  by (simp add: rel_index_def)

lemma rel_index_neg [js_index]: "i < 0 \<Longrightarrow> - i \<le> int n \<Longrightarrow> rel_index n i = n - nat (- i)"
  by (simp add: rel_index_def)

lemma slice_prefix [js_index]: "0 \<le> i \<Longrightarrow> slice s 0 i = take (nat i) s"
  by (auto simp: slice_def rel_index_def min_def)

lemma slice_in [js_index]:
  "0 \<le> i \<Longrightarrow> i \<le> j \<Longrightarrow> slice s i j = take (nat (j - i)) (drop (nat i) s)"
  by (auto simp: slice_def rel_index_def min_def nat_diff_distrib Let_def)

lemma slice_from_in [js_index]: "0 \<le> i \<Longrightarrow> slice_from s i = drop (nat i) s"
  by (auto simp: slice_from_def rel_index_def min_def)

lemma slice_from_neg [js_index]: "0 < k \<Longrightarrow> slice_from s (- k) = drop (length s - nat k) s"
  by (auto simp: slice_from_def rel_index_def max_def nat_diff_distrib')

lemma substring_prefix [js_index]: "0 \<le> i \<Longrightarrow> substring s 0 i = take (nat i) s"
  by (auto simp: substring_def clamp_def min_def max_def)

lemma substring_in [js_index]:
  "0 \<le> i \<Longrightarrow> i \<le> j \<Longrightarrow> substring s i j = take (nat (j - i)) (drop (nat i) s)"
  by (auto simp: substring_def clamp_def min_def max_def nat_diff_distrib Let_def)

lemma substring_from_in [js_index]: "0 \<le> i \<Longrightarrow> substring_from s i = drop (nat i) s"
  by (auto simp: substring_from_def clamp_def min_def max_def)

lemma at_in [js_index]: "0 \<le> i \<Longrightarrow> i < int (length s) \<Longrightarrow> at s i = Some (s ! nat i)"
  by (simp add: at_def)

lemma at_None [js_index]: "i < 0 \<or> int (length s) \<le> i \<Longrightarrow> at s i = None"
  by (auto simp: at_def)

lemma at_Nil [simp]: "at [] i = None"
  by (simp add: at_def)

lemma at_last: "at xs (int (length xs) - 1) = (if xs = [] then None else Some (last xs))"
  by (auto simp: at_def last_conv_nth nat_diff_distrib')

lemma at_SomeD: "at s i = Some x \<Longrightarrow> 0 \<le> i \<and> i < int (length s) \<and> s ! nat i = x \<and> x \<in> set s"
  by (auto simp: at_def split: if_splits)

lemma length_slice_le [simp]: "length (slice s a b) \<le> length s"
  by (simp add: slice_def Let_def)

lemma length_slice_from_le [simp]: "length (slice_from s a) \<le> length s"
  by (simp add: slice_from_def)

lemma slice_split: "0 \<le> p \<Longrightarrow> slice s 0 p @ slice_from s p = s"
  by (simp add: js_index)

lemma splice1_in [js_index]:
  "i < length s \<Longrightarrow> splice1 s (int i) = take i s @ drop (Suc i) s"
  by (simp add: splice1_def rel_index_def)

section \<open>Joining\<close>

fun join_with :: "'a list \<Rightarrow> 'a list list \<Rightarrow> 'a list" where
  "join_with sep [] = []"
| "join_with sep [x] = x"
| "join_with sep (x # y # ys) = x @ sep @ join_with sep (y # ys)"

text \<open>\<open>string.split(c)\<close> on a single separator character: always at least one piece.\<close>

fun split_char :: "'a \<Rightarrow> 'a list \<Rightarrow> 'a list list" where
  "split_char c [] = [[]]"
| "split_char c (x # xs) =
     (if x = c then [] # split_char c xs
      else (case split_char c xs of [] \<Rightarrow> [[x]] | p # ps \<Rightarrow> (x # p) # ps))"

lemma split_char_not_Nil [simp]: "split_char c s \<noteq> []"
  by (induction s) (auto split: list.splits)

lemma split_char_no_sep: "c \<notin> set s \<Longrightarrow> split_char c s = [s]"
  by (induction s) auto

lemma split_char_append:
  "c \<notin> set s \<Longrightarrow> split_char c (s @ c # t) = s # split_char c t"
  by (induction s) auto

lemma split_char_pieces: "p \<in> set (split_char c s) \<Longrightarrow> c \<notin> set p"
  by (induction s arbitrary: p) (auto split: list.splits if_splits)

lemma join_split_char: "join_with [c] (split_char c s) = s"
proof (induction s)
  case (Cons x xs)
  then show ?case
    by (cases "split_char c xs" rule: list.exhaust; cases "tl (split_char c xs)") auto
qed simp

lemma split_char_join:
  "ps \<noteq> [] \<Longrightarrow> (\<forall>p\<in>set ps. c \<notin> set p) \<Longrightarrow> split_char c (join_with [c] ps) = ps"
  by (induction "[c]" ps rule: join_with.induct)
     (auto simp: split_char_no_sep split_char_append)

text \<open>The part before a character, and the part from it on.\<close>

lemma takeWhile_before: "c \<notin> set n \<Longrightarrow> takeWhile (\<lambda>x. x \<noteq> c) (n @ c # v) = n"
  by (induction n) auto

lemma dropWhile_before: "c \<notin> set n \<Longrightarrow> dropWhile (\<lambda>x. x \<noteq> c) (n @ c # v) = c # v"
  by (induction n) auto


section \<open>Loops that may not end\<close>

text \<open>\<^const>\<open>bind_js\<close> is monotone, so \<open>partial_function\<close> accepts a loop written with it.\<close>

lemma bind_js_bind:
  "bind_js m f = Option.bind m (\<lambda>r. case r of Inl e \<Rightarrow> Some (Inl e) | Inr x \<Rightarrow> f x)"
  by (auto simp: bind_js_def split: option.splits sum.splits)

lemma bind_js_mono [partial_function_mono]:
  assumes "mono_option B" "\<And>y. mono_option (\<lambda>f. C y f)"
  shows "mono_option (\<lambda>f. bind_js (B f) (\<lambda>y. C y f))"
  unfolding bind_js_bind
proof (rule bind_mono [OF assms(1)])
  fix r show "mono_option (\<lambda>f. case r of Inl e \<Rightarrow> Some (Inl e) | Inr x \<Rightarrow> C x f)"
    using assms(2) by (cases r) (simp_all add: option.const_mono)
qed

end
