(* ===== verification/Containers.thy ===== *)
theory Containers
  imports JS_Base
begin

text \<open>
  The two container classes of \<open>frontend/public/terminal.js\<close>: \<open>Stack\<close>, which holds the nested
  interpreters of a terminal, and \<open>Cycle\<close>, which holds the terminals of a page with the one in
  front. A constructor call is the function \<open>new_...\<close>; a method takes the object's state and
  returns the new state together with its result.
\<close>

section \<open>Stack\<close>

text \<open>\<open>init\<close> is an array, another truthy value, or a falsy value.\<close>

datatype 'a stack_init = InitArray "'a list" | InitValue 'a | InitFalsy

record 'a stack =
  stack_data :: "'a list"

fun new_stack :: "'a stack_init \<Rightarrow> 'a stack" where
  "new_stack (InitArray xs) = \<lparr>stack_data = xs\<rparr>"
| "new_stack (InitValue x) = \<lparr>stack_data = [x]\<rparr>"
| "new_stack InitFalsy = \<lparr>stack_data = []\<rparr>"

definition stack_map :: "('a \<Rightarrow> 'b) \<Rightarrow> 'a stack \<Rightarrow> 'b list" where
  "stack_map f s = map f (stack_data s)"

definition stack_size :: "'a stack \<Rightarrow> nat" where
  "stack_size s = length (stack_data s)"

definition stack_pop :: "'a stack \<Rightarrow> 'a option \<times> 'a stack" where
  "stack_pop s =
     (if length (stack_data s) = 0 then (None, s)
      else (Some (stack_data s ! (length (stack_data s) - 1)),
            s\<lparr>stack_data := slice (stack_data s) 0 (int (length (stack_data s)) - 1)\<rparr>))"

definition stack_push :: "'a \<Rightarrow> 'a stack \<Rightarrow> 'a \<times> 'a stack" where
  "stack_push v s = (v, s\<lparr>stack_data := stack_data s @ [v]\<rparr>)"

definition stack_top :: "'a stack \<Rightarrow> 'a option" where
  "stack_top s =
     (if length (stack_data s) > 0 then Some (stack_data s ! (length (stack_data s) - 1)) else None)"

definition stack_clone :: "'a stack \<Rightarrow> 'a stack" where
  "stack_clone s = new_stack (InitArray (slice_from (stack_data s) 0))"

lemma stack_pop_eq:
  "stack_pop s = (if stack_data s = [] then (None, s)
                  else (Some (last (stack_data s)), s\<lparr>stack_data := butlast (stack_data s)\<rparr>))"
  by (cases "stack_data s") (auto simp: stack_pop_def slice_prefix last_conv_nth butlast_conv_take nat_diff_distrib')

lemma stack_top_eq:
  "stack_top s = (if stack_data s = [] then None else Some (last (stack_data s)))"
  by (auto simp: stack_top_def last_conv_nth)

text \<open>
  The interface: \<open>elems\<close> is the list of elements, top first. Its client lemmas say that a run of
  pushes followed by as many pops gives the elements back in reverse order and leaves the stack.
\<close>

locale lifo =
  fixes push :: "'a \<Rightarrow> 's \<Rightarrow> 's"
    and pop :: "'s \<Rightarrow> 'a option \<times> 's"
    and top :: "'s \<Rightarrow> 'a option"
    and elems :: "'s \<Rightarrow> 'a list"
  assumes elems_push: "elems (push x s) = x # elems s"
    and pop_empty: "elems s = [] \<Longrightarrow> pop s = (None, s)"
    and pop_value: "elems s = x # xs \<Longrightarrow> fst (pop s) = Some x"
    and pop_rest: "elems s = x # xs \<Longrightarrow> elems (snd (pop s)) = xs"
    and top_elems: "top s = (case elems s of [] \<Rightarrow> None | x # _ \<Rightarrow> Some x)"
begin

fun pushes :: "'a list \<Rightarrow> 's \<Rightarrow> 's" where
  "pushes [] s = s"
| "pushes (x # xs) s = pushes xs (push x s)"

fun pops :: "nat \<Rightarrow> 's \<Rightarrow> 'a list \<times> 's" where
  "pops 0 s = ([], s)"
| "pops (Suc n) s =
     (case pop s of (None, s') \<Rightarrow> ([], s')
      | (Some x, s') \<Rightarrow> (let (xs, s'') = pops n s' in (x # xs, s'')))"

lemma elems_pushes: "elems (pushes xs s) = rev xs @ elems s"
  by (induction xs arbitrary: s) (simp_all add: elems_push)

lemma pops_elems:
  "n \<le> length (elems s) \<Longrightarrow> fst (pops n s) = take n (elems s) \<and> elems (snd (pops n s)) = drop n (elems s)"
proof (induction n arbitrary: s)
  case (Suc n)
  then obtain x xs where s: "elems s = x # xs"
    by (cases "elems s") auto
  obtain s' where p: "pop s = (Some x, s')"
    using pop_value [OF s] by (cases "pop s") auto
  have s': "elems s' = xs"
    using pop_rest [OF s] p by simp
  from Suc.IH [of s'] Suc.prems s p s' show ?case
    by (auto split: prod.splits)
qed simp

lemma pops_pushes:
  "fst (pops (length xs) (pushes xs s)) = rev xs \<and> elems (snd (pops (length xs) (pushes xs s))) = elems s"
  using pops_elems [of "length xs" "pushes xs s"] by (simp add: elems_pushes)

lemma pop_top: "fst (pop s) = top s"
  by (cases "elems s") (simp_all add: top_elems pop_empty pop_value)

end

interpretation stk: lifo "\<lambda>x s. snd (stack_push x s)" stack_pop stack_top "\<lambda>s. rev (stack_data s)"
proof unfold_locales
  fix s :: "'a stack" and x :: 'a
  show "rev (stack_data (snd (stack_push x s))) = x # rev (stack_data s)"
    by (simp add: stack_push_def)
  show "stack_top s = (case rev (stack_data s) of [] \<Rightarrow> None | x # _ \<Rightarrow> Some x)"
    by (cases "stack_data s" rule: rev_cases) (simp_all add: stack_top_eq)
next
  fix s :: "'a stack"
  assume "rev (stack_data s) = []"
  then show "stack_pop s = (None, s)"
    by (simp add: stack_pop_eq)
next
  fix s :: "'a stack" and x xs
  assume "rev (stack_data s) = x # xs"
  then have d: "stack_data s = rev xs @ [x]"
    by (metis rev.simps(2) rev_rev_ident)
  show "fst (stack_pop s) = Some x" "rev (stack_data (snd (stack_pop s))) = xs"
    by (simp_all add: stack_pop_eq d)
qed

section \<open>Cycle\<close>

record 'a cycle =
  cycle_data :: "'a list"
  cycle_pos :: int

definition new_cycle :: "'a option \<Rightarrow> 'a cycle" where
  "new_cycle init = \<lparr>cycle_data = (case init of None \<Rightarrow> [] | Some x \<Rightarrow> [x]), cycle_pos = 0\<rparr>"

definition cycle_rotate :: "'a cycle \<Rightarrow> 'a option \<times> 'a cycle" where
  "cycle_rotate c =
     (if length (cycle_data c) = 1 then (at (cycle_data c) 0, c)
      else let c' = (if cycle_pos c = int (length (cycle_data c)) - 1
                     then c\<lparr>cycle_pos := 0\<rparr> else c\<lparr>cycle_pos := cycle_pos c + 1\<rparr>)
           in (at (cycle_data c') (cycle_pos c'), c'))"

definition cycle_length :: "'a cycle \<Rightarrow> nat" where
  "cycle_length c = length (cycle_data c)"

definition cycle_remove :: "int \<Rightarrow> 'a cycle \<Rightarrow> 'a cycle" where
  "cycle_remove i c = c\<lparr>cycle_data := splice1 (cycle_data c) i\<rparr>"

definition cycle_append :: "'a \<Rightarrow> 'a cycle \<Rightarrow> 'a cycle" where
  "cycle_append x c = c\<lparr>cycle_data := cycle_data c @ [x]\<rparr>"

text \<open>The loop of \<open>set\<close> runs from the last index down and stops at the first match.\<close>

fun last_index :: "'a list \<Rightarrow> 'a \<Rightarrow> nat \<Rightarrow> nat option" where
  "last_index xs x 0 = None"
| "last_index xs x (Suc i) = (if xs ! i = x then Some i else last_index xs x i)"

definition cycle_set :: "'a \<Rightarrow> 'a cycle \<Rightarrow> 'a cycle" where
  "cycle_set x c =
     (case last_index (cycle_data c) x (length (cycle_data c)) of
        Some i \<Rightarrow> c\<lparr>cycle_pos := int i\<rparr>
      | None \<Rightarrow> cycle_append x c)"

definition cycle_front :: "'a cycle \<Rightarrow> 'a option" where
  "cycle_front c = at (cycle_data c) (cycle_pos c)"

text \<open>
  The position is in range whenever there are elements. \<open>append\<close>, \<open>set\<close> and \<open>rotate\<close> keep
  this; \<open>remove\<close> does not touch the position, so it keeps it only when the front is not the
  last element.
\<close>

definition cycle_ok :: "'a cycle \<Rightarrow> bool" where
  "cycle_ok c \<longleftrightarrow> 0 \<le> cycle_pos c \<and>
     (cycle_data c \<noteq> [] \<longrightarrow> cycle_pos c < int (length (cycle_data c)))"

lemma cycle_ok_new: "cycle_ok (new_cycle init)"
  by (simp add: cycle_ok_def new_cycle_def split: option.splits)

lemma cycle_ok_append: "cycle_ok c \<Longrightarrow> cycle_data c \<noteq> [] \<or> cycle_pos c = 0 \<Longrightarrow> cycle_ok (cycle_append x c)"
  by (auto simp: cycle_ok_def cycle_append_def)

lemma last_index_Some:
  "last_index xs x n = Some i \<Longrightarrow> i < n \<and> xs ! i = x \<and> (\<forall>j. i < j \<and> j < n \<longrightarrow> xs ! j \<noteq> x)"
proof (induction n)
  case (Suc n)
  then show ?case
    by (cases "xs ! n = x") (auto simp: less_Suc_eq)
qed simp

lemma last_index_None: "last_index xs x n = None \<longleftrightarrow> (\<forall>i<n. xs ! i \<noteq> x)"
  by (induction n) (auto simp: less_Suc_eq)

lemma last_index_mem: "x \<in> set xs \<Longrightarrow> \<exists>i. last_index xs x (length xs) = Some i"
  by (cases "last_index xs x (length xs)") (auto simp: last_index_None in_set_conv_nth)

lemma cycle_set_mem:
  assumes "x \<in> set (cycle_data c)"
  shows "cycle_front (cycle_set x c) = Some x \<and> cycle_data (cycle_set x c) = cycle_data c
    \<and> cycle_ok (cycle_set x c)"
proof -
  obtain i where i: "last_index (cycle_data c) x (length (cycle_data c)) = Some i"
    using last_index_mem [OF assms] by blast
  then show ?thesis
    using last_index_Some [OF i] by (simp add: cycle_set_def cycle_front_def at_def cycle_ok_def)
qed

lemma cycle_set_new:
  assumes "x \<notin> set (cycle_data c)"
  shows "cycle_set x c = cycle_append x c"
proof -
  have "last_index (cycle_data c) x (length (cycle_data c)) = None"
    using assms by (auto simp: last_index_None in_set_conv_nth)
  then show ?thesis by (simp add: cycle_set_def)
qed

text \<open>One call of \<open>rotate\<close> moves the front by one, modulo the number of elements.\<close>

lemma cycle_rotate_mod:
  assumes "cycle_ok c" "cycle_data c \<noteq> []"
  shows "cycle_pos (snd (cycle_rotate c)) = (cycle_pos c + 1) mod int (length (cycle_data c))
    \<and> cycle_data (snd (cycle_rotate c)) = cycle_data c
    \<and> cycle_ok (snd (cycle_rotate c))
    \<and> fst (cycle_rotate c) = cycle_front (snd (cycle_rotate c))"
proof -
  let ?n = "int (length (cycle_data c))"
  have pos: "0 \<le> cycle_pos c" "cycle_pos c < ?n" and n: "0 < ?n"
    using assms by (auto simp: cycle_ok_def)
  show ?thesis
  proof (cases "cycle_pos c = ?n - 1")
    case True
    with pos show ?thesis
      by (auto simp: cycle_rotate_def cycle_ok_def cycle_front_def)
  next
    case False
    with pos show ?thesis
      by (auto simp: cycle_rotate_def cycle_ok_def cycle_front_def)
  qed
qed

lemma cycle_rotate_pow:
  assumes "cycle_ok c" "cycle_data c \<noteq> []"
  shows "cycle_pos (((\<lambda>c. snd (cycle_rotate c)) ^^ k) c) = (cycle_pos c + int k) mod int (length (cycle_data c))
    \<and> cycle_data (((\<lambda>c. snd (cycle_rotate c)) ^^ k) c) = cycle_data c
    \<and> cycle_ok (((\<lambda>c. snd (cycle_rotate c)) ^^ k) c)"
proof (induction k)
  case 0
  then show ?case using assms by (auto simp: cycle_ok_def)
next
  case (Suc k)
  let ?c = "((\<lambda>c. snd (cycle_rotate c)) ^^ k) c"
  have "cycle_pos (snd (cycle_rotate ?c)) = (cycle_pos ?c + 1) mod int (length (cycle_data ?c))
    \<and> cycle_data (snd (cycle_rotate ?c)) = cycle_data ?c \<and> cycle_ok (snd (cycle_rotate ?c))"
    using cycle_rotate_mod [of ?c] Suc assms(2) by simp
  with Suc show ?case
    by (simp add: mod_simps ac_simps)
qed

text \<open>The cycle visits every element and comes back.\<close>

theorem cycle_visits_all:
  assumes "cycle_ok c" "i < length (cycle_data c)"
  shows "cycle_front (((\<lambda>c. snd (cycle_rotate c)) ^^
           nat ((int i - cycle_pos c) mod int (length (cycle_data c)))) c)
         = Some (cycle_data c ! i)
     \<and> ((\<lambda>c. snd (cycle_rotate c)) ^^ length (cycle_data c)) c = c"
proof -
  let ?n = "int (length (cycle_data c))"
  let ?k = "nat ((int i - cycle_pos c) mod ?n)"
  have ne: "cycle_data c \<noteq> []" and n: "0 < ?n" and pos: "0 \<le> cycle_pos c" "cycle_pos c < ?n"
    using assms by (auto simp: cycle_ok_def)
  have "(cycle_pos c + int ?k) mod ?n = int i"
    using n assms(2) by (simp add: mod_add_right_eq)
  then have 1: "cycle_front (((\<lambda>c. snd (cycle_rotate c)) ^^ ?k) c) = Some (cycle_data c ! i)"
    using cycle_rotate_pow [OF assms(1) ne, of ?k] assms(2) by (simp add: cycle_front_def at_def)
  have "cycle_pos (((\<lambda>c. snd (cycle_rotate c)) ^^ length (cycle_data c)) c) = cycle_pos c"
    using cycle_rotate_pow [OF assms(1) ne, of "length (cycle_data c)"] pos by simp
  then have 2: "((\<lambda>c. snd (cycle_rotate c)) ^^ length (cycle_data c)) c = c"
    using cycle_rotate_pow [OF assms(1) ne, of "length (cycle_data c)"]
    by (cases "((\<lambda>c. snd (cycle_rotate c)) ^^ length (cycle_data c)) c"; cases c) simp
  from 1 2 show ?thesis by simp
qed


theorem cycle_visits_all_witness:
  "cycle_front (((\<lambda>c. snd (cycle_rotate c)) ^^ 2) (cycle_append ''c'' (cycle_append ''b'' (new_cycle (Some ''a''))))) = Some ''c''"
proof -
  let ?c = "cycle_append ''c'' (cycle_append ''b'' (new_cycle (Some ''a'')))"
  have c: "cycle_data ?c = [''a'', ''b'', ''c'']" "cycle_pos ?c = 0" by (simp_all add: cycle_append_def new_cycle_def)
  then have "cycle_ok ?c" "2 < length (cycle_data ?c)" by (simp_all add: cycle_ok_def)
  from cycle_visits_all [OF this] c show ?thesis by simp
qed

end
