(* ===== verification/JS_Regex.thy ===== *)
theory JS_Regex
  imports JS_Base "HOL-Library.Char_ord"
begin

text \<open>
  The regular expressions of the language, as far as the modelled code uses them: a pattern is
  a value of \<open>re\<close>, matched by backtracking. \<open>ms r s x\<close> is the list of all ways to match
  \<open>r\<close> in \<open>s\<close> from the state \<open>x\<close> (a position and the captures), in the order in which the
  backtracking matcher of ECMAScript tries them, so its head is the match that \<open>exec\<close> reports.
  Quantifiers are greedy and an iteration that consumes nothing is rejected. Captures inside a
  quantifier are not reset between iterations; no modelled expression reads such a capture.
  On top stand \<open>search\<close> (one \<open>exec\<close>), \<open>matches_from\<close> (the global iteration),
  \<open>replace_all\<close>, \<open>replace_first\<close> and \<open>split_re\<close>.
\<close>

section \<open>Patterns and the matcher\<close>

datatype re =
    Eps
  | Cls "char \<Rightarrow> bool"
  | Seq re re
  | Alt re re
  | Star re
  | Grp nat re
  | Bol
  | Eol
  | Ahead re
  | NotAhead re
  | WordB

type_synonym caps = "(nat \<times> string) list"
type_synonym mstate = "nat \<times> caps"

definition word_char :: "char \<Rightarrow> bool" where
  "word_char c \<longleftrightarrow> (CHR ''a'' \<le> c \<and> c \<le> CHR ''z'') \<or> (CHR ''A'' \<le> c \<and> c \<le> CHR ''Z'')
     \<or> (CHR ''0'' \<le> c \<and> c \<le> CHR ''9'') \<or> c = CHR ''_''"

definition at_word_boundary :: "string \<Rightarrow> nat \<Rightarrow> bool" where
  "at_word_boundary s i \<longleftrightarrow>
     (0 < i \<and> i \<le> length s \<and> word_char (s ! (i - 1))) \<noteq> (i < length s \<and> word_char (s ! i))"

function ms :: "re \<Rightarrow> string \<Rightarrow> mstate \<Rightarrow> mstate list" where
  "ms Eps s x = [x]"
| "ms (Cls P) s x = (if fst x < length s \<and> P (s ! fst x) then [(Suc (fst x), snd x)] else [])"
| "ms (Seq a b) s x = concat (map (ms b s) (ms a s x))"
| "ms (Alt a b) s x = ms a s x @ ms b s x"
| "ms (Star a) s x =
     concat (map (ms (Star a) s) (filter (\<lambda>y. fst x < fst y \<and> fst y \<le> length s) (ms a s x))) @ [x]"
| "ms (Grp n a) s x =
     map (\<lambda>y. (fst y, (n, take (fst y - fst x) (drop (fst x) s)) # snd y)) (ms a s x)"
| "ms Bol s x = (if fst x = 0 then [x] else [])"
| "ms Eol s x = (if fst x = length s then [x] else [])"
| "ms (Ahead a) s x = (if ms a s x = [] then [] else [x])"
| "ms (NotAhead a) s x = (if ms a s x = [] then [x] else [])"
| "ms WordB s x = (if at_word_boundary s (fst x) then [x] else [])"
  by pat_completeness auto
termination
  by (relation "measures [\<lambda>(r, s, x). size r, \<lambda>(r, s, x). length s - fst x]") auto

text \<open>The equation of \<open>Star\<close> would unfold for ever under a bound variable.\<close>

lemmas ms_Star = ms.simps(5)
declare ms.simps(5) [simp del]

text \<open>Derived forms: a literal text, one or more, optional, one of two characters.\<close>

definition Chr :: "char \<Rightarrow> re" where
  "Chr c = Cls (\<lambda>x. x = c)"

fun Lit :: "string \<Rightarrow> re" where
  "Lit [] = Eps"
| "Lit [c] = Chr c"
| "Lit (c # d # cs) = Seq (Chr c) (Lit (d # cs))"

definition Plus :: "re \<Rightarrow> re" where
  "Plus r = Seq r (Star r)"

definition Opt :: "re \<Rightarrow> re" where
  "Opt r = Alt r Eps"

lemma ms_Star_cases:
  assumes "y \<in> set (ms (Star a) s x)"
  obtains "y = x"
    | z where "z \<in> set (ms a s x)" "fst x < fst z" "fst z \<le> length s" "y \<in> set (ms (Star a) s z)"
  using assms by (subst (asm) ms_Star) auto

lemma ms_bounds: "y \<in> set (ms r s x) \<Longrightarrow> fst x \<le> length s \<Longrightarrow> fst x \<le> fst y \<and> fst y \<le> length s"
proof (induction r s x arbitrary: y rule: ms.induct)
  case (3 a b s x)
  from "3.prems"(1) obtain z where "z \<in> set (ms a s x)" "y \<in> set (ms b s z)"
    by auto
  with "3.IH"(1) [of z] "3.IH"(2) [of z y] "3.prems"(2) show ?case
    by fastforce
next
  case (5 a s x)
  from "5.prems"(1) show ?case
  proof (cases rule: ms_Star_cases)
    case (2 z)
    then show ?thesis using "5.IH"(2) [of z y] by simp
  qed (use "5.prems"(2) in simp)
qed (auto split: if_splits)

section \<open>exec, test and the global iteration\<close>

text \<open>The result of \<open>exec\<close>: where the match starts, where it ends, and the captures.\<close>

type_synonym found = "nat \<times> nat \<times> caps"

definition search :: "re \<Rightarrow> string \<Rightarrow> nat \<Rightarrow> found option" where
  "search r s i =
     (case List.find (\<lambda>k. ms r s (k, []) \<noteq> []) [i..<Suc (length s)] of
        None \<Rightarrow> None
      | Some k \<Rightarrow> (case ms r s (k, []) of [] \<Rightarrow> None | y # _ \<Rightarrow> Some (k, fst y, snd y)))"

definition re_test :: "re \<Rightarrow> string \<Rightarrow> bool" where
  "re_test r s \<longleftrightarrow> search r s 0 \<noteq> None"

definition found_text :: "string \<Rightarrow> found \<Rightarrow> string" where
  "found_text s m = take (fst (snd m) - fst m) (drop (fst m) s)"

definition found_cap :: "nat \<Rightarrow> found \<Rightarrow> string option" where
  "found_cap n m = map_of (snd (snd m)) n"

lemma search_SomeE:
  assumes "search r s i = Some m"
  obtains k y ys where "ms r s (k, []) = y # ys" "m = (k, fst y, snd y)" "i \<le> k" "k \<le> length s"
proof -
  from assms obtain k where k: "List.find (\<lambda>k. ms r s (k, []) \<noteq> []) [i..<Suc (length s)] = Some k"
    by (simp add: search_def split: option.splits)
  then have "i \<le> k" "k \<le> length s"
    by (auto simp: find_Some_iff simp del: upt_Suc)
  with k assms that show ?thesis
    by (auto simp: search_def split: list.splits)
qed

lemma search_bounds:
  assumes "search r s i = Some (a, b, c)"
  shows "i \<le> a \<and> a \<le> b \<and> b \<le> length s"
proof -
  from assms obtain k y ys where m: "ms r s (k, []) = y # ys" "(a, b, c) = (k, fst y, snd y)"
    "i \<le> k" "k \<le> length s"
    by (rule search_SomeE)
  then have "k \<le> fst y \<and> fst y \<le> length s" using ms_bounds [of y r s "(k, [])"] by simp
  with m show ?thesis by (cases y) simp
qed

lemma search_None_iff: "search r s i = None \<longleftrightarrow> (\<forall>k. i \<le> k \<and> k \<le> length s \<longrightarrow> ms r s (k, []) = [])"
proof -
  have "search r s i = None \<longleftrightarrow> List.find (\<lambda>k. ms r s (k, []) \<noteq> []) [i..<Suc (length s)] = None"
    by (auto simp: search_def find_Some_iff simp del: upt_Suc split: option.splits list.splits)
  also have "\<dots> \<longleftrightarrow> (\<forall>k. i \<le> k \<and> k \<le> length s \<longrightarrow> ms r s (k, []) = [])"
    by (auto simp: find_None_iff simp del: upt_Suc)
  finally show ?thesis .
qed

lemma search_here:
  "i \<le> length s \<Longrightarrow> ms r s (i, []) = y # ys \<Longrightarrow> search r s i = Some (i, fst y, snd y)"
  by (simp add: search_def upt_conv_Cons del: upt_Suc)

lemma search_skip:
  "ms r s (i, []) = [] \<Longrightarrow> search r s i = search r s (Suc i)"
  by (cases "i \<le> length s") (simp_all add: search_def upt_conv_Cons del: upt_Suc)

lemma search_end: "length s < i \<Longrightarrow> search r s i = None"
  by (auto simp: search_None_iff)

function matches_from :: "re \<Rightarrow> string \<Rightarrow> nat \<Rightarrow> found list" where
  "matches_from r s i =
     (case search r s i of
        None \<Rightarrow> []
      | Some (a, b, c) \<Rightarrow> (a, b, c) # matches_from r s (if b = a then Suc b else b))"
  by pat_completeness auto
termination
  by (relation "measure (\<lambda>(r, s, i). Suc (length s) - i)") (auto dest!: search_bounds)

declare matches_from.simps [simp del]

lemma matches_from_bounds:
  "(a, b, c) \<in> set (matches_from r s i) \<Longrightarrow> i \<le> a \<and> a \<le> b \<and> b \<le> length s"
proof (induction r s i rule: matches_from.induct)
  case (1 r s i)
  show ?case
  proof (cases "search r s i")
    case None
    with "1.prems" show ?thesis by (simp add: matches_from.simps [of r s i])
  next
    case (Some m)
    obtain a' b' c' where m: "m = (a', b', c')" by (cases m)
    note sb = search_bounds [OF Some [unfolded m]]
    from "1.prems" Some m have "(a, b, c) = (a', b', c') \<or>
        (a, b, c) \<in> set (matches_from r s (if b' = a' then Suc b' else b'))"
      by (simp add: matches_from.simps [of r s i])
    with "1.IH" [OF Some, of a' "(b', c')" b' c'] m sb show ?thesis
      by (auto split: if_splits)
  qed
qed

section \<open>replace, match and split\<close>

text \<open>
  \<open>assemble s p f xs\<close>: the string from position \<open>p\<close> on, with every match of \<open>xs\<close> replaced.
\<close>

fun assemble :: "string \<Rightarrow> nat \<Rightarrow> (found \<Rightarrow> string) \<Rightarrow> found list \<Rightarrow> string" where
  "assemble s p f [] = drop p s"
| "assemble s p f ((a, b, c) # xs) = take (a - p) (drop p s) @ f (a, b, c) @ assemble s b f xs"

definition replace_all :: "re \<Rightarrow> (found \<Rightarrow> string) \<Rightarrow> string \<Rightarrow> string" where
  "replace_all r f s = assemble s 0 f (matches_from r s 0)"

definition replace_first :: "re \<Rightarrow> (found \<Rightarrow> string) \<Rightarrow> string \<Rightarrow> string" where
  "replace_first r f s =
     (case search r s 0 of None \<Rightarrow> s | Some m \<Rightarrow> assemble s 0 f [m])"

text \<open>\<open>string.match(re)\<close> with the global flag: the matched texts, \<^const>\<open>None\<close> when there is none.\<close>

definition match_all :: "re \<Rightarrow> string \<Rightarrow> string list option" where
  "match_all r s =
     (case matches_from r s 0 of [] \<Rightarrow> None | xs \<Rightarrow> Some (map (found_text s) xs))"

text \<open>
  \<open>string.split(re)\<close> as in ECMAScript: a match is tried at each position \<open>q\<close> only, an empty
  match at the end of the last piece is passed over, and the captures \<open>1..n\<close> of the separator
  are spliced into the result (\<^const>\<open>None\<close> for a group that took no part).
\<close>

fun split_loop :: "re \<Rightarrow> nat \<Rightarrow> string \<Rightarrow> nat \<Rightarrow> nat \<Rightarrow> nat \<Rightarrow> string option list" where
  "split_loop r n s p q 0 = [Some (drop p s)]"
| "split_loop r n s p q (Suc fuel) =
     (if q < length s then
        (case ms r s (q, []) of
           [] \<Rightarrow> split_loop r n s p (Suc q) fuel
         | (e, c) # _ \<Rightarrow>
             (if e = p then split_loop r n s p (Suc q) fuel
              else Some (take (q - p) (drop p s)) # map (map_of c) [1..<Suc n]
                   @ split_loop r n s e (if e = q then Suc q else e) fuel))
      else [Some (drop p s)])"

definition split_re :: "re \<Rightarrow> nat \<Rightarrow> string \<Rightarrow> string option list" where
  "split_re r n s =
     (if s = [] then (if ms r s (0, []) = [] then [Some []] else [])
      else split_loop r n s 0 0 (Suc (length s)))"

section \<open>Laws of the operations\<close>

lemma assemble_skip:
  assumes "i < length s" "\<And>a b c. (a, b, c) \<in> set xs \<Longrightarrow> i < a"
  shows "assemble s i f xs = s ! i # assemble s (Suc i) f xs"
proof (cases xs)
  case Nil
  then show ?thesis using assms(1) by (simp add: Cons_nth_drop_Suc)
next
  case (Cons m ys)
  obtain a b c where m: "m = (a, b, c)" by (cases m)
  then have "i < a" using assms(2) [of a b c] Cons by simp
  then have "take (a - i) (drop i s) = s ! i # take (a - Suc i) (drop (Suc i) s)"
    using assms(1) by (simp add: Cons_nth_drop_Suc [symmetric] Suc_diff_Suc take_Suc_Cons [symmetric]
        del: take_Suc_Cons)
  then show ?thesis by (simp add: Cons m)
qed

lemma matches_from_skip: "ms r s (i, []) = [] \<Longrightarrow> matches_from r s i = matches_from r s (Suc i)"
  by (simp add: matches_from.simps [of r s i] matches_from.simps [of r s "Suc i"] search_skip)

lemma matches_from_here:
  "i \<le> length s \<Longrightarrow> ms r s (i, []) = (b, c) # ys \<Longrightarrow>
   matches_from r s i = (i, b, c) # matches_from r s (if b = i then Suc b else b)"
  by (simp add: matches_from.simps [of r s i] search_here)

lemma assemble_nomatch:
  assumes "i < length s" "ms r s (i, []) = []"
  shows "assemble s i f (matches_from r s i) = s ! i # assemble s (Suc i) f (matches_from r s (Suc i))"
  using assms matches_from_bounds [of _ _ _ r s "Suc i"]
  by (fastforce simp: matches_from_skip intro!: assemble_skip)

lemma assemble_match:
  assumes "i < length s" "ms r s (i, []) = (b, c) # ys" "i < b"
  shows "assemble s i f (matches_from r s i) = f (i, b, c) @ assemble s b f (matches_from r s b)"
  using assms by (simp add: matches_from_here)

text \<open>Replacing every match by itself changes nothing, whatever the pattern.\<close>

lemma assemble_found:
  "i \<le> length s \<Longrightarrow> assemble s i (found_text s) (matches_from r s i) = drop i s"
proof (induction "Suc (length s) - i" arbitrary: i rule: less_induct)
  case less
  show ?case
  proof (cases "i = length s")
    case True
    have none: "matches_from r s (Suc i) = []"
      by (simp add: True matches_from.simps [of r s "Suc (length s)"] search_end)
    show ?thesis
    proof (cases "ms r s (i, [])")
      case Nil
      with none True show ?thesis by (simp add: matches_from_skip)
    next
      case (Cons y ys)
      obtain b c where y: "y = (b, c)" by (cases y)
      with Cons True have "b = i" using ms_bounds [of y r s "(i, [])"] by simp
      with Cons none True y show ?thesis by (simp add: matches_from_here found_text_def)
    qed
  next
    case False
    with less.prems have i: "i < length s" by simp
    show ?thesis
    proof (cases "ms r s (i, [])")
      case Nil
      with i less show ?thesis by (simp add: assemble_nomatch Cons_nth_drop_Suc)
    next
      case (Cons y ys)
      obtain b c where y: "y = (b, c)" by (cases y)
      have b: "i \<le> b" "b \<le> length s"
        using ms_bounds [of y r s "(i, [])"] Cons i y by auto
      show ?thesis
      proof (cases "b = i")
        case True
        have "assemble s i (found_text s) (matches_from r s (Suc i)) = drop i s"
          using assemble_skip [OF i, of "matches_from r s (Suc i)" "found_text s"]
            matches_from_bounds [of _ _ _ r s "Suc i"] less.hyps [of "Suc i"] i
          by (force simp: Cons_nth_drop_Suc)
        with True Cons y i show ?thesis
          by (simp add: matches_from_here found_text_def)
      next
        case False
        with b have "assemble s b (found_text s) (matches_from r s b) = drop b s"
          by (intro less.hyps) auto
        with False b i Cons y show ?thesis
          by (simp add: assemble_match found_text_def)
             (metis append_take_drop_id drop_drop le_add_diff_inverse2)
      qed
    qed
  qed
qed

lemma replace_all_found: "replace_all r (found_text s) s = s"
  using assemble_found [of 0 s r] by (simp add: replace_all_def)

text \<open>
  A pattern whose matches are one character long replaces character by character. Every
  escaping function of the terminal is of this kind.
\<close>

definition unit_re :: "re \<Rightarrow> string \<Rightarrow> bool" where
  "unit_re r s \<longleftrightarrow> (\<forall>i y ys. ms r s (i, []) = y # ys \<longrightarrow> fst y = Suc i)"

lemma unit_reD: "unit_re r s \<Longrightarrow> ms r s (i, []) = y # ys \<Longrightarrow> fst y = Suc i"
  unfolding unit_re_def by blast

lemma unit_re_end:
  assumes "unit_re r s" shows "ms r s (length s, []) = []"
proof (cases "ms r s (length s, [])")
  case (Cons y ys)
  with assms have "fst y = Suc (length s)" by (rule unit_reD)
  with ms_bounds [of y r s "(length s, [])"] Cons show ?thesis by simp
qed

lemma assemble_unit:
  assumes "unit_re r s" "i \<le> length s"
  shows "assemble s i f (matches_from r s i) =
    concat (map (\<lambda>k. case ms r s (k, []) of [] \<Rightarrow> [s ! k] | y # _ \<Rightarrow> f (k, Suc k, snd y)) [i..<length s])"
  using assms(2)
proof (induction "length s - i" arbitrary: i)
  case 0
  then have "i = length s" by simp
  then show ?case
    using unit_re_end [OF assms(1)]
    by (simp add: matches_from_skip matches_from.simps [of r s "Suc (length s)"] search_end)
next
  case (Suc n)
  then have i: "i < length s" by simp
  have IH: "assemble s (Suc i) f (matches_from r s (Suc i)) =
    concat (map (\<lambda>k. case ms r s (k, []) of [] \<Rightarrow> [s ! k] | y # _ \<Rightarrow> f (k, Suc k, snd y))
      [Suc i..<length s])"
    by (rule Suc.hyps(1)) (use Suc.hyps(2) i in auto)
  show ?case
  proof (cases "ms r s (i, [])")
    case Nil
    with i IH show ?thesis by (simp add: assemble_nomatch upt_conv_Cons)
  next
    case (Cons y ys)
    with assms(1) have "fst y = Suc i" by (rule unit_reD)
    with i IH Cons show ?thesis
      by (cases y) (simp add: assemble_match upt_conv_Cons)
  qed
qed

lemma replace_all_unit:
  "unit_re r s \<Longrightarrow> replace_all r f s =
    concat (map (\<lambda>k. case ms r s (k, []) of [] \<Rightarrow> [s ! k] | y # _ \<Rightarrow> f (k, Suc k, snd y)) [0..<length s])"
  by (simp add: replace_all_def assemble_unit)

lemma concat_map_upt_nth: "concat (map (\<lambda>k. g (s ! k)) [0..<length s]) = concat (map g s)"
proof -
  have "map (\<lambda>k. g (s ! k)) [0..<length s] = map g (map ((!) s) [0..<length s])"
    by (simp add: comp_def)
  also have "\<dots> = map g s" by (simp only: map_nth)
  finally show ?thesis by simp
qed

lemma unit_re_Cls: "unit_re (Cls P) s"
  by (auto simp: unit_re_def)

text \<open>The replacement \<open>f\<close> of a character class depends on the character only.\<close>

lemma replace_all_Cls:
  assumes "\<And>k. k < length s \<Longrightarrow> P (s ! k) \<Longrightarrow> f (k, Suc k, []) = g (s ! k)"
  shows "replace_all (Cls P) f s = concat (map (\<lambda>c. if P c then g c else [c]) s)"
proof -
  have "replace_all (Cls P) f s =
    concat (map (\<lambda>k. (\<lambda>c. if P c then g c else [c]) (s ! k)) [0..<length s])"
    unfolding replace_all_unit [OF unit_re_Cls]
    by (rule arg_cong [where f = concat]) (auto simp: assms)
  also have "\<dots> = concat (map (\<lambda>c. if P c then g c else [c]) s)"
    by (rule concat_map_upt_nth)
  finally show ?thesis .
qed

lemma found_text_unit: "k < length s \<Longrightarrow> found_text s (k, Suc k, c) = [s ! k]"
  by (simp add: found_text_def take_Suc_conv_app_nth hd_drop_conv_nth take_Suc)

text \<open>
  Any other global replacement whose matches are not empty is a scan: \<open>g\<close> is a function on the
  rest of the string that agrees with the matcher at every position.
\<close>

lemma assemble_scan:
  assumes nil: "g [] = []" "ms r s (length s, []) = []"
    and no: "\<And>i. i < length s \<Longrightarrow> ms r s (i, []) = [] \<Longrightarrow> g (drop i s) = s ! i # g (drop (Suc i) s)"
    and yes: "\<And>i b c ys. i < length s \<Longrightarrow> ms r s (i, []) = (b, c) # ys \<Longrightarrow>
      i < b \<and> g (drop i s) = f (i, b, c) @ g (drop b s)"
    and "i \<le> length s"
  shows "assemble s i f (matches_from r s i) = g (drop i s)"
  using assms(5)
proof (induction "length s - i" arbitrary: i rule: less_induct)
  case less
  show ?case
  proof (cases "i = length s")
    case True
    then show ?thesis
      using nil by (simp add: matches_from_skip matches_from.simps [of r s "Suc (length s)"] search_end)
  next
    case False
    with less.prems have i: "i < length s" by simp
    show ?thesis
    proof (cases "ms r s (i, [])")
      case Nil
      with less.hyps [of "Suc i"] no i show ?thesis by (simp add: assemble_nomatch)
    next
      case (Cons y ys)
      obtain b c where y: "y = (b, c)" by (cases y)
      have "b \<le> length s" using ms_bounds [of y r s "(i, [])"] Cons i y by simp
      moreover have "i < b" "g (drop i s) = f (i, b, c) @ g (drop b s)"
        using yes [OF i, of b c ys] Cons y by simp_all
      ultimately show ?thesis
        using Cons y i less.hyps [of b] by (simp add: assemble_match)
    qed
  qed
qed

lemma replace_all_scan:
  assumes "g [] = []" "ms r s (length s, []) = []"
    and "\<And>i. i < length s \<Longrightarrow> ms r s (i, []) = [] \<Longrightarrow> g (drop i s) = s ! i # g (drop (Suc i) s)"
    and "\<And>i b c ys. i < length s \<Longrightarrow> ms r s (i, []) = (b, c) # ys \<Longrightarrow>
      i < b \<and> g (drop i s) = f (i, b, c) @ g (drop b s)"
  shows "replace_all r f s = g s"
  using assemble_scan [of g r s f 0] assms by (simp add: replace_all_def)

text \<open>Nothing to replace: a pattern that begins with a character the string does not have.\<close>

lemma replace_all_none:
  assumes "\<And>i. i \<le> length s \<Longrightarrow> ms r s (i, []) = []"
  shows "matches_from r s 0 = []" "replace_all r f s = s" "replace_first r f s = s"
    "match_all r s = None" "re_test r s = False"
proof -
  have "search r s 0 = None" using assms by (simp add: search_None_iff)
  then show "matches_from r s 0 = []" "replace_all r f s = s" "replace_first r f s = s"
    "match_all r s = None" "re_test r s = False"
    by (simp_all add: replace_all_def replace_first_def match_all_def re_test_def
        matches_from.simps [of r s 0])
qed

lemma ms_Seq_Chr_none: "c \<notin> set s \<Longrightarrow> ms (Seq (Chr c) r) s (i, x) = []"
  by (auto simp: Chr_def)

lemmas replace_all_Chr_none = replace_all_none [OF ms_Seq_Chr_none]

text \<open>A separator that matches nowhere leaves one piece.\<close>

lemma split_loop_none:
  "(\<And>i. i \<le> length s \<Longrightarrow> ms r s (i, []) = []) \<Longrightarrow> split_loop r n s p q fuel = [Some (drop p s)]"
  by (induction r n s p q fuel rule: split_loop.induct) auto

lemma split_re_none:
  "(\<And>i. i \<le> length s \<Longrightarrow> ms r s (i, []) = []) \<Longrightarrow> split_re r n s = [Some s]"
  by (auto simp: split_re_def split_loop_none)


section \<open>Runs and literals\<close>

text \<open>A starred class: every prefix of the run of such characters, the longest first.\<close>

definition run_at :: "(char \<Rightarrow> bool) \<Rightarrow> string \<Rightarrow> nat \<Rightarrow> nat" where
  "run_at P s i = length (takeWhile P (drop i s))"

lemma run_at_step: "run_at P s i = (if i < length s \<and> P (s ! i) then Suc (run_at P s (Suc i)) else 0)"
proof (cases "i < length s")
  case True
  then have "drop i s = s ! i # drop (Suc i) s" by (simp add: Cons_nth_drop_Suc)
  with True show ?thesis by (simp add: run_at_def)
qed (simp add: run_at_def)

lemma ms_Star_Cls:
  "i \<le> length s \<Longrightarrow> ms (Star (Cls P)) s (i, c) = map (\<lambda>j. (j, c)) (rev [i..<Suc (i + run_at P s i)])"
proof (induction "length s - i" arbitrary: i)
  case 0
  then have "\<not> i < length s" by simp
  then show ?case by (subst ms_Star, subst run_at_step) simp
next
  case (Suc n)
  show ?case
  proof (cases "i < length s \<and> P (s ! i)")
    case True
    then have "ms (Star (Cls P)) s (Suc i, c) = map (\<lambda>j. (j, c)) (rev [Suc i..<Suc (Suc i + run_at P s (Suc i))])"
      using Suc by auto
    then have "ms (Star (Cls P)) s (i, c)
        = map (\<lambda>j. (j, c)) (rev [Suc i..<Suc (Suc i + run_at P s (Suc i))]) @ [(i, c)]"
      using True by (subst ms_Star) simp
    also have "\<dots> = map (\<lambda>j. (j, c)) (rev [i..<Suc (i + run_at P s i)])"
      using True run_at_step [of P s i] upt_conv_Cons [of i "Suc (i + run_at P s i)"] by simp
    finally show ?thesis .
  next
    case False
    then show ?thesis by (subst ms_Star, subst run_at_step) auto
  qed
qed

lemma take_drop_Cons_eq:
  "take (Suc n) (drop i s) = c # w \<longleftrightarrow> i < length s \<and> s ! i = c \<and> take n (drop (Suc i) s) = w"
proof (cases "i < length s")
  case True
  then have "drop i s = s ! i # drop (Suc i) s" by (simp add: Cons_nth_drop_Suc)
  with True show ?thesis by simp
qed simp

lemma ms_Lit:
  "ms (Lit w) s (i, c) = (if take (length w) (drop i s) = w then [(i + length w, c)] else [])"
proof (induction w arbitrary: i rule: Lit.induct)
  case (2 a)
  then show ?case by (simp add: Chr_def take_drop_Cons_eq)
next
  case (3 a b w)
  show ?case
    unfolding Lit.simps ms.simps(3) Chr_def ms.simps(2) using "3.IH" [of "Suc i"] by (auto simp: take_drop_Cons_eq)
qed simp

text \<open>Case-insensitive literals of the flag \<open>i\<close>.\<close>

definition lower_char :: "char \<Rightarrow> char" where
  "lower_char c = (if CHR ''A'' \<le> c \<and> c \<le> CHR ''Z'' then char_of (of_char c + (32::nat)) else c)"

definition to_lower :: "string \<Rightarrow> string" where
  "to_lower s = map lower_char s"

fun LitI :: "string \<Rightarrow> re" where
  "LitI [] = Eps"
| "LitI (c # cs) = Seq (Cls (\<lambda>x. lower_char x = lower_char c)) (LitI cs)"

definition digit_char :: "char \<Rightarrow> bool" where
  "digit_char c \<longleftrightarrow> CHR ''0'' \<le> c \<and> c \<le> CHR ''9''"

definition alpha_char :: "char \<Rightarrow> bool" where
  "alpha_char c \<longleftrightarrow> (CHR ''a'' \<le> c \<and> c \<le> CHR ''z'') \<or> (CHR ''A'' \<le> c \<and> c \<le> CHR ''Z'')"

definition hex_char :: "char \<Rightarrow> bool" where
  "hex_char c \<longleftrightarrow> digit_char c \<or> (CHR ''a'' \<le> c \<and> c \<le> CHR ''f'') \<or> (CHR ''A'' \<le> c \<and> c \<le> CHR ''F'')"

text \<open>\<open>\s\<close>: the white space of the language.\<close>

definition blank :: "char \<Rightarrow> bool" where
  "blank c \<longleftrightarrow> c \<in> {CHR '' '', CHR 0x09, CHR 0x0A, CHR 0x0B, CHR 0x0C, CHR 0x0D, CHR 0xA0}"

definition one_of :: "string \<Rightarrow> re" where
  "one_of cs = Cls (\<lambda>c. c \<in> set cs)"

definition none_of :: "string \<Rightarrow> re" where
  "none_of cs = Cls (\<lambda>c. c \<notin> set cs)"

text \<open>A run of a class up to the character \<open>e\<close> that is not in the class.\<close>

lemma ms_run_Chr:
  assumes "i \<le> length s" "\<not> P e"
  shows "ms (Seq (Star (Cls P)) (Chr e)) s (i, c) =
    (let j = i + run_at P s i in if j < length s \<and> s ! j = e then [(Suc j, c)] else [])"
proof -
  define j where "j = i + run_at P s i"
  have inside: "P (s ! k)" if "i \<le> k" "k < j" for k
  proof -
    have k: "k - i < length (takeWhile P (drop i s))" using that by (auto simp: j_def run_at_def)
    then have "P (takeWhile P (drop i s) ! (k - i))" using nth_mem set_takeWhileD by fastforce
    then have "P (drop i s ! (k - i))" using k by (simp add: takeWhile_nth)
    then show ?thesis using that assms(1) by simp
  qed
  have none: "ms (Chr e) s (k, c) = []" if "i \<le> k" "k < j" for k
    using inside [OF that] assms(2) by (auto simp: Chr_def)
  have "ms (Seq (Star (Cls P)) (Chr e)) s (i, c) = concat (map (ms (Chr e) s) (map (\<lambda>j. (j, c)) (rev [i..<Suc j])))"
    using assms(1) by (simp only: ms.simps(3) ms_Star_Cls j_def)
  also have "rev [i..<Suc j] = j # rev [i..<j]"
    by (simp add: j_def)
  also have "concat (map (ms (Chr e) s) (map (\<lambda>j. (j, c)) (j # rev [i..<j]))) = ms (Chr e) s (j, c)"
    using none by simp
  finally show ?thesis
    by (simp add: Chr_def j_def Let_def)
qed


section \<open>The first match\<close>

text \<open>\<open>starts r s x y\<close>: from the state \<open>x\<close> the matcher ends first in \<open>y\<close>.\<close>

definition starts :: "re \<Rightarrow> string \<Rightarrow> mstate \<Rightarrow> mstate \<Rightarrow> bool" where
  "starts r s x y \<longleftrightarrow> (\<exists>ys. ms r s x = y # ys)"

lemma startsD: "starts r s x y \<Longrightarrow> \<exists>ys. ms r s x = y # ys"
  by (simp add: starts_def)

lemma starts_Eps: "starts Eps s x x"
  by (simp add: starts_def)

lemma starts_Seq: "starts a s x y \<Longrightarrow> starts b s y z \<Longrightarrow> starts (Seq a b) s x z"
  by (auto simp: starts_def)

lemma starts_Alt1: "starts a s x y \<Longrightarrow> starts (Alt a b) s x y"
  by (auto simp: starts_def)

lemma starts_Alt2: "ms a s x = [] \<Longrightarrow> starts b s x y \<Longrightarrow> starts (Alt a b) s x y"
  by (auto simp: starts_def)

lemma starts_Opt1: "starts a s x y \<Longrightarrow> starts (Opt a) s x y"
  by (simp add: Opt_def starts_Alt1)

lemma starts_Opt2: "ms a s x = [] \<Longrightarrow> starts (Opt a) s x x"
  by (simp add: Opt_def starts_Alt2 starts_Eps)

lemma starts_Grp:
  "starts a s (i, c) (j, d) \<Longrightarrow> starts (Grp n a) s (i, c) (j, (n, take (j - i) (drop i s)) # d)"
  by (auto simp: starts_def)

lemma starts_Bol: "starts Bol s (0, c) (0, c)"
  by (simp add: starts_def)

lemma starts_Eol: "i = length s \<Longrightarrow> starts Eol s (i, c) (i, c)"
  by (simp add: starts_def)

lemma drop_Cons_D: "drop i s = a # t \<Longrightarrow> i < length s \<and> s ! i = a \<and> drop (Suc i) s = t"
  by (metis Cons_nth_drop_Suc drop_eq_Nil linorder_not_less list.inject list.simps(3))

lemma drop_append_D: "drop i s = w @ t \<Longrightarrow> drop (i + length w) s = t"
  by (metis add.commute append_eq_conv_conj drop_drop)

lemma starts_Cls: "drop i s = a # t \<Longrightarrow> P a \<Longrightarrow> starts (Cls P) s (i, c) (Suc i, c)"
  using drop_Cons_D by (fastforce simp: starts_def)

lemma starts_Chr: "drop i s = a # t \<Longrightarrow> starts (Chr a) s (i, c) (Suc i, c)"
  unfolding Chr_def by (rule starts_Cls) simp_all

lemma starts_Lit: "drop i s = w @ t \<Longrightarrow> starts (Lit w) s (i, c) (i + length w, c)"
  by (simp add: starts_def ms_Lit)

lemma run_at_app:
  assumes "drop i s = w @ t" "list_all P w" "t = [] \<or> \<not> P (hd t)"
  shows "run_at P s i = length w"
proof -
  have "takeWhile P (w @ t) = w"
    using assms(2,3) by (cases t) (auto simp: list_all_iff takeWhile_append2)
  then show ?thesis by (simp add: run_at_def assms(1))
qed

lemma starts_Star:
  assumes "i \<le> length s" "drop i s = w @ t" "list_all P w" "t = [] \<or> \<not> P (hd t)"
  shows "starts (Star (Cls P)) s (i, c) (i + length w, c)"
  using ms_Star_Cls [OF assms(1)] by (simp add: run_at_app [OF assms(2-4)] starts_def)

text \<open>No match: the first character is wrong, or the rest never matches at the end of a prefix of the run.\<close>

lemma ms_Cls_none: "drop i s = a # t \<Longrightarrow> \<not> P a \<Longrightarrow> ms (Cls P) s (i, c) = []"
  by (auto dest!: drop_Cons_D)

lemma ms_Cls_end: "drop i s = [] \<Longrightarrow> ms (Cls P) s (i, c) = []"
  by simp

lemma ms_Seq_none: "ms a s x = [] \<Longrightarrow> ms (Seq a b) s x = []"
  by simp

lemma ms_Seq_Star_none:
  assumes "i \<le> length s" "drop i s = w @ t" "list_all P w" "t = [] \<or> \<not> P (hd t)"
    and "\<And>j. i \<le> j \<Longrightarrow> j \<le> i + length w \<Longrightarrow> ms b s (j, c) = []"
  shows "ms (Seq (Star (Cls P)) b) s (i, c) = []"
proof -
  have "ms b s (j, c) = []" if "j \<in> set (rev [i..<Suc (i + length w)])" for j
    using assms(5) [of j] that by auto
  then show ?thesis
    by (simp only: ms.simps(3) ms_Star_Cls [OF assms(1)] run_at_app [OF assms(2-4)] concat_eq_Nil_conv) auto
qed

lemma drop_in_word:
  "drop i s = w @ t \<Longrightarrow> i \<le> j \<Longrightarrow> j < i + length w \<Longrightarrow>
   \<exists>u. drop j s = (w ! (j - i)) # u"
proof -
  assume a: "drop i s = w @ t" "i \<le> j" "j < i + length w"
  have "drop j s = drop (j - i) (drop i s)" using a(2) by simp
  also have "\<dots> = drop (j - i) w @ t" using a by simp
  also have "drop (j - i) w = w ! (j - i) # drop (Suc (j - i)) w" using a by (simp add: Cons_nth_drop_Suc)
  finally show ?thesis by auto
qed


section \<open>Patterns that do not look back\<close>

text \<open>Without \<open>^\<close> and \<open>\b\<close> a match depends on the rest of the string only.\<close>

fun forward :: "re \<Rightarrow> bool" where
  "forward Bol = False"
| "forward WordB = False"
| "forward (Seq a b) = (forward a \<and> forward b)"
| "forward (Alt a b) = (forward a \<and> forward b)"
| "forward (Star a) = forward a"
| "forward (Grp n a) = forward a"
| "forward (Ahead a) = forward a"
| "forward (NotAhead a) = forward a"
| "forward _ = True"

definition shift_state :: "nat \<Rightarrow> mstate \<Rightarrow> mstate" where
  "shift_state n y = (n + fst y, snd y)"

lemma shift_state_sel [simp]: "fst (shift_state n y) = n + fst y" "snd (shift_state n y) = snd y"
  by (simp_all add: shift_state_def)

lemma ms_shift: "forward r \<Longrightarrow> ms r (u @ s) (shift_state (length u) x) = map (shift_state (length u)) (ms r s x)"
proof (induction r s x rule: ms.induct)
  case (1 s x) show ?case by simp
next
  case (2 P s x)
  show ?case by (simp add: nth_append_length_plus shift_state_def)
next
  case (3 a b s x)
  let ?sh = "shift_state (length u)"
  have a: "ms a (u @ s) (?sh x) = map ?sh (ms a s x)" using "3.IH"(1) "3.prems" by simp
  have "ms (Seq a b) (u @ s) (?sh x) = concat (map (ms b (u @ s)) (map ?sh (ms a s x)))"
    unfolding ms.simps(3) a ..
  also have "map (ms b (u @ s)) (map ?sh (ms a s x)) = map (\<lambda>y. map ?sh (ms b s y)) (ms a s x)"
    unfolding map_map by (rule map_cong [OF refl]) (use "3.IH"(2) "3.prems" in simp)
  also have "concat (map (\<lambda>y. map ?sh (ms b s y)) (ms a s x)) = map ?sh (ms (Seq a b) s x)"
    unfolding ms.simps(3) map_concat map_map comp_def ..
  finally show ?case .
next
  case (4 a b s x)
  then show ?case by simp
next
  case (6 n a s x)
  then have "ms a (u @ s) (shift_state (length u) x) = map (shift_state (length u)) (ms a s x)" by simp
  then show ?case by (simp add: comp_def shift_state_def)
next
  case (7 s x) then show ?case by simp
next
  case (8 s x) show ?case by simp
next
  case (9 a s x) then show ?case by simp
next
  case (10 a s x) then show ?case by simp
next
  case (11 s x) then show ?case by simp
next
  case (5 a s x)
  let ?sh = "shift_state (length u)"
  have a: "ms a (u @ s) (?sh x) = map ?sh (ms a s x)" using "5.IH"(1) "5.prems" by simp
  have f: "filter (\<lambda>y. fst (?sh x) < fst y \<and> fst y \<le> length (u @ s)) (ms a (u @ s) (?sh x))
      = map ?sh (filter (\<lambda>y. fst x < fst y \<and> fst y \<le> length s) (ms a s x))"
    unfolding a filter_map comp_def by (simp only: shift_state_sel length_append nat_add_left_cancel_less nat_add_left_cancel_le)
  have i: "ms (Star a) (u @ s) (?sh y) = map ?sh (ms (Star a) s y)"
    if "y \<in> set (filter (\<lambda>y. fst x < fst y \<and> fst y \<le> length s) (ms a s x))" for y
    using "5.IH"(2) [of y] that "5.prems" by simp
  define L where "L = filter (\<lambda>y. fst x < fst y \<and> fst y \<le> length s) (ms a s x)"
  have "ms (Star a) (u @ s) (?sh x) = concat (map (ms (Star a) (u @ s)) (map ?sh L)) @ [?sh x]"
    by (subst ms_Star) (simp only: f L_def)
  also have "map (ms (Star a) (u @ s)) (map ?sh L) = map (\<lambda>y. map ?sh (ms (Star a) s y)) L"
    unfolding map_map by (rule map_cong [OF refl]) (use i in \<open>simp add: L_def\<close>)
  also have "concat (map (\<lambda>y. map ?sh (ms (Star a) s y)) L) @ [?sh x] = map ?sh (concat (map (ms (Star a) s) L) @ [x])"
    unfolding map_append map_concat map_map comp_def list.map ..
  also have "concat (map (ms (Star a) s) L) @ [x] = ms (Star a) s x"
    by (simp only: ms_Star [of a s x, folded L_def])
  finally show ?case .
qed

definition pieces :: "re \<Rightarrow> string \<Rightarrow> string list" where
  "pieces r s = map (found_text s) (matches_from r s 0)"

lemma match_all_pieces: "(case match_all r s of Some ps \<Rightarrow> ps | None \<Rightarrow> []) = pieces r s"
  by (simp add: match_all_def pieces_def split: list.split)

lemma matches_from_shift:
  assumes "forward r" "i \<le> length s"
  shows "matches_from r s i = map (\<lambda>(a, b, c). (i + a, i + b, c)) (matches_from r (drop i s) 0)"
proof -
  define u where "u = take i s"
  define t where "t = drop i s"
  have s: "s = u @ t" "i = length u" using assms(2) by (simp_all add: u_def t_def min_def)
  have ms: "ms r s (length u + k, []) = map (shift_state (length u)) (ms r t (k, []))" for k
    using ms_shift [OF assms(1), of u t "(k, [])"] s by (simp add: shift_state_def)
  have "matches_from r s (length u + k) = map (\<lambda>(a, b, c). (length u + a, length u + b, c)) (matches_from r t k)" for k
  proof (induction "Suc (length t) - k" arbitrary: k rule: less_induct)
    case less
    show ?case
    proof (cases "k \<le> length t")
      case False
      then have "length s < length u + k" "length t < k" using s by simp_all
      then show ?thesis by (simp add: matches_from.simps [of r s] matches_from.simps [of r t] search_end)
    next
      case True
      then have k: "length u + k \<le> length s" using s by simp
      show ?thesis
      proof (cases "ms r t (k, [])")
        case Nil
        with ms [of k] less [of "Suc k"] True show ?thesis by (simp add: matches_from_skip)
      next
        case (Cons y ys)
        obtain b c where y: "y = (b, c)" by (cases y)
        have "k \<le> b" "b \<le> length t" using ms_bounds [of y r t "(k, [])"] Cons True y by simp_all
        moreover have "ms r s (length u + k, []) = (length u + b, c) # map (shift_state (length u)) ys"
          using ms [of k] Cons y by (simp add: shift_state_def)
        ultimately show ?thesis
          using matches_from_here [OF k] matches_from_here [OF True] Cons y
            less [of "Suc k"] less [of b] by (cases "b = k") simp_all
      qed
    qed
  qed
  from this [of 0] show ?thesis by (simp add: s)
qed

lemma pieces_shift:
  assumes "forward r" "i \<le> length s"
  shows "map (found_text s) (matches_from r s i) = pieces r (drop i s)"
proof -
  have "found_text s (i + a, i + b, c) = found_text (drop i s) (a, b, c)" for a b c
    by (simp add: found_text_def add.commute)
  then show ?thesis
    unfolding matches_from_shift [OF assms] pieces_def by (simp add: comp_def split_def)
qed

lemma pieces_skip:
  assumes "forward r" "ms r (a # s) (0, []) = []"
  shows "pieces r (a # s) = pieces r s"
  using pieces_shift [OF assms(1), of 1 "a # s"] assms(2) by (simp add: pieces_def matches_from_skip)

lemma pieces_take:
  assumes "forward r" "starts r s (0, []) (n, c)" "0 < n"
  shows "pieces r s = take n s # pieces r (drop n s)"
proof -
  from assms(2) obtain ys where m: "ms r s (0, []) = (n, c) # ys" by (auto simp: starts_def)
  with ms_bounds [of "(n, c)" r s "(0, [])"] have "n \<le> length s" by simp
  from pieces_shift [OF assms(1) this] matches_from_here [of 0 s r n c ys] m assms(3) show ?thesis
    by (simp add: pieces_def found_text_def)
qed

lemma pieces_Nil: "ms r [] (0, []) = [] \<Longrightarrow> pieces r [] = []"
  using matches_from.simps [of r "[]" "Suc 0"] by (simp add: pieces_def matches_from_skip search_end)

end
