(* ===== verification/Json.thy ===== *)
theory Json
  imports JS_Value JS_Regex
begin

text \<open>
  \<open>$.json_stringify\<close> of \<open>terminal.js\<close>, which the history, the list of interpreter names and the
  URL hash are stored with. It puts a comma after every nested value and removes the surplus
  commas by two regular expression replacements over the whole text, inside string literals
  too. The reader, \<open>$.parseJSON\<close>, is the language's \<open>JSON.parse\<close>; \<open>parse_strings\<close> is that
  function on the arrays of strings that the terminal stores (\<^const>\<open>None\<close>: it throws, or the
  text is another JSON value). The lemmas show when the text read back gives the value stored.
\<close>

section \<open>Writing\<close>

definition re_close :: re where \<comment> \<open>\<open>/,([\]}])/g\<close>\<close>
  "re_close = Seq (Chr CHR '','') (Grp 1 (Cls (\<lambda>c. c = CHR '']'' \<or> c = CHR ''}'')))"

definition re_open :: re where \<comment> \<open>\<open>/([\[{]),/g\<close>\<close>
  "re_open = Seq (Grp 1 (Cls (\<lambda>c. c = CHR ''['' \<or> c = CHR ''{''))) (Chr CHR '','')"

definition cap_or_empty :: "nat \<Rightarrow> found \<Rightarrow> string" where \<comment> \<open>\<open>$n\<close> in a replacement text\<close>
  "cap_or_empty n m = (case found_cap n m of None \<Rightarrow> [] | Some t \<Rightarrow> t)"

definition json_close :: "nat \<Rightarrow> string \<Rightarrow> string" where
  "json_close level result =
     (let result = result @ (if level > 1 then '','' else '''');
          result = (if level = 1 then replace_all re_close (cap_or_empty 1) result else result)
      in replace_all re_open (cap_or_empty 1) result)"

text \<open>The table \<open>repl\<close>, applied to the string entry by entry.\<close>

definition json_repl :: "(char \<times> string) list" where
  "json_repl =
     [(CHR 0x5C, [CHR 0x5C, CHR 0x5C]), (CHR 0x22, [CHR 0x5C, CHR 0x22]), (CHR ''/'', [CHR 0x5C, CHR ''/'']),
      (CHR 0x0A, [CHR 0x5C, CHR ''n'']), (CHR 0x0D, [CHR 0x5C, CHR ''r'']), (CHR 0x09, [CHR 0x5C, CHR ''t''])]"

definition json_escape :: "string \<Rightarrow> string" where
  "json_escape str = fold (\<lambda>(c, r) s. replace_all (Chr c) (\<lambda>_. r) s) json_repl str"

fun json_stringify :: "jsval \<Rightarrow> nat \<Rightarrow> string" where
  "json_stringify (JFun src) level = json_close level src"
| "json_stringify (JBool b) level = json_close level (if b then ''true'' else ''false'')"
| "json_stringify JNull level = json_close level ''null''"
| "json_stringify (JArr xs) level =
     json_close level (''['' @
       (if xs = [] then json_close (level + 1) '''' \<comment> \<open>\<open>object[-1]\<close> is \<open>undefined\<close>\<close>
        else concat (map (\<lambda>x. json_stringify x (level + 1)) xs)) @ '']'')"
| "json_stringify (JObj ps) level =
     json_close level (''{'' @
       concat (map (\<lambda>(k, v). [CHR 0x22] @ k @ [CHR 0x22, CHR '':''] @ json_stringify v (level + 1)) ps) @ ''}'')"
| "json_stringify (JStr s) level = json_close level ([CHR 0x22] @ json_escape s @ [CHR 0x22])"
| "json_stringify (JNum i) level = json_close level (show_int i)"
| "json_stringify JUndef level = json_close level ''''"

section \<open>Reading\<close>

definition json_ws :: "char \<Rightarrow> bool" where
  "json_ws c \<longleftrightarrow> c = CHR '' '' \<or> c = CHR 0x09 \<or> c = CHR 0x0A \<or> c = CHR 0x0D"

definition skip_ws :: "string \<Rightarrow> string" where
  "skip_ws s = dropWhile json_ws s"

definition unescape1 :: "char \<Rightarrow> char option" where
  "unescape1 c = map_of [(CHR 0x22, CHR 0x22), (CHR 0x5C, CHR 0x5C), (CHR ''/'', CHR ''/''),
     (CHR ''b'', CHR 0x08), (CHR ''f'', CHR 0x0C), (CHR ''n'', CHR 0x0A), (CHR ''r'', CHR 0x0D),
     (CHR ''t'', CHR 0x09)] c"

text \<open>
  The rest of a string literal after its opening quote: its value and what follows the closing
  quote. A control character is a syntax error. \<open>\u\<close> escapes, which the writer never makes, are
  not read.
\<close>

fun parse_body :: "string \<Rightarrow> (string \<times> string) option" where
  "parse_body [] = None"
| "parse_body (c # cs) =
     (if c = CHR 0x22 then Some ([], cs)
      else if c = CHR 0x5C then
        (case cs of
           [] \<Rightarrow> None
         | e # r \<Rightarrow> (case unescape1 e of None \<Rightarrow> None
             | Some d \<Rightarrow> map_option (\<lambda>(s, t). (d # s, t)) (parse_body r)))
      else if c < CHR 0x20 then None
      else map_option (\<lambda>(s, t). (c # s, t)) (parse_body cs))"

text \<open>The elements of an array after its bracket or a comma; \<open>fuel\<close> bounds their number.\<close>

fun parse_elems :: "nat \<Rightarrow> string \<Rightarrow> (string list \<times> string) option" where
  "parse_elems 0 s = None"
| "parse_elems (Suc n) s =
     (case skip_ws s of
        [] \<Rightarrow> None
      | c # cs \<Rightarrow>
          (if c = CHR 0x22 then
             (case parse_body cs of
                None \<Rightarrow> None
              | Some (x, r) \<Rightarrow>
                  (case skip_ws r of
                     [] \<Rightarrow> None
                   | d # r' \<Rightarrow>
                       (if d = CHR '']'' then Some ([x], r')
                        else if d = CHR '','' then map_option (\<lambda>(xs, t). (x # xs, t)) (parse_elems n r')
                        else None)))
           else None))"

definition parse_strings :: "string \<Rightarrow> string list option" where
  "parse_strings s =
     (case skip_ws s of
        [] \<Rightarrow> None
      | c # cs \<Rightarrow>
          (if c = CHR ''['' then
             (case skip_ws cs of
                [] \<Rightarrow> None
              | d # r \<Rightarrow>
                  (if d = CHR '']'' then (if skip_ws r = [] then Some [] else None)
                   else (case parse_elems (length cs) cs of
                           None \<Rightarrow> None
                         | Some (xs, t) \<Rightarrow> (if skip_ws t = [] then Some xs else None))))
           else None))"

section \<open>The two replacements as scans\<close>

text \<open>
  \<open>drop_first P\<close> removes the first character of every adjacent pair that satisfies \<open>P\<close>, and
  \<open>drop_second P\<close> the second, left to right without overlap.
\<close>

fun drop_first :: "(char \<Rightarrow> char \<Rightarrow> bool) \<Rightarrow> string \<Rightarrow> string" where
  "drop_first P (a # b # s) = (if P a b then b # drop_first P s else a # drop_first P (b # s))"
| "drop_first P s = s"

fun drop_second :: "(char \<Rightarrow> char \<Rightarrow> bool) \<Rightarrow> string \<Rightarrow> string" where
  "drop_second P (a # b # s) = (if P a b then a # drop_second P s else a # drop_second P (b # s))"
| "drop_second P s = s"

fun has_pair :: "(char \<Rightarrow> char \<Rightarrow> bool) \<Rightarrow> string \<Rightarrow> bool" where
  "has_pair P (a # b # s) = (P a b \<or> has_pair P (b # s))"
| "has_pair P s = False"

definition close_pair :: "char \<Rightarrow> char \<Rightarrow> bool" where
  "close_pair a b \<longleftrightarrow> a = CHR '','' \<and> (b = CHR '']'' \<or> b = CHR ''}'')"

definition open_pair :: "char \<Rightarrow> char \<Rightarrow> bool" where
  "open_pair a b \<longleftrightarrow> (a = CHR ''['' \<or> a = CHR ''{'') \<and> b = CHR '',''"

lemma drop_two_nth: "Suc i < length s \<Longrightarrow> drop i s = s ! i # s ! Suc i # drop (Suc (Suc i)) s"
  by (metis Cons_nth_drop_Suc Suc_lessD)

lemma has_pair_append:
  "has_pair P (s @ t) \<longleftrightarrow> has_pair P s \<or> has_pair P t \<or> (s \<noteq> [] \<and> t \<noteq> [] \<and> P (last s) (hd t))"
  by (cases t; induction P s rule: has_pair.induct; auto)

lemma drop_first_id: "\<not> has_pair P s \<Longrightarrow> drop_first P s = s"
  by (induction P s rule: drop_first.induct) auto

lemma drop_second_id: "\<not> has_pair P s \<Longrightarrow> drop_second P s = s"
  by (induction P s rule: drop_second.induct) auto

lemma drop_first_last:
  "\<not> has_pair P (s @ [a]) \<Longrightarrow> P a b \<Longrightarrow> drop_first P (s @ [a, b]) = s @ [b]"
  by (induction P s rule: drop_first.induct) auto

lemma take_one_drop: "i < length s \<Longrightarrow> take (Suc i - i) (drop i s) = [s ! i]"
  by (simp add: take_Suc hd_drop_conv_nth)

lemma ms_close:
  "ms re_close s (i, []) =
    (if Suc i < length s \<and> close_pair (s ! i) (s ! Suc i) then [(Suc (Suc i), [(1, [s ! Suc i])])] else [])"
  using take_one_drop [of "Suc i" s] by (auto simp: re_close_def Chr_def close_pair_def)

lemma ms_open:
  "ms re_open s (i, []) =
    (if Suc i < length s \<and> open_pair (s ! i) (s ! Suc i) then [(Suc (Suc i), [(1, [s ! i])])] else [])"
  using take_one_drop [of i s] by (auto simp: re_open_def Chr_def open_pair_def)

lemma drop_last_one: "i < length s \<Longrightarrow> \<not> Suc i < length s \<Longrightarrow> drop i s = [s ! i] \<and> drop (Suc i) s = []"
  by (simp flip: Cons_nth_drop_Suc)

lemma drop_first_drop:
  assumes "i < length s"
  shows "drop_first P (drop i s) =
    (if Suc i < length s \<and> P (s ! i) (s ! Suc i) then s ! Suc i # drop_first P (drop (Suc (Suc i)) s)
     else s ! i # drop_first P (drop (Suc i) s))"
proof (cases "Suc i < length s")
  case True
  then have "drop (Suc i) s = s ! Suc i # drop (Suc (Suc i)) s" by (simp add: Cons_nth_drop_Suc)
  with True show ?thesis by (simp add: drop_two_nth)
qed (use drop_last_one [OF assms] in simp)

lemma drop_second_drop:
  assumes "i < length s"
  shows "drop_second P (drop i s) =
    (if Suc i < length s \<and> P (s ! i) (s ! Suc i) then s ! i # drop_second P (drop (Suc (Suc i)) s)
     else s ! i # drop_second P (drop (Suc i) s))"
proof (cases "Suc i < length s")
  case True
  then have "drop (Suc i) s = s ! Suc i # drop (Suc (Suc i)) s" by (simp add: Cons_nth_drop_Suc)
  with True show ?thesis by (simp add: drop_two_nth)
qed (use drop_last_one [OF assms] in simp)

lemma replace_close: "replace_all re_close (cap_or_empty 1) s = drop_first close_pair s"
proof (rule replace_all_scan [where g = "drop_first close_pair"])
  fix i assume "i < length s" "ms re_close s (i, []) = []"
  then show "drop_first close_pair (drop i s) = s ! i # drop_first close_pair (drop (Suc i) s)"
    by (subst drop_first_drop) (auto simp: ms_close split: if_splits)
next
  fix i b c ys assume "i < length s" "ms re_close s (i, []) = (b, c) # ys"
  then show "i < b \<and> drop_first close_pair (drop i s)
      = cap_or_empty 1 (i, b, c) @ drop_first close_pair (drop b s)"
    by (subst drop_first_drop) (auto simp: ms_close cap_or_empty_def found_cap_def split: if_splits)
qed (simp_all add: ms_close)

lemma replace_open: "replace_all re_open (cap_or_empty 1) s = drop_second open_pair s"
proof (rule replace_all_scan [where g = "drop_second open_pair"])
  fix i assume "i < length s" "ms re_open s (i, []) = []"
  then show "drop_second open_pair (drop i s) = s ! i # drop_second open_pair (drop (Suc i) s)"
    by (subst drop_second_drop) (auto simp: ms_open split: if_splits)
next
  fix i b c ys assume "i < length s" "ms re_open s (i, []) = (b, c) # ys"
  then show "i < b \<and> drop_second open_pair (drop i s)
      = cap_or_empty 1 (i, b, c) @ drop_second open_pair (drop b s)"
    by (subst drop_second_drop) (auto simp: ms_open cap_or_empty_def found_cap_def split: if_splits)
qed (simp_all add: ms_open)

section \<open>Escaping and reading back\<close>

definition esc_char :: "char \<Rightarrow> string" where
  "esc_char c = (case map_of json_repl c of None \<Rightarrow> [c] | Some r \<Rightarrow> r)"

lemma replace_all_Chr: "replace_all (Chr c) (\<lambda>_. r) s = concat (map (\<lambda>x. if x = c then r else [x]) s)"
  unfolding Chr_def by (rule replace_all_Cls) simp

text \<open>
  The order of the table matters: the backslash is escaped first, so the backslashes that later
  entries add are not escaped again.
\<close>

lemma json_escape_eq: "json_escape s = concat (map esc_char s)"
  unfolding json_escape_def json_repl_def
  by (simp add: replace_all_Chr, induction s) (auto simp: esc_char_def json_repl_def)

lemma json_escape_Nil [simp]: "json_escape [] = []"
  by (simp add: json_escape_eq)

lemma json_escape_Cons: "json_escape (c # s) = esc_char c @ json_escape s"
  by (simp add: json_escape_eq)

text \<open>The characters \<open>JSON.parse\<close> takes back: no control character but the three escaped ones.\<close>

definition json_char :: "char \<Rightarrow> bool" where
  "json_char c \<longleftrightarrow> \<not> c < CHR 0x20 \<or> c = CHR 0x0A \<or> c = CHR 0x0D \<or> c = CHR 0x09"

lemma parse_body_escape:
  "\<forall>c\<in>set s. json_char c \<Longrightarrow> parse_body (json_escape s @ CHR 0x22 # r) = Some (s, r)"
proof (induction s)
  case (Cons c s)
  then have "parse_body (json_escape s @ CHR 0x22 # r) = Some (s, r)" and "json_char c" by simp_all
  then show ?case
    by (auto simp: json_escape_Cons esc_char_def json_repl_def unescape1_def json_char_def
        split: if_splits)
qed simp

lemma json_close_eq:
  "json_close (Suc 0) r = drop_second open_pair (drop_first close_pair r)"
  "json_close (Suc (Suc n)) r = drop_second open_pair (r @ '','')"
  by (simp_all add: json_close_def replace_close replace_open flip: One_nat_def)

lemma pair_simps [simp]:
  "\<not> close_pair CHR 0x22 b" "\<not> close_pair a CHR 0x22" "\<not> close_pair a CHR '',''" "\<not> close_pair a CHR ''[''"
  "\<not> close_pair CHR ''['' b" "\<not> close_pair CHR '']'' b" "close_pair CHR '','' CHR '']''"
  "\<not> open_pair CHR 0x22 b" "\<not> open_pair a CHR 0x22" "\<not> open_pair CHR '','' b" "\<not> open_pair CHR '']'' b"
  "\<not> open_pair a CHR '']''" "\<not> open_pair a CHR ''[''"
  by (simp_all add: close_pair_def open_pair_def)

text \<open>A string that the two replacements leave alone and that \<open>JSON.parse\<close> accepts.\<close>

definition json_storable :: "string \<Rightarrow> bool" where
  "json_storable s \<longleftrightarrow>
     (\<forall>c\<in>set s. json_char c) \<and> \<not> has_pair close_pair s \<and> \<not> has_pair open_pair s"

lemma esc_char_ne [simp]: "esc_char c \<noteq> []"
  by (simp add: esc_char_def json_repl_def)

lemma esc_char_pairs: "\<not> has_pair close_pair (esc_char c)" "\<not> has_pair open_pair (esc_char c)"
  by (simp_all add: esc_char_def json_repl_def close_pair_def open_pair_def)

lemma esc_char_ends:
  "close_pair (last (esc_char c)) (hd (esc_char d @ t)) \<longleftrightarrow> close_pair c d"
  "open_pair (last (esc_char c)) (hd (esc_char d @ t)) \<longleftrightarrow> open_pair c d"
  by (auto simp: esc_char_def json_repl_def close_pair_def open_pair_def)

lemma has_pair_escape:
  "has_pair close_pair (json_escape s) \<longleftrightarrow> has_pair close_pair s"
  "has_pair open_pair (json_escape s) \<longleftrightarrow> has_pair open_pair s"
proof (induction s rule: induct_list012)
  case (3 c d s)
  have e: "json_escape (c # d # s) = esc_char c @ json_escape (d # s)" "json_escape (d # s) \<noteq> []"
    by (simp_all add: json_escape_Cons)
  have h: "close_pair (last (esc_char c)) (hd (json_escape (d # s))) \<longleftrightarrow> close_pair c d"
    "open_pair (last (esc_char c)) (hd (json_escape (d # s))) \<longleftrightarrow> open_pair c d"
    by (simp_all only: json_escape_Cons esc_char_ends)
  {
    case 1
    show ?case using "3.IH"(3) h e by (auto simp only: e(1) has_pair_append esc_char_pairs esc_char_ne has_pair.simps(1))
  next
    case 2
    show ?case using "3.IH"(4) h e by (auto simp only: e(1) has_pair_append esc_char_pairs esc_char_ne has_pair.simps(1))
  }
qed (simp_all add: json_escape_Cons esc_char_pairs)

definition json_lit :: "string \<Rightarrow> string" where
  "json_lit s = [CHR 0x22] @ json_escape s @ [CHR 0x22]"

lemma json_lit_ends [simp]: "hd (json_lit s) = CHR 0x22" "last (json_lit s) = CHR 0x22" "json_lit s \<noteq> []"
  by (simp_all add: json_lit_def)

lemma json_lit_pairs:
  "has_pair close_pair (json_lit s) \<longleftrightarrow> has_pair close_pair s"
  "has_pair open_pair (json_lit s) \<longleftrightarrow> has_pair open_pair s"
  by (auto simp: json_lit_def has_pair_append has_pair_escape simp del: append_Cons append_Nil)

lemma join_lits_ends:
  "xs \<noteq> [] \<Longrightarrow> hd (join_with '','' (map json_lit xs)) = CHR 0x22
     \<and> last (join_with '','' (map json_lit xs)) = CHR 0x22 \<and> join_with '','' (map json_lit xs) \<noteq> []"
  by (induction xs rule: induct_list012) auto

lemma join_lits_pairs:
  "(\<forall>x\<in>set xs. json_storable x) \<Longrightarrow>
   \<not> has_pair close_pair (join_with '','' (map json_lit xs)) \<and>
   \<not> has_pair open_pair (join_with '','' (map json_lit xs))"
proof (induction xs rule: induct_list012)
  case (3 x y ys)
  then show ?case
    using join_lits_ends [of "y # ys"]
    by (auto simp: has_pair_append json_lit_pairs json_storable_def simp del: append_Cons)
qed (simp_all add: json_lit_pairs json_storable_def)

lemma stringify_str:
  assumes "json_storable s" shows "json_stringify (JStr s) (Suc (Suc n)) = json_lit s @ '',''"
proof -
  have "json_stringify (JStr s) (Suc (Suc n)) = drop_second open_pair (json_lit s @ '','')"
    by (simp add: json_close_eq json_lit_def)
  also have "\<dots> = json_lit s @ '',''"
    using assms by (intro drop_second_id) (simp add: has_pair_append json_lit_pairs json_storable_def)
  finally show ?thesis .
qed

lemma concat_lits:
  "xs \<noteq> [] \<Longrightarrow> concat (map (\<lambda>x. json_lit x @ '','') xs) = join_with '','' (map json_lit xs) @ '',''"
  by (induction xs rule: induct_list012) auto

text \<open>On storable strings the writer prints the array as expected.\<close>

lemma stringify_strings:
  assumes "\<forall>x\<in>set xs. json_storable x"
  shows "json_stringify (JArr (map JStr xs)) 1 = ''['' @ join_with '','' (map json_lit xs) @ '']''"
proof (cases "xs = []")
  case True
  then show ?thesis
    by (simp add: json_close_eq close_pair_def open_pair_def)
next
  case False
  let ?b = "''['' @ join_with '','' (map json_lit xs)"
  have np: "\<not> has_pair close_pair (?b @ [CHR '',''])" "\<not> has_pair open_pair (?b @ [CHR '']''])"
    using join_lits_pairs [OF assms] join_lits_ends [OF False]
    by (auto simp: has_pair_append simp del: append_Cons)
  have "map (\<lambda>x. json_stringify (JStr x) (Suc (Suc 0))) xs = map (\<lambda>x. json_lit x @ '','') xs"
    using assms stringify_str by (auto simp del: json_stringify.simps)
  then have "concat (map (\<lambda>x. json_stringify (JStr x) (Suc (Suc 0))) xs)
      = join_with '','' (map json_lit xs) @ '',''"
    using concat_lits [OF False] by (simp only:)
  with False have "json_stringify (JArr (map JStr xs)) 1 = json_close 1 (?b @ [CHR '','', CHR '']''])"
    by (simp add: comp_def del: json_stringify.simps(6))
  also have "\<dots> = ?b @ [CHR '']'']"
    using drop_first_last [OF np(1), of "CHR '']''"] drop_second_id [OF np(2)]
    by (simp add: json_close_eq del: append_Cons)
  finally show ?thesis by simp
qed

lemma parse_elems_lits:
  "xs \<noteq> [] \<Longrightarrow> length xs \<le> n \<Longrightarrow> (\<forall>x\<in>set xs. json_storable x) \<Longrightarrow>
   parse_elems n (join_with '','' (map json_lit xs) @ '']'') = Some (xs, [])"
proof (induction n arbitrary: xs)
  case (Suc n)
  then obtain x ys where xs: "xs = x # ys" by (cases xs) auto
  have x: "parse_body (json_escape x @ CHR 0x22 # r) = Some (x, r)" for r
    using Suc.prems(3) xs by (intro parse_body_escape) (simp add: json_storable_def)
  show ?case
  proof (cases ys)
    case Nil
    then show ?thesis using x by (simp add: xs json_lit_def skip_ws_def json_ws_def)
  next
    case (Cons y zs)
    with Suc.IH [of ys] Suc.prems xs
    have "parse_elems n (join_with '','' (map json_lit ys) @ '']'') = Some (ys, [])" by simp
    moreover have "join_with '','' (map json_lit xs) = json_lit x @ '','' @ join_with '','' (map json_lit ys)"
      by (simp add: xs Cons)
    then have t: "join_with '','' (map json_lit xs) @ '']'' = CHR 0x22 # json_escape x @ CHR 0x22 # CHR '','' #
        join_with '','' (map json_lit ys) @ '']''" by (simp add: json_lit_def [of x])
    ultimately show ?thesis using x unfolding t by (simp add: skip_ws_def json_ws_def xs)
  qed
qed simp

lemma length_join_lits: "length xs \<le> length (join_with '','' (map json_lit xs))"
  by (induction xs rule: induct_list012) (auto simp: json_lit_def)

lemma parse_strings_lits:
  assumes "\<forall>x\<in>set xs. json_storable x"
  shows "parse_strings (''['' @ join_with '','' (map json_lit xs) @ '']'') = Some xs"
proof (cases xs)
  case Nil
  then show ?thesis by (simp add: parse_strings_def skip_ws_def json_ws_def)
next
  case (Cons x ys)
  let ?t = "join_with '','' (map json_lit xs) @ '']''"
  have "parse_elems (length ?t) ?t = Some (xs, [])"
    using Cons assms length_join_lits [of xs] by (intro parse_elems_lits) auto
  moreover obtain u where "?t = CHR 0x22 # u"
    using join_lits_ends [of xs] Cons by (cases "join_with '','' (map json_lit xs)") auto
  ultimately show ?thesis
    by (simp add: parse_strings_def skip_ws_def json_ws_def)
qed

text \<open>What is stored is read back.\<close>

theorem json_roundtrip:
  assumes "\<forall>x\<in>set xs. json_storable x"
  shows "parse_strings (json_stringify (JArr (map JStr xs)) 1) = Some xs"
  using stringify_strings [OF assms] parse_strings_lits [OF assms] by simp

theorem json_roundtrip_witness:
  "parse_strings (json_stringify (JArr (map JStr [''FLUSH'', ''x / [y]''])) 1) = Some [''FLUSH'', ''x / [y]'']"
  by (rule json_roundtrip) (simp add: json_storable_def json_char_def close_pair_def open_pair_def)

text \<open>A comma before a closing bracket inside a string literal is lost.\<close>

theorem json_drops_comma_in_string:
  "parse_strings (json_stringify (JArr [JStr ''a,]b'', JStr ''c[,d'']) 1) = Some [''a]b'', ''c[d'']"
proof -
  have "json_stringify (JArr [JStr ''a,]b'', JStr ''c[,d'']) 1
      = ''['' @ join_with '','' (map json_lit [''a]b'', ''c[d'']) @ '']''"
    by (simp add: json_close_eq numeral_2_eq_2 close_pair_def open_pair_def json_lit_def json_escape_eq esc_char_def json_repl_def)
  then show ?thesis
    by (simp only:) (rule parse_strings_lits,
      simp add: json_storable_def json_char_def close_pair_def open_pair_def)
qed

end
