(* ===== verification/Storage.thy ===== *)
theory Storage
  imports JS_Value "HOL-Library.Sublist"
begin

text \<open>
  The storage plugin of \<open>terminal.js\<close> (\<open>$.Storage\<close>): \<open>wls\<close>, \<open>rls\<close>, \<open>dls\<close> over the browser's
  \<open>localStorage\<close>, and \<open>wc\<close>, \<open>rc\<close>, \<open>dc\<close> over \<open>document.cookie\<close> for a browser that has none.
  \<open>localStorage\<close> is a map from names to strings. \<open>document.cookie\<close> is the list of cookies of
  the page in creation order: reading it joins them with a semicolon and a space, assigning to
  it stores the one pair before the first semicolon under its trimmed name. The attributes the
  code appends set an expiry one year ahead and the path of the site, so they never drop a cookie.
\<close>

section \<open>The browser\<close>

record browser =
  has_ls :: bool
  local_storage :: "string \<rightharpoonup> string"
  cookies :: "(string \<times> string) list"
  gmt_next_year :: string

fun upsert :: "'a \<Rightarrow> 'b \<Rightarrow> ('a \<times> 'b) list \<Rightarrow> ('a \<times> 'b) list" where
  "upsert k v [] = [(k, v)]"
| "upsert k v ((k', v') # ps) = (if k' = k then (k, v) # ps else (k', v') # upsert k v ps)"

lemma map_of_upsert: "map_of (upsert k v ps) = (map_of ps)(k \<mapsto> v)"
  by (induction ps) auto

lemma set_upsert: "p \<in> set (upsert k v ps) \<Longrightarrow> p = (k, v) \<or> p \<in> set ps"
  by (induction ps) (auto split: if_splits)

definition trim_spaces :: "string \<Rightarrow> string" where
  "trim_spaces s = rev (dropWhile (\<lambda>c. c = CHR '' '') (rev (dropWhile (\<lambda>c. c = CHR '' '') s)))"

definition cookie_assign :: "string \<Rightarrow> (string \<times> string) list \<Rightarrow> (string \<times> string) list" where
  "cookie_assign str jar =
     (let pair = hd (split_char CHR '';'' str);
          name = trim_spaces (takeWhile (\<lambda>c. c \<noteq> CHR ''='') pair);
          val = trim_spaces (drop 1 (dropWhile (\<lambda>c. c \<noteq> CHR ''='') pair))
      in upsert name val jar)"

definition cookie_string :: "(string \<times> string) list \<Rightarrow> string" where
  "cookie_string jar = join_with ''; '' (map (\<lambda>(n, v). n @ ''='' @ v) jar)"

section \<open>The plugin\<close>

definition wls :: "jsval \<Rightarrow> jsval \<Rightarrow> browser \<Rightarrow> bool \<times> browser" where
  "wls n v b =
     (case (n, v) of
        (JStr k, JStr x) \<Rightarrow> (True, b\<lparr>local_storage := (local_storage b)(k \<mapsto> x)\<rparr>)
      | _ \<Rightarrow>
         (if typeof n = ''object'' \<and> v = JUndef
          then (True, b\<lparr>local_storage :=
                  fold (\<lambda>(k, x) m. m(k \<mapsto> js_string x)) (own_props n) (local_storage b)\<rparr>)
          else (False, b)))"

definition cookie_text :: "browser \<Rightarrow> string \<Rightarrow> string \<Rightarrow> string" where
  "cookie_text b n v = n @ ''='' @ v @ ''; expires='' @ gmt_next_year b @ ''; path=/''"

definition wc :: "jsval \<Rightarrow> jsval \<Rightarrow> browser \<Rightarrow> bool \<times> browser" where
  "wc n v b =
     (case (n, v) of
        (JStr k, JStr x) \<Rightarrow> (True, b\<lparr>cookies := cookie_assign (cookie_text b k x) (cookies b)\<rparr>)
      | _ \<Rightarrow>
         (if typeof n = ''object'' \<and> v = JUndef
          then (True, b\<lparr>cookies :=
                  fold (\<lambda>(k, x) jar. cookie_assign (cookie_text b k (js_string x)) jar)
                    (own_props n) (cookies b)\<rparr>)
          else (False, b)))"

text \<open>A missing name is \<open>undefined\<close> for \<open>rls\<close> and \<open>null\<close> for \<open>rc\<close>: both are \<^const>\<open>None\<close>.\<close>

definition rls :: "string \<Rightarrow> browser \<Rightarrow> string option" where
  "rls n b = local_storage b n"

fun rc_scan :: "string \<Rightarrow> string list \<Rightarrow> string option" where
  "rc_scan nn [] = None"
| "rc_scan nn (c # cs) =
     (let c' = dropWhile (\<lambda>x. x = CHR '' '') c
      in if prefix nn c' then Some (substring c' (int (length nn)) (int (length c')))
         else rc_scan nn cs)"

definition rc :: "string \<Rightarrow> browser \<Rightarrow> string option" where
  "rc n b = rc_scan (n @ ''='') (split_char CHR '';'' (cookie_string (cookies b)))"

definition dls :: "string \<Rightarrow> browser \<Rightarrow> bool \<times> browser" where
  "dls n b = (True, b\<lparr>local_storage := (local_storage b)(n := None)\<rparr>)"

text \<open>\<open>dc\<close> passes a third argument that \<open>wc\<close> does not have.\<close>

definition dc :: "string \<Rightarrow> browser \<Rightarrow> bool \<times> browser" where
  "dc n b = wc (JStr n) (JStr '''') b"

definition storage_set :: "jsval \<Rightarrow> jsval \<Rightarrow> browser \<Rightarrow> bool \<times> browser" where
  "storage_set n v b = (if has_ls b then wls n v b else wc n v b)"

definition storage_get :: "string \<Rightarrow> browser \<Rightarrow> string option" where
  "storage_get n b = (if has_ls b then rls n b else rc n b)"

definition storage_remove :: "string \<Rightarrow> browser \<Rightarrow> bool \<times> browser" where
  "storage_remove n b = (if has_ls b then dls n b else dc n b)"

section \<open>Cookies that survive\<close>

text \<open>
  A name or a value survives the cookie text when it holds no semicolon (and a name no equals
  sign) and neither begins nor ends with a space.
\<close>

definition trimmed :: "string \<Rightarrow> bool" where
  "trimmed s \<longleftrightarrow> s = [] \<or> (hd s \<noteq> CHR '' '' \<and> last s \<noteq> CHR '' '')"

definition cookie_name :: "string \<Rightarrow> bool" where
  "cookie_name n \<longleftrightarrow> CHR '';'' \<notin> set n \<and> CHR ''='' \<notin> set n \<and> trimmed n"

definition cookie_value :: "string \<Rightarrow> bool" where
  "cookie_value v \<longleftrightarrow> CHR '';'' \<notin> set v \<and> trimmed v"

definition jar_ok :: "browser \<Rightarrow> bool" where
  "jar_ok b \<longleftrightarrow> (\<forall>(n, v)\<in>set (cookies b). cookie_name n \<and> cookie_value v)"

lemma dropWhile_trimmed: "trimmed s \<Longrightarrow> dropWhile (\<lambda>c. c = CHR '' '') s = s"
  by (cases s) (auto simp: trimmed_def)

lemma trim_trimmed: "trimmed s \<Longrightarrow> trim_spaces s = s"
  by (cases s rule: rev_cases) (auto simp: trim_spaces_def dropWhile_trimmed trimmed_def)

lemma cookie_assign_text:
  assumes "cookie_name n" "cookie_value v"
  shows "cookie_assign (cookie_text b n v) jar = upsert n v jar"
proof -
  have "split_char CHR '';'' (cookie_text b n v) =
      (n @ ''='' @ v) # split_char CHR '';'' ('' expires='' @ gmt_next_year b @ ''; path=/'')"
    using assms split_char_append [of "CHR '';''" "n @ ''='' @ v"]
    by (simp add: cookie_text_def cookie_name_def cookie_value_def)
  moreover have "takeWhile (\<lambda>c. c \<noteq> CHR ''='') (n @ ''='' @ v) = n"
    "dropWhile (\<lambda>c. c \<noteq> CHR ''='') (n @ ''='' @ v) = ''='' @ v"
    using assms(1) by (simp_all add: cookie_name_def takeWhile_before dropWhile_before)
  ultimately show ?thesis
    using assms by (simp add: cookie_assign_def trim_trimmed cookie_name_def cookie_value_def)
qed

lemma split_join_cookies:
  "\<forall>p\<in>set (p0 # ps). CHR '';'' \<notin> set p \<Longrightarrow>
   split_char CHR '';'' (join_with ''; '' (p0 # ps)) = p0 # map ((#) CHR '' '') ps"
proof (induction ps arbitrary: p0)
  case Nil
  then show ?case by (simp add: split_char_no_sep)
next
  case (Cons q qs)
  then have "split_char CHR '';'' (join_with ''; '' (q # qs)) = q # map ((#) CHR '' '') qs"
    by simp
  with Cons.prems show ?case
    using split_char_append [of "CHR '';''" p0 "CHR '' '' # join_with ''; '' (q # qs)"]
    by (simp split: list.splits)
qed

lemma prefix_name_iff:
  "CHR ''='' \<notin> set n \<Longrightarrow> CHR ''='' \<notin> set m \<Longrightarrow> prefix (n @ ''='') (m @ ''='' @ v) \<longleftrightarrow> n = m"
proof (induction n arbitrary: m)
  case Nil
  then show ?case by (cases m) auto
next
  case (Cons a n)
  then show ?case by (cases m) auto
qed

lemma rc_scan_entry:
  assumes "cookie_name n" "cookie_name m" "sp = [] \<or> sp = '' ''"
  shows "rc_scan (n @ ''='') ((sp @ m @ ''='' @ v) # cs)
         = (if n = m then Some v else rc_scan (n @ ''='') cs)"
proof -
  have "dropWhile (\<lambda>x. x = CHR '' '') (sp @ m @ ''='' @ v) = m @ ''='' @ v"
    using assms(2,3) by (cases m) (auto simp: cookie_name_def trimmed_def)
  moreover have "prefix (n @ ''='') (m @ ''='' @ v) \<longleftrightarrow> n = m"
    using assms(1,2) by (intro prefix_name_iff) (auto simp: cookie_name_def)
  moreover have "substring (n @ ''='' @ v) (int (length (n @ ''=''))) (int (length (n @ ''='' @ v))) = v"
    by (simp add: substring_in nat_add_distrib)
  ultimately show ?thesis by (auto simp: Let_def simp del: append_Cons)
qed

lemma rc_scan_jar:
  "cookie_name n \<Longrightarrow> (\<forall>(m, v)\<in>set jar. cookie_name m) \<Longrightarrow>
   rc_scan (n @ ''='') (map (\<lambda>(m, v). '' '' @ m @ ''='' @ v) jar) = map_of jar n"
proof (induction jar)
  case (Cons p jar)
  then show ?case
    using rc_scan_entry [of n "fst p" "'' ''" "snd p"] by (cases p) auto
qed simp

lemma rc_map_of:
  assumes "jar_ok b" "cookie_name n"
  shows "rc n b = map_of (cookies b) n"
proof (cases "cookies b")
  case Nil
  then show ?thesis by (simp add: rc_def cookie_string_def)
next
  case (Cons p ps)
  let ?txt = "\<lambda>(m, v). m @ ''='' @ v :: string"
  have ok: "\<forall>(m, v)\<in>set (p # ps). cookie_name m \<and> cookie_value v"
    using assms(1) Cons by (simp add: jar_ok_def)
  have "split_char CHR '';'' (cookie_string (cookies b)) = ?txt p # map ((#) CHR '' '') (map ?txt ps)"
    unfolding cookie_string_def Cons list.map
    by (rule split_join_cookies) (use ok in \<open>auto simp: cookie_name_def cookie_value_def\<close>)
  also have "\<dots> = ([] @ fst p @ ''='' @ snd p) # map (\<lambda>(m, v). '' '' @ m @ ''='' @ v) ps"
    by (cases p) auto
  finally have "rc n b = (if n = fst p then Some (snd p) else map_of ps n)"
    unfolding rc_def
    using rc_scan_entry [of n "fst p" "[]" "snd p"] rc_scan_jar [of n ps] ok assms(2)
    by (cases p) auto
  then show ?thesis using Cons by (cases p) auto
qed

section \<open>The interface\<close>

text \<open>
  What the history and the terminal rely on: a name read after it was stored gives the value
  stored, other names keep theirs. \<open>name\<close> and \<open>text\<close> say which names and values the store
  carries; \<open>inv\<close> is the condition on the store itself.
\<close>

locale kv_store =
  fixes get :: "string \<Rightarrow> 's \<Rightarrow> string option"
    and put :: "string \<Rightarrow> string \<Rightarrow> 's \<Rightarrow> 's"
    and inv :: "'s \<Rightarrow> bool"
    and name :: "string \<Rightarrow> bool"
    and val :: "string \<Rightarrow> bool"
  assumes get_put: "inv s \<Longrightarrow> name k \<Longrightarrow> val v \<Longrightarrow> get k (put k v s) = Some v"
    and get_put_other: "inv s \<Longrightarrow> name k \<Longrightarrow> val v \<Longrightarrow> name k' \<Longrightarrow> k' \<noteq> k \<Longrightarrow>
      get k' (put k v s) = get k' s"
    and inv_put: "inv s \<Longrightarrow> name k \<Longrightarrow> val v \<Longrightarrow> inv (put k v s)"
begin

fun put_all :: "(string \<times> string) list \<Rightarrow> 's \<Rightarrow> 's" where
  "put_all [] s = s"
| "put_all ((k, v) # ps) s = put_all ps (put k v s)"

lemma put_all_get:
  "inv s \<Longrightarrow> (\<forall>(k, v)\<in>set ps. name k \<and> val v) \<Longrightarrow> name k \<Longrightarrow>
   inv (put_all ps s) \<and>
   get k (put_all ps s) = (case map_of (rev ps) k of None \<Rightarrow> get k s | Some v \<Rightarrow> Some v)"
proof (induction ps arbitrary: s)
  case (Cons p ps)
  obtain a v where p: "p = (a, v)" by (cases p)
  with Cons.prems have "inv (put a v s)" by (simp add: inv_put)
  from Cons.IH [OF this] Cons.prems p show ?case
    by (cases "k = a") (auto simp: get_put get_put_other map_add_def split: option.splits)
qed simp

end

locale kv_removable = kv_store get put inv name val
  for get :: "string \<Rightarrow> 's \<Rightarrow> string option" and put and inv and name and val +
  fixes del :: "string \<Rightarrow> 's \<Rightarrow> 's"
  assumes get_del: "inv s \<Longrightarrow> name k \<Longrightarrow> get k (del k s) = None"
    and get_del_other: "inv s \<Longrightarrow> name k \<Longrightarrow> name k' \<Longrightarrow> k' \<noteq> k \<Longrightarrow> get k' (del k s) = get k' s"
    and inv_del: "inv s \<Longrightarrow> name k \<Longrightarrow> inv (del k s)"

definition storage_put :: "string \<Rightarrow> string \<Rightarrow> browser \<Rightarrow> browser" where
  "storage_put n v b = snd (storage_set (JStr n) (JStr v) b)"

definition storage_del :: "string \<Rightarrow> browser \<Rightarrow> browser" where
  "storage_del n b = snd (storage_remove n b)"

lemma storage_put_ls: "has_ls b \<Longrightarrow>
    storage_put n v b = b\<lparr>local_storage := (local_storage b)(n \<mapsto> v)\<rparr>"
  by (simp add: storage_put_def storage_set_def wls_def)

lemma storage_put_cookie: "\<not> has_ls b \<Longrightarrow> cookie_name n \<Longrightarrow> cookie_value v \<Longrightarrow>
    storage_put n v b = b\<lparr>cookies := upsert n v (cookies b)\<rparr>"
  by (simp add: storage_put_def storage_set_def wc_def cookie_assign_text)

lemma jar_ok_upsert:
  "jar_ok b \<Longrightarrow> cookie_name n \<Longrightarrow> cookie_value v \<Longrightarrow> jar_ok (b\<lparr>cookies := upsert n v (cookies b)\<rparr>)"
  by (auto simp: jar_ok_def dest!: set_upsert)

interpretation ck: kv_store storage_get storage_put "\<lambda>b. \<not> has_ls b \<and> jar_ok b" cookie_name cookie_value
  by unfold_locales
     (auto simp: storage_get_def storage_put_cookie rc_map_of jar_ok_upsert map_of_upsert)

interpretation lst: kv_removable storage_get storage_put has_ls "\<lambda>_. True" "\<lambda>_. True" storage_del
  by unfold_locales
     (auto simp: storage_get_def storage_put_ls rls_def storage_del_def storage_remove_def dls_def)


section \<open>Reading what was stored\<close>

context kv_store
begin

lemma put_all_fold: "put_all ps s = fold (\<lambda>(k, v). put k v) ps s"
  by (induction ps arbitrary: s) auto

lemmas fold_get = put_all_get [unfolded put_all_fold, THEN conjunct2]

end


definition no_local_storage :: browser where
  "no_local_storage = \<lparr>has_ls = False, local_storage = (\<lambda>_. None), cookies = [(''a'', ''0'')], gmt_next_year = ''later''\<rparr>"


text \<open>
  Without \<open>localStorage\<close> a removed item is still there, with an empty value: the expiry that \<open>dc\<close> passes
  is not a parameter of \<open>wc\<close>.
\<close>

theorem removed_cookie_stays:
  assumes "\<not> has_ls b" "jar_ok b" "cookie_name n"
  shows "storage_get n (storage_del n b) = Some ''''"
proof -
  have "storage_del n b = storage_put n '''' b"
    using assms(1) by (simp add: storage_del_def storage_remove_def dc_def storage_put_def storage_set_def)
  with assms ck.get_put [of b n "''''"] show ?thesis by (simp add: cookie_value_def trimmed_def)
qed

theorem removed_cookie_stays_witness:
  "storage_get ''a'' (storage_del ''a'' no_local_storage) = Some ''''"
  by (rule removed_cookie_stays)
     (simp_all add: no_local_storage_def jar_ok_def cookie_name_def cookie_value_def trimmed_def)

end
