(* ===== verification/History.thy ===== *)
theory History
  imports Json Storage
begin

text \<open>
  The class \<open>History\<close> of \<open>terminal.js\<close>: the commands entered so far, the position in them, and
  the copy of the list in the browser's storage. Its state is the record \<open>hist\<close>; the methods
  that write the storage take and return the \<^typ>\<open>browser\<close> as well. A method result
  \<open>undefined\<close> is \<^const>\<open>None\<close>.
\<close>

record hist =
  h_enabled :: bool
  h_key :: string
  h_size :: int
  h_data :: "string list"
  h_pos :: int

definition history_key :: "jsval \<Rightarrow> string" where
  "history_key name =
     (case name of JStr s \<Rightarrow> (if s \<noteq> [] then s @ ''_'' else '''') | _ \<Rightarrow> '''') @ ''commands''"

text \<open>
  The constructor reads the stored list. Text that is no array of strings makes the constructor
  throw: \<open>parseJSON\<close> does on malformed text, and the code itself stores nothing else.
\<close>

definition new_history :: "jsval \<Rightarrow> int \<Rightarrow> browser \<Rightarrow> js_error + hist" where
  "new_history name sz b =
     (let key = history_key name;
          mk = (\<lambda>data. Inr \<lparr>h_enabled = True, h_key = key, h_size = sz, h_data = data,
                            h_pos = int (length data) - 1\<rparr>)
      in case storage_get key b of
           None \<Rightarrow> mk []
         | Some text \<Rightarrow>
             (if text = [] then mk []
              else case parse_strings text of None \<Rightarrow> Inl SyntaxError | Some data \<Rightarrow> mk data))"

definition h_append :: "string \<Rightarrow> hist \<times> browser \<Rightarrow> hist \<times> browser" where
  "h_append item = (\<lambda>(h, b).
     (if h_enabled h \<and> at (h_data h) (int (length (h_data h)) - 1) \<noteq> Some item then
        (let data = h_data h @ [item];
             data = (if h_size h \<noteq> 0 \<and> int (length data) > h_size h
                     then slice_from data (- h_size h) else data)
         in (h\<lparr>h_data := data, h_pos := int (length data) - 1\<rparr>,
             storage_put (h_key h) (json_stringify (JArr (map JStr data)) 1) b))
      else (h, b)))"

definition h_reset :: "hist \<Rightarrow> hist" where
  "h_reset h = h\<lparr>h_pos := int (length (h_data h)) - 1\<rparr>"

text \<open>\<open>last\<close> indexes with the global \<open>length\<close>, the number of frames of the window.\<close>

definition h_last :: "int \<Rightarrow> hist \<Rightarrow> string option" where
  "h_last window_length h = at (h_data h) (window_length - 1)"

definition h_end :: "hist \<Rightarrow> bool" where
  "h_end h \<longleftrightarrow> h_pos h = int (length (h_data h)) - 1"

definition h_current :: "hist \<Rightarrow> string option" where
  "h_current h = at (h_data h) (h_pos h)"

definition h_next :: "hist \<Rightarrow> string option \<times> hist" where
  "h_next h =
     (let h' = (if h_pos h < int (length (h_data h)) - 1 then h\<lparr>h_pos := h_pos h + 1\<rparr> else h)
      in (if h_pos h' \<noteq> -1 then at (h_data h') (h_pos h') else None, h'))"

definition h_previous :: "hist \<Rightarrow> string option \<times> hist" where
  "h_previous h =
     (let old = h_pos h;
          h' = (if h_pos h > 0 then h\<lparr>h_pos := h_pos h - 1\<rparr> else h)
      in (if old \<noteq> -1 then at (h_data h') (h_pos h') else None, h'))"

definition h_purge :: "hist \<times> browser \<Rightarrow> hist \<times> browser" where
  "h_purge = (\<lambda>(h, b). (h, storage_del (h_key h) b))"

definition h_clear :: "hist \<times> browser \<Rightarrow> hist \<times> browser" where
  "h_clear = (\<lambda>(h, b). h_purge (h\<lparr>h_data := []\<rparr>, b))"

definition h_enable :: "hist \<Rightarrow> hist" where
  "h_enable h = h\<lparr>h_enabled := True\<rparr>"

definition h_disable :: "hist \<Rightarrow> hist" where
  "h_disable h = h\<lparr>h_enabled := False\<rparr>"

section \<open>Contents\<close>

text \<open>\<open>last_n n xs\<close>: the last \<open>n\<close> elements.\<close>

definition last_n :: "nat \<Rightarrow> 'a list \<Rightarrow> 'a list" where
  "last_n n xs = drop (length xs - n) xs"

lemma length_last_n [simp]: "length (last_n n xs) = min n (length xs)"
  by (simp add: last_n_def)

lemma last_n_snoc: "last_n (Suc n) (last_n (Suc n) xs @ [x]) = last_n (Suc n) (xs @ [x])"
proof (cases "Suc n \<le> length xs")
  case True
  then have "Suc (length xs) - Suc n = Suc (length xs - Suc n)" by simp
  with True show ?thesis by (simp add: last_n_def del: diff_Suc_Suc)
qed (simp add: last_n_def)

lemma last_last_n: "xs \<noteq> [] \<Longrightarrow> last (last_n (Suc n) xs) = last xs"
  by (simp add: last_n_def last_drop)

lemma last_n_Nil_iff [simp]: "last_n (Suc n) xs = [] \<longleftrightarrow> xs = []"
  by (cases xs) (auto simp: last_n_def)

lemma remdups_adj_snoc:
  "remdups_adj (xs @ [y]) = (if xs \<noteq> [] \<and> last xs = y then remdups_adj xs else remdups_adj xs @ [y])"
  by (induction xs rule: remdups_adj.induct) auto

lemma last_remdups_adj: "last (remdups_adj xs) = last xs"
  by (induction xs rule: remdups_adj.induct) auto

lemma slice_from_last_n: "0 < n \<Longrightarrow> n < int (length xs) \<Longrightarrow> slice_from xs (- n) = last_n (nat n) xs"
  by (simp add: slice_from_neg last_n_def)

definition h_appends :: "string list \<Rightarrow> hist \<times> browser \<Rightarrow> hist \<times> browser" where
  "h_appends items hb = fold h_append items hb"

lemma h_append_data:
  assumes "h_enabled h" "h_size h = int (Suc n)" "h_data h = last_n (Suc n) (remdups_adj xs)"
  shows "h_data (fst (h_append x (h, b))) = last_n (Suc n) (remdups_adj (xs @ [x]))
    \<and> h_enabled (fst (h_append x (h, b))) \<and> h_size (fst (h_append x (h, b))) = int (Suc n)"
proof -
  have l: "at (h_data h) (int (length (h_data h)) - 1) = (if xs = [] then None else Some (last xs))"
    using last_last_n [of "remdups_adj xs" n]
    by (simp only: assms(3) at_last last_remdups_adj last_n_Nil_iff remdups_adj_Nil_iff) simp
  have s: "slice_from ys (- h_size h) = last_n (Suc n) ys" if "int (length ys) > h_size h" for ys :: "string list"
    using slice_from_last_n [of "h_size h" ys] that assms(2) by (simp del: of_nat_Suc)
  show ?thesis
  proof (cases "xs \<noteq> [] \<and> last xs = x")
    case True
    then show ?thesis using assms l by (simp add: h_append_def remdups_adj_snoc)
  next
    case False
    have "last_n (Suc n) (h_data h @ [x]) = last_n (Suc n) (remdups_adj (xs @ [x]))"
      using False assms(3) by (auto simp: remdups_adj_snoc last_n_snoc)
    moreover have "last_n (Suc n) (h_data h @ [x]) = h_data h @ [x]"
      if "\<not> int (length (h_data h @ [x])) > h_size h"
      using that assms(2) by (simp add: last_n_def)
    ultimately show ?thesis
      using False assms l s by (auto simp: h_append_def Let_def)
  qed
qed

lemma h_appends_data:
  assumes "h_enabled h" "h_size h = int (Suc n)" "h_data h = last_n (Suc n) (remdups_adj xs)"
  shows "h_data (fst (h_appends items (h, b))) = last_n (Suc n) (remdups_adj (xs @ items))"
  using assms
proof (induction items arbitrary: xs h b)
  case Nil
  then show ?case by (simp add: h_appends_def)
next
  case (Cons x items)
  obtain h' b' where hb: "h_append x (h, b) = (h', b')" by (cases "h_append x (h, b)")
  with h_append_data [OF Cons.prems, of x b] Cons.IH [of h' "xs @ [x]" b'] show ?case
    by (simp add: h_appends_def)
qed

text \<open>C14: the history is the last \<open>size\<close> commands, without immediate repetitions.\<close>

theorem history_contents:
  assumes "0 < n" "new_history name (int n) b = Inr h" "h_data h = []"
  shows "h_data (fst (h_appends items (h, b'))) = last_n n (remdups_adj items)"
proof -
  from assms(2) have h: "h_enabled h" "h_size h = int n"
    by (auto simp: new_history_def Let_def split: option.splits if_splits)
  obtain m where "n = Suc m" using assms(1) by (cases n) auto
  with h_appends_data [of h m "[]" items b'] h assms(3) show ?thesis
    by (simp add: last_n_def)
qed

definition no_storage :: browser where
  "no_storage = \<lparr>has_ls = True, local_storage = (\<lambda>_. None), cookies = [], gmt_next_year = ''''\<rparr>"

lemma new_history_empty:
  "new_history (JStr ''t'') 2 no_storage
   = Inr \<lparr>h_enabled = True, h_key = ''t_commands'', h_size = 2, h_data = [], h_pos = -1\<rparr>"
  by (simp add: new_history_def history_key_def storage_get_def rls_def no_storage_def)

theorem history_contents_witness:
  "h_data (fst (h_appends [''a'', ''a'', ''b'', ''c''] (\<lparr>h_enabled = True, h_key = ''t_commands'',
     h_size = 2, h_data = [], h_pos = -1\<rparr>, no_storage))) = [''b'', ''c'']"
  using history_contents [of 2 "JStr ''t''" no_storage _ "[''a'', ''a'', ''b'', ''c'']" no_storage]
    new_history_empty
  by (simp add: last_n_def)

section \<open>Invariant and navigation\<close>

text \<open>
  The position is a valid index, or the history is empty. \<open>clear\<close> empties the list and leaves
  the position where it was, so for an empty list the position is not known.
\<close>

definition hist_inv :: "hist \<Rightarrow> bool" where
  "hist_inv h \<longleftrightarrow> -1 \<le> h_pos h \<and> 0 \<le> h_size h \<and>
     (h_data h \<noteq> [] \<longrightarrow> 0 \<le> h_pos h \<and> h_pos h < int (length (h_data h))) \<and>
     (h_size h > 0 \<longrightarrow> int (length (h_data h)) \<le> h_size h) \<and>
     remdups_adj (h_data h) = h_data h"

lemma remdups_adj_tl: "remdups_adj xs = xs \<Longrightarrow> remdups_adj (tl xs) = tl xs"
proof (cases xs rule: remdups_adj.cases)
  case (3 x y ys)
  assume "remdups_adj xs = xs"
  moreover have "length (remdups_adj (y # ys)) < length (x # y # ys)"
    using remdups_adj_length [of "y # ys"] by simp
  ultimately show ?thesis using 3 by (auto split: if_splits)
qed simp_all

lemma remdups_adj_drop: "remdups_adj xs = xs \<Longrightarrow> remdups_adj (drop n xs) = drop n xs"
  by (induction n arbitrary: xs) (simp_all add: drop_Suc remdups_adj_tl)

lemma hist_inv_append:
  assumes "hist_inv h" shows "hist_inv (fst (h_append x (h, b)))"
proof (cases "h_enabled h \<and> at (h_data h) (int (length (h_data h)) - 1) \<noteq> Some x")
  case True
  then have adj: "remdups_adj (h_data h @ [x]) = h_data h @ [x]"
    using assms by (auto simp: hist_inv_def at_last remdups_adj_snoc split: if_splits)
  show ?thesis
  proof (cases "h_size h \<noteq> 0 \<and> int (length (h_data h @ [x])) > h_size h")
    case big: True
    with assms have sz: "0 < h_size h" by (auto simp: hist_inv_def)
    then have e: "slice_from (h_data h @ [x]) (- h_size h) = last_n (nat (h_size h)) (h_data h @ [x])"
      using big by (intro slice_from_last_n) auto
    show ?thesis
      using True big sz remdups_adj_drop [OF adj, of "length (h_data h @ [x]) - nat (h_size h)"]
      unfolding hist_inv_def h_append_def by (auto simp: e last_n_def Let_def simp del: drop_append json_stringify.simps)
  next
    case False
    with True adj assms show ?thesis by (auto simp: hist_inv_def h_append_def)
  qed
qed (use assms in \<open>auto simp: h_append_def\<close>)

lemma hist_inv_moves:
  "hist_inv h \<Longrightarrow> hist_inv (h_reset h)"
  "hist_inv h \<Longrightarrow> hist_inv (snd (h_next h))"
  "hist_inv h \<Longrightarrow> hist_inv (snd (h_previous h))"
  "hist_inv h \<Longrightarrow> hist_inv (fst (h_clear (h, b)))"
  "hist_inv h \<Longrightarrow> hist_inv (h_enable h) \<and> hist_inv (h_disable h)"
  by (auto simp: hist_inv_def h_reset_def h_next_def h_previous_def h_clear_def h_purge_def
      h_enable_def h_disable_def Suc_le_eq)

definition h_walk :: "nat \<Rightarrow> hist \<Rightarrow> hist" where
  "h_walk k h = ((\<lambda>h. snd (h_previous h)) ^^ k) h"

lemma h_previous_pos:
  assumes "0 \<le> h_pos h"
  shows "h_pos (snd (h_previous h)) = max 0 (h_pos h - 1)" "h_data (snd (h_previous h)) = h_data h"
    "fst (h_previous h) = at (h_data h) (max 0 (h_pos h - 1))"
  using assms by (auto simp: h_previous_def max_def intro: arg_cong [where f = "at (h_data h)"])

lemma h_walk_pos:
  "0 \<le> h_pos h \<Longrightarrow> h_pos (h_walk k h) = max 0 (h_pos h - int k) \<and> h_data (h_walk k h) = h_data h"
proof (induction k)
  case (Suc k)
  then show ?case using h_previous_pos [of "h_walk k h"] by (simp add: h_walk_def)
qed (simp add: h_walk_def)

text \<open>The k-th step back gives the k-th last entry and stops at the oldest.\<close>

theorem history_walk:
  assumes "hist_inv h" "h_data h \<noteq> []"
  shows "fst (h_previous (h_walk k (h_reset h)))
         = Some (h_data h ! (length (h_data h) - 1 - (k + 1)))"
proof -
  let ?w = "h_walk k (h_reset h)"
  have r: "0 \<le> h_pos (h_reset h)" "h_pos (h_reset h) = int (length (h_data h)) - 1" "h_data (h_reset h) = h_data h"
    using assms(2) by (auto simp: h_reset_def Suc_le_eq)
  then have w: "h_pos ?w = max 0 (int (length (h_data h)) - 1 - int k)" "h_data ?w = h_data h"
    using h_walk_pos [of "h_reset h" k] by simp_all
  have "fst (h_previous ?w) = at (h_data h) (max 0 (h_pos ?w - 1))"
    using w h_previous_pos(3) [of ?w] by simp
  also have "\<dots> = Some (h_data h ! nat (max 0 (h_pos ?w - 1)))"
    using assms(2) w by (intro at_in) auto
  also have "nat (max 0 (h_pos ?w - 1)) = length (h_data h) - 1 - (k + 1)"
    using w by (auto simp: max_def)
  finally show ?thesis .
qed

lemma hist_inv_example:
  "hist_inv \<lparr>h_enabled = True, h_key = k, h_size = 60, h_data = [''a'', ''b'', ''c''], h_pos = 0\<rparr>"
  by (simp add: hist_inv_def)

theorem history_walk_witness:
  "fst (h_previous (h_walk 0 (h_reset \<lparr>h_enabled = True, h_key = ''k'', h_size = 60,
     h_data = [''a'', ''b'', ''c''], h_pos = 0\<rparr>))) = Some ''b''"
  using history_walk [OF hist_inv_example, of "''k''" 0] by simp

lemma h_next_previous:
  "0 < h_pos h \<Longrightarrow> h_pos h < int (length (h_data h)) \<Longrightarrow>
   h_next (snd (h_previous h)) = (h_current h, h)"
  by (simp add: h_next_def h_previous_def h_current_def)

section \<open>Persistence\<close>

text \<open>The client's law, on any store with the contract: a stored list of strings is read back.\<close>

context kv_store
begin

lemma stored_strings:
  assumes "inv s" "name k" "val (json_stringify (JArr (map JStr xs)) 1)" "\<forall>x\<in>set xs. json_storable x"
  shows "\<exists>t. get k (put k (json_stringify (JArr (map JStr xs)) 1) s) = Some t
    \<and> t \<noteq> [] \<and> parse_strings t = Some xs"
proof -
  let ?t = "json_stringify (JArr (map JStr xs)) 1"
  have "?t = ''['' @ join_with '','' (map json_lit xs) @ '']''"
    by (rule stringify_strings [OF assms(4)])
  then have "?t \<noteq> []" "parse_strings ?t = Some xs"
    using parse_strings_lits [OF assms(4)] by simp_all
  then show ?thesis using get_put [OF assms(1-3)] by blast
qed

end

text \<open>The stored copy agrees with the list in memory.\<close>

definition hist_synced :: "hist \<Rightarrow> browser \<Rightarrow> bool" where
  "hist_synced h b \<longleftrightarrow>
     (case storage_get (h_key h) b of
        None \<Rightarrow> h_data h = []
      | Some t \<Rightarrow> t \<noteq> [] \<and> parse_strings t = Some (h_data h))"

lemma hist_synced_append:
  assumes "has_ls b" "hist_synced h b" "\<forall>x\<in>set (h_data h). json_storable x" "json_storable y"
  shows "hist_synced (fst (h_append y (h, b))) (snd (h_append y (h, b)))
    \<and> has_ls (snd (h_append y (h, b))) \<and> (\<forall>x\<in>set (h_data (fst (h_append y (h, b)))). json_storable x)
    \<and> h_key (fst (h_append y (h, b))) = h_key h \<and> h_size (fst (h_append y (h, b))) = h_size h
    \<and> h_enabled (fst (h_append y (h, b))) = h_enabled h"
proof (cases "h_enabled h \<and> at (h_data h) (int (length (h_data h)) - 1) \<noteq> Some y")
  case True
  define data where "data = (if h_size h \<noteq> 0 \<and> int (length (h_data h @ [y])) > h_size h
      then slice_from (h_data h @ [y]) (- h_size h) else h_data h @ [y])"
  have e: "h_append y (h, b) = (h\<lparr>h_data := data, h_pos := int (length data) - 1\<rparr>,
      storage_put (h_key h) (json_stringify (JArr (map JStr data)) 1) b)"
    using True by (simp add: h_append_def data_def Let_def)
  have st: "\<forall>x\<in>set data. json_storable x"
    using assms(3,4) by (auto simp: data_def slice_from_def dest!: in_set_dropD)
  from lst.stored_strings [OF assms(1) _ _ st, of "h_key h"]
  have "hist_synced (h\<lparr>h_data := data, h_pos := int (length data) - 1\<rparr>)
      (storage_put (h_key h) (json_stringify (JArr (map JStr data)) 1) b)"
    by (auto simp: hist_synced_def)
  with e st assms(1) show ?thesis by (simp add: storage_put_ls)
qed (use assms in \<open>auto simp: h_append_def\<close>)

text \<open>A history survives a reload of the page.\<close>

theorem history_reload:
  assumes "has_ls b" "h_enabled h" "h_key h = history_key name" "hist_synced h b"
    and "\<forall>x\<in>set (h_data h @ items). json_storable x"
  shows "new_history name (h_size h) (snd (h_appends items (h, b)))
         = Inr (h_reset (fst (h_appends items (h, b))))"
  using assms
proof (induction items arbitrary: h b)
  case Nil
  then show ?case
    by (cases h) (auto simp: h_appends_def new_history_def hist_synced_def h_reset_def split: option.splits)
next
  case (Cons y items)
  obtain h' b' where hb: "h_append y (h, b) = (h', b')" by (cases "h_append y (h, b)")
  with hist_synced_append [of b h y] Cons.prems
  have h': "hist_synced h' b'" "has_ls b'" "h_key h' = history_key name" "h_size h' = h_size h" "h_enabled h'"
    "\<forall>x\<in>set (h_data h' @ items). json_storable x"
    by auto
  with hb Cons.IH [OF h'(2,5,3,1,6)] show ?case
    by (simp add: h_appends_def)
qed

theorem history_reload_witness:
  "\<exists>h'. new_history (JStr ''t'') 2 (snd (h_appends [''a'', ''b'', ''c''] (\<lparr>h_enabled = True,
     h_key = ''t_commands'', h_size = 2, h_data = [], h_pos = -1\<rparr>, no_storage))) = Inr h'
     \<and> h_data h' = [''b'', ''c'']"
proof -
  let ?h = "\<lparr>h_enabled = True, h_key = ''t_commands'', h_size = 2, h_data = [], h_pos = -1\<rparr>"
  have "new_history (JStr ''t'') (h_size ?h) (snd (h_appends [''a'', ''b'', ''c''] (?h, no_storage)))
      = Inr (h_reset (fst (h_appends [''a'', ''b'', ''c''] (?h, no_storage))))"
    by (rule history_reload)
       (simp_all add: no_storage_def history_key_def hist_synced_def storage_get_def rls_def
          json_storable_def json_char_def)
  moreover have "h_data (fst (h_appends [''a'', ''b'', ''c''] (?h, no_storage))) = [''b'', ''c'']"
    using h_appends_data [of ?h 1 "[]" "[''a'', ''b'', ''c'']" no_storage] by (simp add: last_n_def)
  ultimately show ?thesis by (simp add: h_reset_def)
qed

end
