(* ===== verification/Cmd_Line.thy ===== *)
theory Cmd_Line
  imports History
begin

text \<open>
  The command line plugin \<open>$.fn.cmd\<close> of \<open>terminal.js\<close>: its closure variables are the record
  \<open>cmd\<close>, its methods are functions on that record. The callbacks in its options that only
  report (\<open>commands\<close>, \<open>onCommandChange\<close>, \<open>onPositionChange\<close>) and the timers of \<open>fake_mobile_entry\<close>
  and of \<open>paste\<close> are
  logged in \<open>calls\<close> in the order in which they are made; what \<open>redraw\<close> puts on the page is a
  function of the state, in the theory \<open>Cmd_View\<close>. The fields of \<open>options\<close> whose names begin with
  \<open>env\<close> are the browser: touch screen, paste event, the text selected on the page, the number of
  characters a prompt shows, and the engine behind \<open>new RegExp\<close> (\<^const>\<open>None\<close> when the pattern is
  malformed).
\<close>

section \<open>State\<close>

datatype mask = MaskBool bool | MaskStr string

text \<open>A prompt function is known by the text it hands to its callback.\<close>

datatype prompt = PromptStr string | PromptFun string

datatype call =
    Commands string
  | CommandChange string
  | PositionChange int
  | MobileTimer
  | PasteTimer

text \<open>
  \<open>delete\<close> returns the removed text, \<open>undefined\<close>, or the command line itself; \<open>kill_text\<close> keeps
  what it returned.
\<close>

datatype removed = Text string | Undefined | Self

record cmd =
  command :: string
  position :: int
  mask :: mask
  prompt :: prompt
  prompt_len :: int
  num_chars :: int
  enabled :: bool
  reverse_search :: bool
  rev_search_str :: string
  reverse_search_position :: "int option"
  backup_prompt :: prompt
  last_command :: "string option"
  selected_text :: string
  kill_text :: removed
  first_up_history :: bool
  prevent_keypress :: bool
  no_keypress :: bool
  cmd_name :: jsval
  history :: hist
  page :: browser
  clip :: string
  calls :: "call list"

text \<open>A key event, with the fields the handlers read.\<close>

record key =
  which :: nat
  key_code :: nat
  ctrl :: bool
  alt :: bool
  shift :: bool
  meta :: bool

datatype filter = NoFilter | FilterFun "string \<Rightarrow> bool" | FilterRe "string \<Rightarrow> bool"

record options =
  opt_keydown :: "(key \<Rightarrow> cmd \<Rightarrow> bool option \<times> cmd) option"
  opt_keypress :: "(key \<Rightarrow> cmd \<Rightarrow> bool option \<times> cmd) option"
  opt_history_filter :: filter
  opt_history_size :: int
  opt_commands :: bool
  opt_on_command_change :: bool
  opt_on_position_change :: bool
  env_touch :: bool
  env_paste_event :: bool
  env_selection :: string
  env_text_length :: "string \<Rightarrow> nat"
  env_regexp :: "string \<Rightarrow> (string \<Rightarrow> bool) option"

section \<open>Helpers of the closure\<close>

definition log_call :: "call \<Rightarrow> cmd \<Rightarrow> cmd" where
  "log_call c s = s\<lparr>calls := calls s @ [c]\<rparr>"

definition fake_mobile_entry :: "options \<Rightarrow> cmd \<Rightarrow> cmd" where
  "fake_mobile_entry opts s = (if env_touch opts then log_call MobileTimer s else s)"

text \<open>The inner timers of \<open>fake_mobile_entry\<close>, when they fire.\<close>

definition mobile_timer :: "cmd \<Rightarrow> cmd" where
  "mobile_timer s = s\<lparr>clip := command s\<rparr>"

definition fire_change_command :: "options \<Rightarrow> cmd \<Rightarrow> cmd" where
  "fire_change_command opts s =
     (if opt_on_command_change opts then log_call (CommandChange (command s)) s else s)"

fun prompt_text :: "prompt \<Rightarrow> string" where
  "prompt_text (PromptStr t) = t"
| "prompt_text (PromptFun t) = t"

definition draw_prompt :: "options \<Rightarrow> cmd \<Rightarrow> cmd" where
  "draw_prompt opts s = s\<lparr>prompt_len := int (env_text_length opts (prompt_text (prompt s)))\<rparr>"

definition draw_reverse_prompt :: "options \<Rightarrow> cmd \<Rightarrow> cmd" where
  "draw_reverse_prompt opts s =
     draw_prompt opts (s\<lparr>prompt := PromptStr (''(reverse-i-search)`'' @ rev_search_str s @ [CHR 0x27] @ '': '')\<rparr>)"

definition clear_reverse_state :: "cmd \<Rightarrow> cmd" where
  "clear_reverse_state s =
     s\<lparr>prompt := backup_prompt s, reverse_search := False, reverse_search_position := None,
       rev_search_str := ''''\<rparr>"

section \<open>Methods\<close>

definition cmd_position :: "options \<Rightarrow> int \<Rightarrow> bool \<Rightarrow> cmd \<Rightarrow> cmd" where
  "cmd_position opts n relative s =
     (let s = (if relative then s\<lparr>position := position s + n\<rparr>
               else if n < 0 then s\<lparr>position := 0\<rparr>
               else if n > int (length (command s)) then s\<lparr>position := int (length (command s))\<rparr>
               else s\<lparr>position := n\<rparr>);
          s = (if opt_on_position_change opts then log_call (PositionChange (position s)) s else s)
      in fake_mobile_entry opts s)"

definition cmd_delete :: "options \<Rightarrow> int \<Rightarrow> bool \<Rightarrow> cmd \<Rightarrow> removed \<times> cmd" where
  "cmd_delete opts n stay s =
     (if n = 0 then (Self, s)
      else if n < 0 then
        (if position s > 0 then
           let removed = slice_from (slice (command s) 0 (position s)) n;
               s = s\<lparr>command := slice (command s) 0 (position s + n) @
                                slice (command s) (position s) (int (length (command s)))\<rparr>;
               s = (if \<not> stay then cmd_position opts (position s + n) False s
                    else fire_change_command opts s)
           in (Text removed, fake_mobile_entry opts s)
         else (Undefined, fake_mobile_entry opts s))
      else
        (if command s \<noteq> '''' \<and> position s < int (length (command s)) then
           let removed = slice (slice_from (command s) (position s)) 0 n;
               s = s\<lparr>command := slice (command s) 0 (position s) @
                                slice (command s) (position s + n) (int (length (command s)))\<rparr>
           in (Text removed, fake_mobile_entry opts (fire_change_command opts s))
         else (Undefined, fake_mobile_entry opts s)))"

text \<open>\<open>set(undefined)\<close> does nothing.\<close>

definition cmd_set :: "options \<Rightarrow> string option \<Rightarrow> bool \<Rightarrow> cmd \<Rightarrow> cmd" where
  "cmd_set opts string stay s =
     (case string of
        None \<Rightarrow> s
      | Some str \<Rightarrow>
          let s = s\<lparr>command := str\<rparr>;
              s = (if \<not> stay then cmd_position opts (int (length str)) False s else s)
          in fire_change_command opts (fake_mobile_entry opts s))"

text \<open>
  The argument of \<open>insert\<close> is concatenated with strings and its \<open>length\<close> is read. For a string
  these are the string and its length; for the command line object (\<open>Self\<close>) they are
  \<open>[object Object]\<close> and 1; \<open>undefined\<close> has no \<open>length\<close>, so the call throws after the
  concatenation.
\<close>

definition cmd_insert_arg :: "options \<Rightarrow> string \<Rightarrow> int \<Rightarrow> bool \<Rightarrow> cmd \<Rightarrow> cmd" where
  "cmd_insert_arg opts txt len stay s =
     (let s = (if position s = int (length (command s)) then s\<lparr>command := command s @ txt\<rparr>
               else if position s = 0 then s\<lparr>command := txt @ command s\<rparr>
               else s\<lparr>command := slice (command s) 0 (position s) @ txt @
                                 slice_from (command s) (position s)\<rparr>);
          s = (if \<not> stay then cmd_position opts len True s else fake_mobile_entry opts s)
      in fire_change_command opts s)"

definition cmd_insert :: "options \<Rightarrow> string \<Rightarrow> bool \<Rightarrow> cmd \<Rightarrow> cmd" where
  "cmd_insert opts str stay s = cmd_insert_arg opts str (int (length str)) stay s"

definition cmd_insert_removed :: "options \<Rightarrow> removed \<Rightarrow> cmd \<Rightarrow> js_error option \<times> cmd" where
  "cmd_insert_removed opts r s =
     (case r of
        Text t \<Rightarrow> (None, cmd_insert opts t False s)
      | Self \<Rightarrow> (None, cmd_insert_arg opts ''[object Object]'' 1 False s)
      | Undefined \<Rightarrow>
          (Some TypeError,
           if position s = int (length (command s)) then s\<lparr>command := command s @ ''undefined''\<rparr>
           else if position s = 0 then s\<lparr>command := ''undefined'' @ command s\<rparr>
           else s\<lparr>command := slice (command s) 0 (position s) @ ''undefined'' @
                             slice_from (command s) (position s)\<rparr>))"

definition cmd_get :: "cmd \<Rightarrow> string" where
  "cmd_get s = command s"

definition cmd_set_name :: "options \<Rightarrow> jsval \<Rightarrow> cmd \<Rightarrow> js_error option \<times> cmd" where
  "cmd_set_name opts nm s =
     (let s = s\<lparr>cmd_name := nm\<rparr>; on = h_enabled (history s)
      in (case new_history nm (opt_history_size opts) (page s) of
            Inl e \<Rightarrow> (Some e, s)
          | Inr h \<Rightarrow> (None, s\<lparr>history := (if on then h else h_disable h)\<rparr>)))"

definition cmd_purge :: "cmd \<Rightarrow> cmd" where
  "cmd_purge s = (let (h, b) = h_clear (history s, page s) in s\<lparr>history := h, page := b\<rparr>)"

definition cmd_set_prompt :: "options \<Rightarrow> prompt \<Rightarrow> cmd \<Rightarrow> cmd" where
  "cmd_set_prompt opts p s = draw_prompt opts (s\<lparr>prompt := p\<rparr>)"

definition cmd_resize :: "int \<Rightarrow> int \<Rightarrow> cmd \<Rightarrow> cmd" where \<comment> \<open>\<open>measured\<close>: \<open>change_num_chars\<close>\<close>
  "cmd_resize measured num s = s\<lparr>num_chars := (if num \<noteq> 0 then num else measured)\<rparr>"

definition cmd_enable :: "cmd \<Rightarrow> cmd" where
  "cmd_enable s = s\<lparr>enabled := True\<rparr>"

definition cmd_disable :: "cmd \<Rightarrow> cmd" where
  "cmd_disable s = s\<lparr>enabled := False\<rparr>"

definition cmd_set_mask :: "mask \<Rightarrow> cmd \<Rightarrow> cmd" where
  "cmd_set_mask m s = s\<lparr>mask := m\<rparr>"

section \<open>Frames of the methods\<close>

text \<open>Every method but \<open>name\<close>, \<open>purge\<close> and the handlers leaves these fields alone.\<close>

lemma log_call_sel [simp]:
  "command (log_call c s) = command s" "position (log_call c s) = position s"
  "kill_text (log_call c s) = kill_text s" "history (log_call c s) = history s"
  "page (log_call c s) = page s" "reverse_search (log_call c s) = reverse_search s"
  "last_command (log_call c s) = last_command s" "enabled (log_call c s) = enabled s"
  "calls (log_call c s) = calls s @ [c]" "mask (log_call c s) = mask s"
  "prompt (log_call c s) = prompt s" "rev_search_str (log_call c s) = rev_search_str s"
  "backup_prompt (log_call c s) = backup_prompt s" "selected_text (log_call c s) = selected_text s"
  "first_up_history (log_call c s) = first_up_history s"
  by (simp_all add: log_call_def)

lemma fake_mobile_sel [simp]:
  "command (fake_mobile_entry opts s) = command s" "position (fake_mobile_entry opts s) = position s"
  "kill_text (fake_mobile_entry opts s) = kill_text s" "history (fake_mobile_entry opts s) = history s"
  "page (fake_mobile_entry opts s) = page s" "reverse_search (fake_mobile_entry opts s) = reverse_search s"
  "last_command (fake_mobile_entry opts s) = last_command s" "enabled (fake_mobile_entry opts s) = enabled s"
  "mask (fake_mobile_entry opts s) = mask s" "prompt (fake_mobile_entry opts s) = prompt s"
  "rev_search_str (fake_mobile_entry opts s) = rev_search_str s"
  "backup_prompt (fake_mobile_entry opts s) = backup_prompt s"
  "selected_text (fake_mobile_entry opts s) = selected_text s"
  "first_up_history (fake_mobile_entry opts s) = first_up_history s"
  by (simp_all add: fake_mobile_entry_def)

lemma fire_change_sel [simp]:
  "command (fire_change_command opts s) = command s" "position (fire_change_command opts s) = position s"
  "kill_text (fire_change_command opts s) = kill_text s" "history (fire_change_command opts s) = history s"
  "page (fire_change_command opts s) = page s" "reverse_search (fire_change_command opts s) = reverse_search s"
  "last_command (fire_change_command opts s) = last_command s" "enabled (fire_change_command opts s) = enabled s"
  "mask (fire_change_command opts s) = mask s" "prompt (fire_change_command opts s) = prompt s"
  "rev_search_str (fire_change_command opts s) = rev_search_str s"
  "backup_prompt (fire_change_command opts s) = backup_prompt s"
  "selected_text (fire_change_command opts s) = selected_text s"
  "first_up_history (fire_change_command opts s) = first_up_history s"
  by (simp_all add: fire_change_command_def)

end
