(* ===== verification/Cmd_Keys.thy ===== *)
theory Cmd_Keys
  imports Cmd_Line
begin

text \<open>
  The event handlers of the command line plugin: \<open>keydown_event\<close>, the \<open>keypress\<close> and \<open>keyup\<close>
  handlers, \<open>paste\<close> with its timer, and the reverse history search. A handler returns what the
  JavaScript handler returns (\<open>Some False\<close>: prevent the default, \<open>Some True\<close>, \<^const>\<open>None\<close>:
  \<open>undefined\<close>) or the error it throws, with the state it leaves behind in either case.
\<close>

type_synonym outcome = "(js_error + bool option) \<times> cmd"

abbreviation undefined_result :: "cmd \<Rightarrow> outcome" where
  "undefined_result s \<equiv> (Inr None, s)"

abbreviation bool_result :: "bool \<Rightarrow> cmd \<Rightarrow> outcome" where
  "bool_result b s \<equiv> (Inr (Some b), s)"

section \<open>Reverse history search\<close>

definition re_search_special :: re where \<comment> \<open>\<open>/([.*+{}\[\]?])/g\<close>\<close>
  "re_search_special = Grp 1 (Cls (\<lambda>c. c \<in> set ''.*+{}[]?''))"

definition escape_search :: "string \<Rightarrow> string" where
  "escape_search s = replace_all re_search_special (\<lambda>m. CHR 0x5C # cap_or_empty 1 m) s"

text \<open>\<open>for (var i=len; i--;)\<close> over the history: the last index below \<open>len\<close> whose entry matches.\<close>

fun search_entries :: "(string \<Rightarrow> bool) \<Rightarrow> string list \<Rightarrow> nat \<Rightarrow> nat option" where
  "search_entries re data 0 = None"
| "search_entries re data (Suc i) =
     (if i < length data \<and> re (data ! i) then Some i else search_entries re data i)"

text \<open>
  The outer loop shortens the search string from \<open>j\<close> characters down to one. A malformed pattern
  throws. \<open>Some (j, i)\<close>: entry \<open>i\<close> matches the first \<open>j\<close> characters.
\<close>

fun search_prefixes :: "options \<Rightarrow> string \<Rightarrow> string list \<Rightarrow> nat \<Rightarrow> nat \<Rightarrow> js_error + (nat \<times> nat) option" where
  "search_prefixes opts str data len 0 = Inr None"
| "search_prefixes opts str data len (Suc j) =
     (case env_regexp opts (escape_search (take (Suc j) str)) of
        None \<Rightarrow> Inl SyntaxError
      | Some re \<Rightarrow>
          (case search_entries re data len of
             Some i \<Rightarrow> Inr (Some (Suc j, i))
           | None \<Rightarrow> search_prefixes opts str data len j))"

definition reverse_history_search :: "options \<Rightarrow> bool \<Rightarrow> cmd \<Rightarrow> js_error option \<times> cmd" where
  "reverse_history_search opts nxt s =
     (let data = h_data (history s);
          len = (case reverse_search_position s of
                   Some p \<Rightarrow> (if nxt \<and> p > 0 then nat (int (length data) - p) else length data)
                 | None \<Rightarrow> length data)
      in (case search_prefixes opts (rev_search_str s) data len (length (rev_search_str s)) of
            Inl e \<Rightarrow> (Some e, s)
          | Inr None \<Rightarrow> (None, s\<lparr>rev_search_str := ''''\<rparr>)
          | Inr (Some (j, i)) \<Rightarrow>
              (let s = s\<lparr>reverse_search_position := Some (int (length data) - int i)\<rparr>;
                   s = cmd_position opts 0 False s;
                   s = cmd_set opts (Some (data ! i)) True s
               in (None,
                   if length (rev_search_str s) \<noteq> j
                   then draw_reverse_prompt opts (s\<lparr>rev_search_str := take j (rev_search_str s)\<rparr>)
                   else s))))"

section \<open>Words\<close>

text \<open>\<open>/ *[^ ]+ *(?= )|[^ ]+$/\<close> of ALT+D and \<open>/([^ ]+ *$)/\<close> of the word rubout.\<close>

definition sp :: re where "sp = Chr CHR '' ''"
definition nsp :: re where "nsp = Cls (\<lambda>c. c \<noteq> CHR '' '')"

definition re_next_word :: re where
  "re_next_word = Alt (Seq (Star sp) (Seq (Plus nsp) (Seq (Star sp) (Ahead sp)))) (Seq (Plus nsp) Eol)"

definition re_last_word :: re where
  "re_last_word = Grp 1 (Seq (Plus nsp) (Seq (Star sp) Eol))"

text \<open>\<open>/\S[\n\s]{2,}|[\n\s]+\S?/\<close> of CTRL+RIGHT; \<open>[\n\s]\<close> is the class of blanks.\<close>

definition re_word_right :: re where
  "re_word_right =
     Alt (Seq (Cls (\<lambda>c. \<not> blank c)) (Seq (Cls blank) (Plus (Cls blank))))
         (Seq (Plus (Cls blank)) (Opt (Cls (\<lambda>c. \<not> blank c))))"

text \<open>The loop of CTRL+LEFT: the value of \<open>pos\<close> after \<open>for (var i = len; i > 0; --i)\<close>.\<close>

fun word_left :: "string \<Rightarrow> nat \<Rightarrow> int" where
  "word_left c 0 = 0"
| "word_left c (Suc i) =
     (if at c (int (Suc i)) = Some CHR '' '' \<and> at c (int (Suc i) + 1) \<noteq> Some CHR '' '' then int (Suc i) + 1
      else if at c (int (Suc i)) = Some CHR 0x0A \<and> at c (int (Suc i) + 1) \<noteq> Some CHR 0x0A then int (Suc i)
      else word_left c i)"

definition ctrl_left :: "options \<Rightarrow> cmd \<Rightarrow> cmd" where
  "ctrl_left opts s =
     (let len = position s - 1;
          len = (if at (command s) len = Some CHR '' '' then len - 1 else len)
      in cmd_position opts (word_left (command s) (nat len)) False s)"

definition ctrl_right :: "options \<Rightarrow> cmd \<Rightarrow> cmd" where
  "ctrl_right opts s =
     (let s = (if at (command s) (position s) = Some CHR '' '' then s\<lparr>position := position s + 1\<rparr> else s);
          rest = slice_from (command s) (position s)
      in (case search re_word_right rest 0 of
            None \<Rightarrow> cmd_position opts (int (length (command s))) False s
          | Some m \<Rightarrow>
              (let t = found_text rest m
               in if list_all blank t \<and> t \<noteq> [] then cmd_position opts (int (length (command s))) False s
                  else if at t 0 \<noteq> Some CHR '' '' then s\<lparr>position := position s + int (fst m) + 1\<rparr>
                  else
                    (let s = s\<lparr>position := position s + int (fst m) + int (length t) - 1\<rparr>
                     in if at t (int (length t) - 1) \<noteq> Some CHR '' '' then s\<lparr>position := position s - 1\<rparr>
                        else s))))"

section \<open>The keydown handler\<close>

text \<open>Every branch that does not return early ends here.\<close>

definition keydown_done :: "cmd \<Rightarrow> outcome" where
  "keydown_done s = bool_result False (s\<lparr>prevent_keypress := True\<rparr>)"

text \<open>
  Whether ENTER appends the command to the history. In the source the conjunction binds
  tighter than the disjunction, so the first three tests guard the first filter only.
\<close>

definition history_wanted :: "options \<Rightarrow> cmd \<Rightarrow> bool" where
  "history_wanted opts s =
     ((command s \<noteq> '''' \<and> (case mask s of MaskBool b \<Rightarrow> \<not> b | MaskStr m \<Rightarrow> m = '''')
         \<and> (case opt_history_filter opts of FilterFun f \<Rightarrow> f (command s) | _ \<Rightarrow> False))
      \<or> (case opt_history_filter opts of FilterRe f \<Rightarrow> f (command s) | _ \<Rightarrow> False)
      \<or> (case opt_history_filter opts of NoFilter \<Rightarrow> True | _ \<Rightarrow> False))"

definition enter :: "options \<Rightarrow> cmd \<Rightarrow> cmd" where
  "enter opts s =
     (let s = (if history_wanted opts s
               then (let (h, b) = h_append (command s) (history s, page s) in s\<lparr>history := h, page := b\<rparr>)
               else s);
          tmp = command s;
          s = s\<lparr>history := h_reset (history s)\<rparr>;
          s = cmd_set opts (Some '''') False s;
          s = (if opt_commands opts then log_call (Commands tmp) s else s)
      in (case prompt s of PromptFun _ \<Rightarrow> draw_prompt opts s | PromptStr _ \<Rightarrow> s))"

definition up_history :: "options \<Rightarrow> cmd \<Rightarrow> cmd" where
  "up_history opts s =
     (if first_up_history s
      then (cmd_set opts (h_current (history s)) False (s\<lparr>last_command := Some (command s)\<rparr>))\<lparr>first_up_history := False\<rparr>
      else (let (r, h) = h_previous (history s)
            in (cmd_set opts r False (s\<lparr>history := h\<rparr>))\<lparr>first_up_history := False\<rparr>))"

definition down_history :: "options \<Rightarrow> cmd \<Rightarrow> cmd" where
  "down_history opts s =
     (if h_end (history s) then cmd_set opts (last_command s) False s
      else (let (r, h) = h_next (history s) in cmd_set opts r False (s\<lparr>history := h\<rparr>)))"

definition ctrl_r :: "options \<Rightarrow> cmd \<Rightarrow> outcome" where
  "ctrl_r opts s =
     (if reverse_search s then
        (case reverse_history_search opts True s of
           (Some e, s) \<Rightarrow> (Inl e, s) | (None, s) \<Rightarrow> keydown_done s)
      else
        (let s = draw_reverse_prompt opts (s\<lparr>backup_prompt := prompt s\<rparr>);
             s = cmd_set opts (Some '''') False (s\<lparr>last_command := Some (command s)\<rparr>)
         in keydown_done (s\<lparr>reverse_search := True\<rparr>)))"

definition ctrl_g :: "options \<Rightarrow> cmd \<Rightarrow> cmd" where
  "ctrl_g opts s =
     (if reverse_search s then
        (let s = draw_prompt opts (s\<lparr>prompt := backup_prompt s\<rparr>);
             s = cmd_set opts (last_command s) False s
         in s\<lparr>reverse_search := False, rev_search_str := ''''\<rparr>)
      else s)"

text \<open>\<open>kill_text = self['delete'](n)\<close>\<close>

definition kill_with :: "options \<Rightarrow> int \<Rightarrow> cmd \<Rightarrow> cmd" where
  "kill_with opts n s = (let (r, s) = cmd_delete opts n False s in s\<lparr>kill_text := r\<rparr>)"

definition yank :: "options \<Rightarrow> cmd \<Rightarrow> outcome" where
  "yank opts s =
     (if kill_text s \<noteq> Text '''' then
        (case cmd_insert_removed opts (kill_text s) s of
           (Some err, s) \<Rightarrow> (Inl err, s) | (None, s) \<Rightarrow> keydown_done s)
      else keydown_done s)"

text \<open>The word rubout: \<open>match\<close> is \<open>null\<close> when the text before the cursor is blank.\<close>

definition kill_word :: "options \<Rightarrow> cmd \<Rightarrow> outcome" where
  "kill_word opts s =
     (if command s \<noteq> '''' \<and> position s \<noteq> 0 then
        (let before = slice (command s) 0 (position s)
         in (case search re_last_word before 0 of
               None \<Rightarrow> (Inl TypeError, s)
             | Some m \<Rightarrow> bool_result False (kill_with opts (- int (length (found_text before m))) s)))
      else bool_result False s)"

text \<open>\<open>if (!is_paste_supported) paste();\<close>\<close>

definition paste_unsupported :: "options \<Rightarrow> cmd \<Rightarrow> cmd" where
  "paste_unsupported opts s = (if env_paste_event opts then s else log_call PasteTimer s)"

text \<open>The branch for a key with CTRL or META that no earlier branch took.\<close>

definition ctrl_keys :: "options \<Rightarrow> key \<Rightarrow> cmd \<Rightarrow> outcome" where
  "ctrl_keys opts e s =
     (if which e = 192 then undefined_result s
      else if meta e \<and> which e = 82 then undefined_result s
      else if meta e \<and> which e = 76 then undefined_result s
      else if shift e then (if which e = 84 then undefined_result s else keydown_done s)
      else if which e = 81 then kill_word opts s
      else if which e = 72 then
        bool_result False
          (if command s \<noteq> '''' \<and> position s > 0 then snd (cmd_delete opts (-1) False s) else s)
      else if which e = 65 then keydown_done (cmd_position opts 0 False s)
      else if which e = 69 then keydown_done (cmd_position opts (int (length (command s))) False s)
      else if which e = 88 \<or> which e = 67 \<or> which e = 84 then undefined_result s
      else if which e = 89 then yank opts s
      else if which e = 86 then
        undefined_result (paste_unsupported opts (s\<lparr>clip := ''''\<rparr>))
      else if which e = 75 then
        keydown_done (kill_with opts (int (length (command s)) - position s) s)
      else if which e = 85 then
        keydown_done
          (if command s \<noteq> '''' \<and> position s \<noteq> 0 then kill_with opts (- position s) s else s)
      else if which e = 17 then bool_result False s
      else keydown_done s)"

definition finishing_keys :: "nat list" where
  "finishing_keys = [35, 36, 37, 38, 39, 40, 13, 27]"

definition keydown_main :: "options \<Rightarrow> key \<Rightarrow> cmd \<Rightarrow> outcome" where
  "keydown_main opts e s =
     (if alt e then
        (if which e = 68 then
           bool_result False
             (cmd_set opts (Some (slice (command s) 0 (position s) @
                replace_first re_next_word (\<lambda>_. '''') (slice_from (command s) (position s)))) True s)
         else bool_result True s)
      else if key_code e = 13 then
        keydown_done (if shift e then cmd_insert opts [CHR 0x0A] False s else enter opts s)
      else if which e = 8 then
        (let s = (if reverse_search s
                  then draw_reverse_prompt opts (s\<lparr>rev_search_str := slice (rev_search_str s) 0 (-1)\<rparr>)
                  else if command s \<noteq> '''' \<and> position s > 0 then snd (cmd_delete opts (-1) False s)
                  else s)
         in if env_touch opts then bool_result True s else keydown_done s)
      else if which e = 67 \<and> ctrl e \<and> shift e then
        keydown_done (s\<lparr>selected_text := env_selection opts\<rparr>)
      else if which e = 86 \<and> ctrl e \<and> shift e then
        keydown_done (if selected_text s \<noteq> '''' then cmd_insert opts (selected_text s) False s else s)
      else if which e = 9 \<and> \<not> (ctrl e \<or> alt e) then
        keydown_done (cmd_insert opts [CHR 0x09] False s)
      else if which e = 46 then undefined_result (snd (cmd_delete opts 1 False s))
      else if (which e = 38 \<and> \<not> ctrl e) \<or> (which e = 80 \<and> ctrl e) then
        keydown_done (up_history opts s)
      else if (which e = 40 \<and> \<not> ctrl e) \<or> (which e = 78 \<and> ctrl e) then
        keydown_done (down_history opts s)
      else if which e = 37 \<or> (which e = 66 \<and> ctrl e) then
        keydown_done
          (if ctrl e \<and> which e \<noteq> 66 then ctrl_left opts s
           else if position s > 0 then cmd_position opts (-1) True s else s)
      else if which e = 82 \<and> ctrl e then ctrl_r opts s
      else if which e = 71 \<and> ctrl e then keydown_done (ctrl_g opts s)
      else if which e = 39 \<or> (which e = 70 \<and> ctrl e) then
        keydown_done
          (if ctrl e \<and> which e \<noteq> 70 then ctrl_right opts s
           else if position s < int (length (command s)) then cmd_position opts 1 True s else s)
      else if which e = 123 then undefined_result s
      else if which e = 36 then keydown_done (cmd_position opts 0 False s)
      else if which e = 35 then keydown_done (cmd_position opts (int (length (command s))) False s)
      else if shift e \<and> which e = 45 then undefined_result (paste_unsupported opts (s\<lparr>clip := ''''\<rparr>))
      else if ctrl e \<or> meta e then ctrl_keys opts e s
      else undefined_result (s\<lparr>prevent_keypress := False, no_keypress := True\<rparr>))"

text \<open>
  The head of the handler: nothing when disabled; the callback \<open>options.keydown\<close> may answer for
  the handler. The callback has no access to the variables of the reverse search.
\<close>

definition keydown_guard :: "options \<Rightarrow> key \<Rightarrow> cmd \<Rightarrow> (cmd \<Rightarrow> outcome) \<Rightarrow> outcome" where
  "keydown_guard opts e s rest =
     (if enabled s then
        (let (result, s) =
           (case opt_keydown opts of
              None \<Rightarrow> (None, s)
            | Some f \<Rightarrow> (let (r, t) = f e s in (r, t\<lparr>reverse_search := reverse_search s\<rparr>)))
         in (case result of
               Some b \<Rightarrow> bool_result b s
             | None \<Rightarrow>
                 rest (if which e \<noteq> 38 \<and> \<not> (which e = 80 \<and> ctrl e)
                       then s\<lparr>first_up_history := True\<rparr> else s)))
      else undefined_result s)"

definition keydown_event :: "options \<Rightarrow> key \<Rightarrow> cmd \<Rightarrow> outcome" where
  "keydown_event opts e s =
     keydown_guard opts e s (\<lambda>s.
       if reverse_search s \<and> which e \<in> set finishing_keys then
         (let s = draw_prompt opts (clear_reverse_state s);
              s = (if which e = 27 then cmd_set opts (Some '''') False s else s);
              (r, s) = keydown_guard opts e s (keydown_main opts e)
          in (case r of Inl err \<Rightarrow> (Inl err, s) | Inr _ \<Rightarrow> keydown_done s))
       else keydown_main opts e s)"

section \<open>The other handlers\<close>

text \<open>\<open>paste\<close> waits for the browser to fill the hidden textarea, which holds \<open>val\<close> by then.\<close>

definition paste_timer :: "options \<Rightarrow> string \<Rightarrow> cmd \<Rightarrow> cmd" where
  "paste_timer opts val s =
     (if enabled s
      then fake_mobile_entry opts ((cmd_insert opts val False (s\<lparr>clip := val\<rparr>))\<lparr>clip := ''''\<rparr>) else s)"

definition keypress_event :: "options \<Rightarrow> key \<Rightarrow> cmd \<Rightarrow> outcome" where
  "keypress_event opts e s =
     (let s = s\<lparr>no_keypress := False\<rparr>
      in if ctrl e \<and> which e = 99 then undefined_result s
         else if prevent_keypress s then undefined_result s
         else
           (let (result, s) =
              (case (if reverse_search s then None else opt_keypress opts) of
                 None \<Rightarrow> (None, s)
               | Some f \<Rightarrow> (let (r, t) = f e s in (r, t\<lparr>reverse_search := reverse_search s\<rparr>)))
            in if result = Some False then bool_result False s
               else if enabled s then
                 (if which e \<in> set [38, 13, 0, 8] \<and> \<not> (which e = 38 \<and> shift e) then
                    (if key_code e = 123 then undefined_result s else bool_result False s)
                  else if (\<not> ctrl e \<and> \<not> (alt e \<and> which e = 100)) \<or> alt e then
                    (if reverse_search s then
                       (case reverse_history_search opts False
                               (s\<lparr>rev_search_str := rev_search_str s @ [char_of (which e)]\<rparr>) of
                          (Some err, s) \<Rightarrow> (Inl err, s)
                        | (None, s) \<Rightarrow> bool_result False (draw_reverse_prompt opts s))
                     else bool_result False (cmd_insert opts [char_of (which e)] False s))
                  else undefined_result s)
               else undefined_result s))"

definition keyup_event :: "options \<Rightarrow> key \<Rightarrow> cmd \<Rightarrow> cmd" where
  "keyup_event opts e s =
     (if no_keypress s \<and> (clip s \<noteq> '''' \<or> which e = 8) then cmd_set opts (Some (clip s)) False s else s)"

section \<open>Creation\<close>

text \<open>
  The body of the plugin up to the binding of the handlers. \<open>options.prompt\<close> is a string or a
  function, \<open>options.name || options.prompt || ''\<close> names the history. The measured width is not
  known before the first \<open>resize\<close>, so \<open>num_chars\<close> and \<open>prompt_len\<close> start at 0.
\<close>

definition new_cmd :: "options \<Rightarrow> mask \<Rightarrow> jsval \<Rightarrow> prompt \<Rightarrow> bool \<Rightarrow> browser \<Rightarrow> js_error option \<times> cmd" where
  "new_cmd opts m nm p on b =
     (let s = \<lparr>command = '''', position = 0, mask = (if m = MaskStr '''' then MaskBool False else m), prompt = p, prompt_len = 0, num_chars = 0,
               enabled = False, reverse_search = False, rev_search_str = '''',
               reverse_search_position = None, backup_prompt = p, last_command = None,
               selected_text = '''', kill_text = Text '''', first_up_history = True,
               prevent_keypress = False, no_keypress = False, cmd_name = nm,
               history = \<lparr>h_enabled = True, h_key = '''', h_size = opt_history_size opts,
                          h_data = [], h_pos = -1\<rparr>,
               page = b, clip = '''', calls = []\<rparr>;
          (e, s) = cmd_set_name opts nm s;
          s = draw_prompt opts (case p of PromptStr t \<Rightarrow> s | PromptFun _ \<Rightarrow> s\<lparr>prompt := PromptStr ''> ''\<rparr>)
      in (e, if on then cmd_enable s else s))"

end
