(* ===== verification/Cmd_Edit.thy ===== *)
theory Cmd_Edit
  imports Cmd_Keys
begin

text \<open>
  What the editing methods and the key handlers of the command line do to the text and the cursor.
  The methods are given as \<^const>\<open>take\<close> and \<^const>\<open>drop\<close> at the cursor; from these follow the
  effect of the killing and yanking keys, and the invariant that the cursor stays within the text
  through any sequence of events.
\<close>

section \<open>The methods at the cursor\<close>

definition cursor_ok :: "cmd \<Rightarrow> bool" where
  "cursor_ok s \<longleftrightarrow> 0 \<le> position s \<and> position s \<le> int (length (command s))"

lemma cmd_position_sel [simp]:
  "command (cmd_position opts n r s) = command s" "kill_text (cmd_position opts n r s) = kill_text s"
  "history (cmd_position opts n r s) = history s" "page (cmd_position opts n r s) = page s"
  "last_command (cmd_position opts n r s) = last_command s"
  "first_up_history (cmd_position opts n r s) = first_up_history s"
  "mask (cmd_position opts n r s) = mask s" "prompt (cmd_position opts n r s) = prompt s"
  "enabled (cmd_position opts n r s) = enabled s" "rev_search_str (cmd_position opts n r s) = rev_search_str s"
  "reverse_search (cmd_position opts n r s) = reverse_search s"
  "backup_prompt (cmd_position opts n r s) = backup_prompt s"
  by (simp_all add: cmd_position_def Let_def)

lemma position_cmd_position [simp]:
  "position (cmd_position opts n False s) = int (clamp (length (command s)) n)"
  "position (cmd_position opts n True s) = position s + n"
  by (simp_all add: cmd_position_def Let_def clamp_def)

lemma cmd_set_sel [simp]:
  "kill_text (cmd_set opts x st s) = kill_text s" "history (cmd_set opts x st s) = history s"
  "page (cmd_set opts x st s) = page s" "last_command (cmd_set opts x st s) = last_command s"
  "prompt (cmd_set opts x st s) = prompt s" "mask (cmd_set opts x st s) = mask s"
  "enabled (cmd_set opts x st s) = enabled s" "rev_search_str (cmd_set opts x st s) = rev_search_str s"
  "first_up_history (cmd_set opts x st s) = first_up_history s"
  "reverse_search (cmd_set opts x st s) = reverse_search s"
  "backup_prompt (cmd_set opts x st s) = backup_prompt s"
  by (simp_all add: cmd_set_def Let_def split: option.splits)

lemma cmd_set_text [simp]:
  "command (cmd_set opts (Some t) st s) = t" "cmd_set opts None st s = s"
  "position (cmd_set opts (Some t) False s) = int (length t)"
  "position (cmd_set opts (Some t) True s) = position s"
  by (simp_all add: cmd_set_def Let_def clamp_def)

lemma cmd_insert_arg_sel [simp]:
  "kill_text (cmd_insert_arg opts t n st s) = kill_text s" "history (cmd_insert_arg opts t n st s) = history s"
  "page (cmd_insert_arg opts t n st s) = page s" "last_command (cmd_insert_arg opts t n st s) = last_command s"
  "prompt (cmd_insert_arg opts t n st s) = prompt s" "mask (cmd_insert_arg opts t n st s) = mask s"
  "enabled (cmd_insert_arg opts t n st s) = enabled s" "reverse_search (cmd_insert_arg opts t n st s) = reverse_search s"
  "first_up_history (cmd_insert_arg opts t n st s) = first_up_history s"
  by (simp_all add: cmd_insert_arg_def Let_def)

lemma cmd_insert_arg_text:
  assumes "cursor_ok s"
  shows "command (cmd_insert_arg opts t n st s)
      = take (nat (position s)) (command s) @ t @ drop (nat (position s)) (command s)"
    "position (cmd_insert_arg opts t n st s) = (if st then position s else position s + n)"
  using assms by (auto simp: cmd_insert_arg_def Let_def cursor_ok_def js_index)

lemma cmd_insert_sel [simp]:
  "kill_text (cmd_insert opts t st s) = kill_text s" "history (cmd_insert opts t st s) = history s"
  "page (cmd_insert opts t st s) = page s" "last_command (cmd_insert opts t st s) = last_command s"
  "prompt (cmd_insert opts t st s) = prompt s" "enabled (cmd_insert opts t st s) = enabled s"
  by (simp_all add: cmd_insert_def)

lemma cmd_insert_text:
  assumes "cursor_ok s"
  shows "command (cmd_insert opts t st s)
      = take (nat (position s)) (command s) @ t @ drop (nat (position s)) (command s)"
    "position (cmd_insert opts t st s) = (if st then position s else position s + int (length t))"
    "cursor_ok (cmd_insert opts t st s)"
  using assms cmd_insert_arg_text [OF assms]
  by (auto simp: cmd_insert_def cursor_ok_def)

lemma cmd_delete_sel [simp]:
  "kill_text (snd (cmd_delete opts n st s)) = kill_text s" "history (snd (cmd_delete opts n st s)) = history s"
  "page (snd (cmd_delete opts n st s)) = page s" "last_command (snd (cmd_delete opts n st s)) = last_command s"
  "prompt (snd (cmd_delete opts n st s)) = prompt s" "enabled (snd (cmd_delete opts n st s)) = enabled s"
  by (simp_all add: cmd_delete_def Let_def)

text \<open>Backwards: \<open>k\<close> characters before the cursor, where there are that many.\<close>

lemma cmd_delete_back:
  assumes "cursor_ok s" "0 < k" "k \<le> position s"
  shows "fst (cmd_delete opts (- k) False s)
      = Text (take (nat k) (drop (nat (position s - k)) (command s)))"
    "command (snd (cmd_delete opts (- k) False s))
      = take (nat (position s - k)) (command s) @ drop (nat (position s)) (command s)"
    "position (snd (cmd_delete opts (- k) False s)) = position s - k"
    "cursor_ok (snd (cmd_delete opts (- k) False s))"
proof -
  define p where "p = nat (position s)"
  define j where "j = nat k"
  have pk: "position s = int p" "k = int j" "p \<le> length (command s)" "0 < j" "j \<le> p"
    using assms by (auto simp: p_def j_def cursor_ok_def)
  have "slice_from (slice (command s) 0 (position s)) (- k) = take j (drop (p - j) (command s))"
    using pk slice_from_neg [of k "take p (command s)"] by (simp add: slice_prefix min_def drop_take)
  then show "fst (cmd_delete opts (- k) False s) = Text (take (nat k) (drop (nat (position s - k)) (command s)))"
    using pk by (simp add: cmd_delete_def Let_def nat_diff_distrib')
  show c: "command (snd (cmd_delete opts (- k) False s))
      = take (nat (position s - k)) (command s) @ drop (nat (position s)) (command s)"
    using pk by (simp add: cmd_delete_def Let_def js_index nat_diff_distrib')
  show q: "position (snd (cmd_delete opts (- k) False s)) = position s - k"
    using pk by (simp add: cmd_delete_def Let_def js_index nat_diff_distrib' clamp_in)
  show "cursor_ok (snd (cmd_delete opts (- k) False s))"
    unfolding cursor_ok_def c q using pk by auto
qed

text \<open>Forwards: \<open>k\<close> characters from the cursor on, or what there is.\<close>

lemma cmd_delete_fwd:
  assumes "cursor_ok s" "0 < k" "position s < int (length (command s))"
  shows "fst (cmd_delete opts k st s) = Text (take (nat k) (drop (nat (position s)) (command s)))"
    "command (snd (cmd_delete opts k st s))
      = take (nat (position s)) (command s) @ drop (nat (position s + k)) (command s)"
    "position (snd (cmd_delete opts k st s)) = position s"
    "cursor_ok (snd (cmd_delete opts k st s))"
proof -
  define p where "p = nat (position s)"
  define j where "j = nat k"
  have pk: "position s = int p" "k = int j" "p < length (command s)" "0 < j" "command s \<noteq> []"
    using assms by (auto simp: p_def j_def cursor_ok_def)
  have l: "slice (command s) (position s + k) (int (length (command s))) = drop (p + j) (command s)"
  proof (cases "p + j \<le> length (command s)")
    case True
    then show ?thesis using pk by (simp add: slice_in nat_add_distrib)
  next
    case False
    then show ?thesis using pk by (simp add: slice_def rel_index_def)
  qed
  show "fst (cmd_delete opts k st s) = Text (take (nat k) (drop (nat (position s)) (command s)))"
    using pk by (simp add: cmd_delete_def Let_def js_index)
  show c: "command (snd (cmd_delete opts k st s))
      = take (nat (position s)) (command s) @ drop (nat (position s + k)) (command s)"
    using pk l by (simp add: cmd_delete_def Let_def js_index nat_add_distrib)
  show q: "position (snd (cmd_delete opts k st s)) = position s"
    using pk by (simp add: cmd_delete_def Let_def)
  show "cursor_ok (snd (cmd_delete opts k st s))"
    unfolding cursor_ok_def c q using pk by auto
qed

lemma cmd_delete_none:
  "k < 0 \<Longrightarrow> position s \<le> 0 \<Longrightarrow> cmd_delete opts k st s = (Undefined, fake_mobile_entry opts s)"
  "0 < k \<Longrightarrow> command s = [] \<or> int (length (command s)) \<le> position s \<Longrightarrow>
   cmd_delete opts k st s = (Undefined, fake_mobile_entry opts s)"
  "cmd_delete opts 0 st s = (Self, s)"
  by (auto simp: cmd_delete_def)

section \<open>Non-empty matches\<close>

lemma ms_Seq_Cls_progress:
  assumes a: "y \<in> set (ms (Seq (Cls P) r) s x)"
  shows "fst x < fst y"
proof (cases "fst x < length s \<and> P (s ! fst x)")
  case True
  then have y: "y \<in> set (ms r s (Suc (fst x), snd x))" using a by simp
  have "fst (Suc (fst x), snd x) \<le> length s" using True by simp
  from ms_bounds [OF y this] show ?thesis by simp
next
  case False
  then have "ms (Cls P) s x = []" by (simp only: ms.simps(2) if_False)
  then have "set (ms (Seq (Cls P) r) s x) = {}" by (simp only: ms.simps(3) list.map concat.simps list.set)
  with a show ?thesis by (simp only: empty_iff)
qed

lemma ms_Plus_progress: "y \<in> set (ms (Plus (Cls P)) s x) \<Longrightarrow> fst x < fst y"
  unfolding Plus_def by (rule ms_Seq_Cls_progress)

lemma ms_Seq_progress:
  assumes "y \<in> set (ms (Seq a b) s x)" "\<And>z. z \<in> set (ms a s x) \<Longrightarrow> fst x < fst z" "fst x \<le> length s"
  shows "fst x < fst y"
proof -
  from assms(1) obtain z where z: "z \<in> set (ms a s x)" "y \<in> set (ms b s z)" by auto
  have "fst z \<le> length s" using ms_bounds [OF z(1) assms(3)] by simp
  with ms_bounds [OF z(2)] assms(2) [OF z(1)] show ?thesis by simp
qed

lemma search_progress:
  assumes "search r s i = Some m"
    and "\<And>k y. k \<le> length s \<Longrightarrow> y \<in> set (ms r s (k, [])) \<Longrightarrow> k < fst y"
  shows "found_text s m \<noteq> []" "fst m + length (found_text s m) \<le> length s"
proof -
  from assms(1) obtain k y ys where m: "ms r s (k, []) = y # ys" "m = (k, fst y, snd y)" "k \<le> length s"
    by (rule search_SomeE)
  then have "k < fst y" "fst y \<le> length s"
    using assms(2) [of k y] ms_bounds [of y r s "(k, [])"] by simp_all
  with m show "found_text s m \<noteq> []" "fst m + length (found_text s m) \<le> length s"
    by (auto simp: found_text_def)
qed

lemma word_right_progress: "k \<le> length s \<Longrightarrow> y \<in> set (ms re_word_right s (k, c)) \<Longrightarrow> k < fst y"
proof -
  assume "k \<le> length s" "y \<in> set (ms re_word_right s (k, c))"
  then consider "y \<in> set (ms (Seq (Cls (\<lambda>c. \<not> blank c)) (Seq (Cls blank) (Plus (Cls blank)))) s (k, c))"
    | "y \<in> set (ms (Seq (Plus (Cls blank)) (Opt (Cls (\<lambda>c. \<not> blank c)))) s (k, c))"
    by (auto simp only: re_word_right_def ms.simps(4) set_append)
  then show ?thesis
  proof cases
    case 1
    from ms_Seq_Cls_progress [OF this] show ?thesis by simp
  next
    case 2
    from ms_Seq_progress [OF this ms_Plus_progress] \<open>k \<le> length s\<close> show ?thesis by simp
  qed
qed

lemma last_word_progress: "k \<le> length s \<Longrightarrow> y \<in> set (ms re_last_word s (k, c)) \<Longrightarrow> k < fst y"
proof -
  assume k: "k \<le> length s" "y \<in> set (ms re_last_word s (k, c))"
  then obtain z where z: "z \<in> set (ms (Seq (Plus nsp) (Seq (Star sp) Eol)) s (k, c))" "fst y = fst z"
    by (auto simp only: re_last_word_def ms.simps(6) set_map image_iff fst_conv)
  have "fst (k, c) < fst z"
    by (rule ms_Seq_progress [OF z(1)]) (use ms_Plus_progress k in \<open>auto simp: nsp_def\<close>)
  with z show ?thesis by simp
qed

lemma word_right_found:
  "search re_word_right s i = Some m \<Longrightarrow> found_text s m \<noteq> [] \<and> fst m + length (found_text s m) \<le> length s"
  using search_progress [of re_word_right s i m] word_right_progress by blast

lemma last_word_found:
  "search re_last_word s i = Some m \<Longrightarrow> found_text s m \<noteq> [] \<and> fst m + length (found_text s m) \<le> length s"
  using search_progress [of re_last_word s i m] last_word_progress by blast

section \<open>The cursor stays within the text\<close>

definition cmd_ok :: "cmd \<Rightarrow> bool" where
  "cmd_ok s \<longleftrightarrow> cursor_ok s \<and> kill_text s \<noteq> Undefined"

lemma cursor_ok_cong: "command s = command t \<Longrightarrow> position s = position t \<Longrightarrow> cursor_ok s = cursor_ok t"
  by (simp add: cursor_ok_def)

lemma cmd_ok_updates [simp]:
  "cmd_ok (s\<lparr>reverse_search := a\<rparr>) = cmd_ok s" "cmd_ok (s\<lparr>rev_search_str := b\<rparr>) = cmd_ok s"
  "cmd_ok (s\<lparr>reverse_search_position := c\<rparr>) = cmd_ok s" "cmd_ok (s\<lparr>backup_prompt := d\<rparr>) = cmd_ok s"
  "cmd_ok (s\<lparr>last_command := e\<rparr>) = cmd_ok s" "cmd_ok (s\<lparr>selected_text := f\<rparr>) = cmd_ok s"
  "cmd_ok (s\<lparr>first_up_history := g\<rparr>) = cmd_ok s" "cmd_ok (s\<lparr>prevent_keypress := h\<rparr>) = cmd_ok s"
  "cmd_ok (s\<lparr>no_keypress := i\<rparr>) = cmd_ok s" "cmd_ok (s\<lparr>history := j\<rparr>) = cmd_ok s"
  "cmd_ok (s\<lparr>page := k\<rparr>) = cmd_ok s" "cmd_ok (s\<lparr>clip := l\<rparr>) = cmd_ok s"
  "cmd_ok (s\<lparr>prompt := m\<rparr>) = cmd_ok s" "cmd_ok (s\<lparr>prompt_len := n\<rparr>) = cmd_ok s"
  "cmd_ok (s\<lparr>num_chars := q\<rparr>) = cmd_ok s" "cmd_ok (s\<lparr>enabled := r\<rparr>) = cmd_ok s"
  "cmd_ok (s\<lparr>mask := t\<rparr>) = cmd_ok s"
  by (simp_all add: cmd_ok_def cursor_ok_def)

lemma cmd_ok_log [simp]:
  "cmd_ok (log_call c s) = cmd_ok s" "cmd_ok (fake_mobile_entry opts s) = cmd_ok s"
  "cmd_ok (fire_change_command opts s) = cmd_ok s" "cmd_ok (paste_unsupported opts s) = cmd_ok s"
  "cmd_ok (draw_prompt opts s) = cmd_ok s" "cmd_ok (draw_reverse_prompt opts s) = cmd_ok s"
  "cmd_ok (clear_reverse_state s) = cmd_ok s"
  by (simp_all add: cmd_ok_def cursor_ok_def paste_unsupported_def draw_prompt_def draw_reverse_prompt_def
      clear_reverse_state_def)

lemma cmd_ok_position [simp]: "cmd_ok (cmd_position opts n False s) \<longleftrightarrow> kill_text s \<noteq> Undefined"
  by (simp add: cmd_ok_def cursor_ok_def)

lemma cmd_ok_kill: "cmd_ok s \<Longrightarrow> kill_text s \<noteq> Undefined"
  by (simp add: cmd_ok_def)

lemma cmd_ok_step:
  "cmd_ok s \<Longrightarrow> 0 \<le> position s + n \<Longrightarrow> position s + n \<le> int (length (command s)) \<Longrightarrow>
   cmd_ok (cmd_position opts n True s)"
  by (simp add: cmd_ok_def cursor_ok_def)

lemma cmd_ok_set: "cmd_ok s \<Longrightarrow> cmd_ok (cmd_set opts t False s)"
  by (cases t) (auto simp: cmd_ok_def cursor_ok_def)

lemma cmd_ok_insert: "cmd_ok s \<Longrightarrow> cmd_ok (cmd_insert opts t st s)"
  using cmd_insert_text(3) [of s] by (simp add: cmd_ok_def)

lemma cmd_ok_insert_removed:
  assumes "cmd_ok s"
  shows "fst (cmd_insert_removed opts (kill_text s) s) = None
    \<and> cmd_ok (snd (cmd_insert_removed opts (kill_text s) s))"
proof (cases "kill_text s")
  case Self
  have "cursor_ok s" using assms by (simp add: cmd_ok_def)
  from cmd_insert_arg_text [OF this] Self \<open>cursor_ok s\<close> show ?thesis
    by (auto simp: cmd_insert_removed_def cmd_ok_def cursor_ok_def min_def)
qed (use assms in \<open>auto simp: cmd_insert_removed_def cmd_ok_insert cmd_ok_kill\<close>)

lemma cmd_ok_back:
  "cmd_ok s \<Longrightarrow> 0 < k \<Longrightarrow> k \<le> position s \<Longrightarrow> cmd_ok (snd (cmd_delete opts (- k) False s))
    \<and> fst (cmd_delete opts (- k) False s) \<noteq> Undefined"
  using cmd_delete_back [of s k opts] by (simp add: cmd_ok_def)

lemma cmd_ok_fwd:
  "cmd_ok s \<Longrightarrow> 0 < k \<Longrightarrow> cmd_ok (snd (cmd_delete opts k st s))"
  using cmd_delete_fwd(4) [of s k opts st] cmd_delete_none(2) [of k s opts st]
  by (cases "position s < int (length (command s))") (auto simp: cmd_ok_def cursor_ok_def)

lemma cmd_ok_kill_update: "cmd_ok s \<Longrightarrow> r \<noteq> Undefined \<Longrightarrow> cmd_ok (s\<lparr>kill_text := r\<rparr>)"
  by (simp add: cmd_ok_def cursor_ok_def)

lemma cmd_ok_reverse_search: "cmd_ok s \<Longrightarrow> cmd_ok (snd (reverse_history_search opts nxt s))"
  by (auto simp: reverse_history_search_def Let_def cmd_ok_def cursor_ok_def draw_reverse_prompt_def
      draw_prompt_def split: option.splits sum.splits prod.splits)

lemma cmd_ok_ctrl_left: "cmd_ok s \<Longrightarrow> cmd_ok (ctrl_left opts s)"
  by (simp add: ctrl_left_def Let_def cmd_ok_kill)

lemma cmd_ok_ctrl_right:
  assumes "cmd_ok s" shows "cmd_ok (ctrl_right opts s)"
proof -
  define t where "t = (if at (command s) (position s) = Some CHR '' '' then s\<lparr>position := position s + 1\<rparr> else s)"
  define rest where "rest = slice_from (command t) (position t)"
  have t: "cmd_ok t" using assms
    by (auto simp: t_def cmd_ok_def cursor_ok_def dest!: at_SomeD)
  have rest: "int (length rest) = int (length (command t)) - position t"
    using t by (auto simp: rest_def cmd_ok_def cursor_ok_def slice_from_in)
  have eq: "ctrl_right opts s =
      (case search re_word_right rest 0 of
         None \<Rightarrow> cmd_position opts (int (length (command t))) False t
       | Some m \<Rightarrow>
           (let x = found_text rest m
            in if list_all blank x \<and> x \<noteq> [] then cmd_position opts (int (length (command t))) False t
               else if at x 0 \<noteq> Some CHR '' '' then t\<lparr>position := position t + int (fst m) + 1\<rparr>
               else (let s = t\<lparr>position := position t + int (fst m) + int (length x) - 1\<rparr>
                     in if at x (int (length x) - 1) \<noteq> Some CHR '' '' then s\<lparr>position := position s - 1\<rparr> else s)))"
    unfolding ctrl_right_def t_def [symmetric] rest_def [symmetric] Let_def ..
  show ?thesis
  proof (cases "search re_word_right rest 0")
    case None
    with t show ?thesis by (simp add: eq cmd_ok_kill)
  next
    case (Some m)
    note x = word_right_found [OF Some]
    define x where "x = found_text rest m"
    have x1: "x \<noteq> []" "fst m + length x \<le> length rest" using x by (simp_all add: x_def)
    show ?thesis
    proof (cases "list_all blank x \<or> at x 0 \<noteq> Some CHR '' ''")
      case True
      have "1 \<le> int (length x)" "int (fst m) + int (length x) \<le> int (length rest)"
        using x1 by (simp_all add: Suc_le_eq)
      with True t x1 rest show ?thesis
        by (auto simp: eq Some Let_def x_def [symmetric] cmd_ok_kill) (auto simp: cmd_ok_def cursor_ok_def)
    next
      case False
      with x1 have "1 < length x"
        by (cases x; cases "tl x") (auto simp: at_def blank_def)
      moreover from x1 have "int (fst m) + int (length x) \<le> int (length rest)" by simp
      ultimately show ?thesis using False t rest
        by (auto simp: eq Some Let_def x_def [symmetric]) (auto simp: cmd_ok_def cursor_ok_def)
    qed
  qed
qed

lemma cmd_ok_enter: "cmd_ok s \<Longrightarrow> cmd_ok (enter opts s)"
  by (auto simp: enter_def Let_def split: prod.splits prompt.splits intro!: cmd_ok_set)

lemma cmd_ok_arrows: "cmd_ok s \<Longrightarrow> cmd_ok (up_history opts s) \<and> cmd_ok (down_history opts s)"
  by (auto simp: up_history_def down_history_def split: prod.splits intro!: cmd_ok_set)

lemma cmd_ok_ctrl_g: "cmd_ok s \<Longrightarrow> cmd_ok (ctrl_g opts s)"
  by (auto simp: ctrl_g_def Let_def intro!: cmd_ok_set)

lemma cmd_ok_done [simp]: "cmd_ok (snd (keydown_done s)) = cmd_ok s"
  by (simp add: keydown_done_def)

lemma cmd_ok_ctrl_r: "cmd_ok s \<Longrightarrow> cmd_ok (snd (ctrl_r opts s))"
  using cmd_ok_reverse_search [of s opts True]
  by (auto simp: ctrl_r_def Let_def split: prod.splits option.splits intro!: cmd_ok_set)

lemma cmd_ok_kill_back:
  "cmd_ok s \<Longrightarrow> 0 < k \<Longrightarrow> k \<le> position s \<Longrightarrow> cmd_ok (kill_with opts (- k) s)"
  using cmd_ok_back [of s k opts] by (auto simp: kill_with_def split: prod.splits intro!: cmd_ok_kill_update)

lemma cmd_ok_kill_word:
  assumes "cmd_ok s" shows "cmd_ok (snd (kill_word opts s))"
proof (cases "command s \<noteq> [] \<and> position s \<noteq> 0")
  case True
  define before where "before = slice (command s) 0 (position s)"
  have b: "int (length before) = position s"
    using assms by (auto simp: before_def cmd_ok_def cursor_ok_def slice_prefix)
  show ?thesis
  proof (cases "search re_last_word before 0")
    case None
    with True assms show ?thesis by (simp add: kill_word_def Let_def before_def [symmetric])
  next
    case (Some m)
    note x = last_word_found [OF Some]
    then have "0 < int (length (found_text before m))" "int (length (found_text before m)) \<le> position s"
      using b by auto
    from cmd_ok_kill_back [OF assms this, of opts] True Some show ?thesis
      by (simp add: kill_word_def Let_def before_def [symmetric])
  qed
qed (use assms in \<open>auto simp: kill_word_def\<close>)


text \<open>What the callbacks of the options must respect.\<close>

definition opts_ok :: "options \<Rightarrow> bool" where
  "opts_ok opts \<longleftrightarrow>
     (\<forall>f e s. opt_keydown opts = Some f \<longrightarrow> cmd_ok s \<longrightarrow> cmd_ok (snd (f e s))) \<and>
     (\<forall>f e s. opt_keypress opts = Some f \<longrightarrow> cmd_ok s \<longrightarrow> cmd_ok (snd (f e s)))"

lemma cmd_ok_back1:
  "cmd_ok s \<Longrightarrow> command s \<noteq> [] \<Longrightarrow> 0 < position s \<Longrightarrow> cmd_ok (snd (cmd_delete opts (-1) False s))"
  using cmd_ok_back [of s 1 opts] by simp

lemma cmd_ok_yank: "cmd_ok s \<Longrightarrow> cmd_ok (snd (yank opts s))"
  using cmd_ok_insert_removed [of s opts] by (auto simp: yank_def split: prod.splits)

lemma cmd_ok_kill_line:
  assumes "cmd_ok s"
  shows "cmd_ok (kill_with opts (int (length (command s)) - position s) s)"
proof (cases "position s = int (length (command s))")
  case True
  with assms show ?thesis by (auto simp: kill_with_def cmd_delete_none intro!: cmd_ok_kill_update)
next
  case False
  with assms have p: "position s < int (length (command s))" "cursor_ok s" by (auto simp: cmd_ok_def cursor_ok_def)
  let ?k = "int (length (command s)) - position s"
  from p have k: "0 < ?k" by simp
  obtain r t where e: "cmd_delete opts ?k False s = (r, t)" by (cases "cmd_delete opts ?k False s")
  with cmd_ok_fwd [OF assms k, of opts False] cmd_delete_fwd(1) [OF p(2) k p(1), of opts False]
  have "cmd_ok t" "r \<noteq> Undefined" by simp_all
  then show ?thesis by (simp add: kill_with_def e cmd_ok_kill_update)
qed

lemma cmd_ok_kill_start: "cmd_ok s \<Longrightarrow> position s \<noteq> 0 \<Longrightarrow> cmd_ok (kill_with opts (- position s) s)"
  by (rule cmd_ok_kill_back) (auto simp: cmd_ok_def cursor_ok_def)

lemma cmd_ok_position_any: "cmd_ok s \<Longrightarrow> cmd_ok (cmd_position opts n False s)"
  by (simp add: cmd_ok_kill)

lemmas cmd_ok_branches = cmd_ok_kill_word cmd_ok_back1 cmd_ok_yank cmd_ok_kill_line cmd_ok_kill_start
  cmd_ok_position_any cmd_ok_insert cmd_ok_set cmd_ok_arrows [THEN conjunct1] cmd_ok_arrows [THEN conjunct2]
  cmd_ok_ctrl_g cmd_ok_ctrl_r cmd_ok_ctrl_left cmd_ok_ctrl_right cmd_ok_enter

lemma cmd_ok_if:
  "(c \<Longrightarrow> cmd_ok (snd a)) \<Longrightarrow> (\<not> c \<Longrightarrow> cmd_ok (snd b)) \<Longrightarrow> cmd_ok (snd (if c then a else b))"
  by simp

lemma cmd_ok_ctrl_keys: "cmd_ok s \<Longrightarrow> cmd_ok (snd (ctrl_keys opts e s))"
  unfolding ctrl_keys_def by (intro cmd_ok_if) (simp_all add: cmd_ok_branches cmd_ok_kill)

lemma cmd_ok_set_stay: "cmd_ok s \<Longrightarrow> position s \<le> int (length t) \<Longrightarrow> cmd_ok (cmd_set opts (Some t) True s)"
  by (simp add: cmd_ok_def cursor_ok_def)

lemma cmd_ok_keydown_main:
  assumes "cmd_ok s" shows "cmd_ok (snd (keydown_main opts e s))"
proof -
  have p: "0 \<le> position s" "position s \<le> int (length (command s))"
    using assms by (auto simp: cmd_ok_def cursor_ok_def)
  have "cmd_ok (cmd_set opts (Some (slice (command s) 0 (position s) @ t)) True s)" for t
    by (rule cmd_ok_set_stay [OF assms]) (use p in \<open>simp add: slice_prefix\<close>)
  moreover have "position s > 0 \<Longrightarrow> cmd_ok (cmd_position opts (-1) True s)"
    "position s < int (length (command s)) \<Longrightarrow> cmd_ok (cmd_position opts 1 True s)"
    using p by (auto intro: cmd_ok_step [OF assms])
  moreover have "cmd_ok (snd (cmd_delete opts 1 False s))"
    by (rule cmd_ok_fwd [OF assms]) simp
  ultimately show ?thesis
    unfolding keydown_main_def Let_def
    using assms by (intro cmd_ok_if) (simp_all add: cmd_ok_branches cmd_ok_ctrl_keys cmd_ok_kill)
qed

lemma cmd_ok_keydown_guard:
  assumes o: "opts_ok opts" and s: "cmd_ok s" and r: "\<And>t. cmd_ok t \<Longrightarrow> cmd_ok (snd (rest t))"
  shows "cmd_ok (snd (keydown_guard opts e s rest))"
proof -
  define cb where "cb = (case opt_keydown opts of None \<Rightarrow> (None, s)
    | Some f \<Rightarrow> (let (r, t) = f e s in (r, t\<lparr>reverse_search := reverse_search s\<rparr>)))"
  have "cmd_ok (snd cb)"
    using o s by (auto simp: cb_def opts_ok_def split: option.splits prod.splits) (metis snd_conv)
  then obtain x u where cb: "cb = (x, u)" "cmd_ok u" by (cases cb) simp
  have eq: "keydown_guard opts e s rest = (if enabled s then (case x of Some b \<Rightarrow> bool_result b u
      | None \<Rightarrow> rest (if which e \<noteq> 38 \<and> \<not> (which e = 80 \<and> ctrl e) then u\<lparr>first_up_history := True\<rparr> else u))
     else undefined_result s)"
    unfolding keydown_guard_def cb_def [symmetric] cb(1) by simp
  show ?thesis unfolding eq using s cb(2) r [of u] r [of "u\<lparr>first_up_history := True\<rparr>"] by (cases x) simp_all
qed

lemma cmd_ok_keydown_event:
  assumes "opts_ok opts" "cmd_ok s" shows "cmd_ok (snd (keydown_event opts e s))"
  unfolding keydown_event_def
proof (rule cmd_ok_keydown_guard [OF assms])
  fix t assume t: "cmd_ok t"
  define u where "u = (if which e = 27 then cmd_set opts (Some '''') False (draw_prompt opts (clear_reverse_state t))
                       else draw_prompt opts (clear_reverse_state t))"
  have u: "cmd_ok u" using t by (simp add: u_def cmd_ok_set)
  have "cmd_ok (snd (keydown_guard opts e u (keydown_main opts e)))"
    by (rule cmd_ok_keydown_guard [OF assms(1) u]) (rule cmd_ok_keydown_main)
  then obtain r v where v: "keydown_guard opts e u (keydown_main opts e) = (r, v)" "cmd_ok v"
    by (cases "keydown_guard opts e u (keydown_main opts e)") simp
  show "cmd_ok (snd (if reverse_search t \<and> which e \<in> set finishing_keys then
         (let s = draw_prompt opts (clear_reverse_state t);
              s = (if which e = 27 then cmd_set opts (Some '''') False s else s);
              (r, s) = keydown_guard opts e s (keydown_main opts e)
          in (case r of Inl err \<Rightarrow> (Inl err, s) | Inr _ \<Rightarrow> keydown_done s))
       else keydown_main opts e t))"
    unfolding Let_def u_def [symmetric] v(1) prod.case
    using v(2) cmd_ok_keydown_main [OF t, of opts e] by (cases r) simp_all
qed

lemma cmd_ok_keypress_event:
  assumes "opts_ok opts" "cmd_ok s" shows "cmd_ok (snd (keypress_event opts e s))"
proof -
  define t where "t = s\<lparr>no_keypress := False\<rparr>"
  have t: "cmd_ok t" using assms by (simp add: t_def)
  define cb where "cb = (case (if reverse_search t then None else opt_keypress opts) of
                 None \<Rightarrow> (None, t)
               | Some f \<Rightarrow> (case f e t of (r, u) \<Rightarrow> (r, u\<lparr>reverse_search := reverse_search t\<rparr>)))"
  have "cmd_ok (snd cb)"
    using t assms(1) by (auto simp: cb_def opts_ok_def split: option.splits prod.splits) (metis snd_conv)
  then obtain x u where cb: "cb = (x, u)" "cmd_ok u" by (cases cb) simp
  define w where "w = reverse_history_search opts False (u\<lparr>rev_search_str := rev_search_str u @ [char_of (which e)]\<rparr>)"
  have "cmd_ok (snd w)" unfolding w_def by (rule cmd_ok_reverse_search) (simp add: cb)
  then obtain y v where w: "w = (y, v)" "cmd_ok v" by (cases w) simp
  show ?thesis
    unfolding keypress_event_def Let_def t_def [symmetric] cb_def [symmetric] cb(1) prod.case w_def [symmetric] w(1)
    using t cb(2) w(2) by (intro cmd_ok_if) (simp_all add: cmd_ok_insert split: option.split)
qed

lemma cmd_ok_keyup_event: "cmd_ok s \<Longrightarrow> cmd_ok (keyup_event opts e s)"
  by (simp add: keyup_event_def cmd_ok_set)

lemma cmd_ok_paste_timer: "cmd_ok s \<Longrightarrow> cmd_ok (paste_timer opts v s)"
  by (simp add: paste_timer_def cmd_ok_insert)

end
