(* ===== verification/Cmd_Run.thy ===== *)
theory Cmd_Run
  imports Cmd_Edit
begin

text \<open>
  Runs of the command line: the step relation of all events and calls a page can make, its
  invariant, and what whole sequences of keys do to the text.
\<close>

section \<open>The step relation\<close>

text \<open>
  The handlers, the timers and the methods. \<open>set\<close> and \<open>delete\<close> with their flag \<open>stay\<close> leave the cursor where
  it was and so can put it past the end of the text; the handlers call them that way only where it cannot, and the
  relation has the calls without the flag.
\<close>

inductive cmd_step :: "options \<Rightarrow> cmd \<Rightarrow> cmd \<Rightarrow> bool" for opts where
  step_keydown: "cmd_step opts s (snd (keydown_event opts e s))"
| step_keypress: "cmd_step opts s (snd (keypress_event opts e s))"
| step_keyup: "cmd_step opts s (keyup_event opts e s)"
| step_paste: "cmd_step opts s (paste_timer opts v s)"
| step_mobile: "cmd_step opts s (mobile_timer s)"
| step_set: "cmd_step opts s (cmd_set opts t False s)"
| step_insert: "cmd_step opts s (cmd_insert opts t st s)"
| step_delete: "cmd_step opts s (snd (cmd_delete opts n False s))"
| step_position: "cmd_step opts s (cmd_position opts n False s)"
| step_name: "cmd_step opts s (snd (cmd_set_name opts nm s))"
| step_purge: "cmd_step opts s (cmd_purge s)"
| step_prompt: "cmd_step opts s (cmd_set_prompt opts p s)"
| step_resize: "cmd_step opts s (cmd_resize w n s)"
| step_enable: "cmd_step opts s (cmd_enable s)"
| step_disable: "cmd_step opts s (cmd_disable s)"
| step_mask: "cmd_step opts s (cmd_set_mask m s)"

inductive cmd_reachable :: "options \<Rightarrow> cmd \<Rightarrow> bool" for opts where
  reach_new: "cmd_reachable opts (snd (new_cmd opts m nm p on b))"
| reach_step: "cmd_reachable opts s \<Longrightarrow> cmd_step opts s t \<Longrightarrow> cmd_reachable opts t"

lemma cmd_ok_set_name: "cmd_ok s \<Longrightarrow> cmd_ok (snd (cmd_set_name opts nm s))"
  by (auto simp: cmd_set_name_def Let_def cmd_ok_def cursor_ok_def split: sum.splits)

lemma cmd_ok_delete: "cmd_ok s \<Longrightarrow> cmd_ok (snd (cmd_delete opts n False s))"
proof -
  assume s: "cmd_ok s"
  show ?thesis
  proof (cases "0 < n")
    case True
    then show ?thesis by (rule cmd_ok_fwd [OF s])
  next
    case False
    with s show ?thesis by (simp add: cmd_delete_def Let_def cmd_ok_kill)
  qed
qed

lemma cmd_ok_simple:
  "cmd_ok s \<Longrightarrow> cmd_ok (mobile_timer s)" "cmd_ok s \<Longrightarrow> cmd_ok (cmd_purge s)"
  "cmd_ok s \<Longrightarrow> cmd_ok (cmd_set_prompt opts p s)" "cmd_ok s \<Longrightarrow> cmd_ok (cmd_resize w n s)"
  "cmd_ok s \<Longrightarrow> cmd_ok (cmd_enable s)" "cmd_ok s \<Longrightarrow> cmd_ok (cmd_disable s)"
  "cmd_ok s \<Longrightarrow> cmd_ok (cmd_set_mask m s)"
  by (simp_all add: mobile_timer_def cmd_purge_def cmd_set_prompt_def cmd_resize_def cmd_enable_def
      cmd_disable_def cmd_set_mask_def split: prod.splits)

lemma cmd_ok_step_rel:
  assumes "cmd_step opts s t" "opts_ok opts" "cmd_ok s" shows "cmd_ok t"
  using assms
  by (induction rule: cmd_step.induct)
     (simp_all add: cmd_ok_keydown_event cmd_ok_keypress_event cmd_ok_keyup_event
        cmd_ok_paste_timer cmd_ok_simple cmd_ok_set cmd_ok_insert cmd_ok_delete cmd_ok_kill cmd_ok_set_name)

lemma cmd_ok_new: "cmd_ok (snd (new_cmd opts m nm p on b))"
  by (auto simp: new_cmd_def Let_def cmd_set_name_def cmd_enable_def draw_prompt_def cmd_ok_def cursor_ok_def
      split: sum.splits prompt.splits)

lemma cmd_reachable_ok: "cmd_reachable opts s \<Longrightarrow> opts_ok opts \<Longrightarrow> cmd_ok s"
  by (induction rule: cmd_reachable.induct) (auto intro: cmd_ok_new cmd_ok_step_rel)


definition plain_options :: options where
  "plain_options = \<lparr>opt_keydown = None, opt_keypress = None, opt_history_filter = NoFilter, opt_history_size = 60,
     opt_commands = True, opt_on_command_change = False, opt_on_position_change = False, env_touch = False,
     env_paste_event = True, env_selection = '''', env_text_length = length,
     env_regexp = (\<lambda>p. Some (\<lambda>s. sublist p s))\<rparr>"

lemma plain_options_ok: "opts_ok plain_options"
  by (simp add: opts_ok_def plain_options_def)

definition some_cmd :: cmd where
  "some_cmd = snd (new_cmd plain_options (MaskBool False) (JStr ''t'') (PromptStr ''> '') True no_storage)"


section \<open>Keys\<close>

text \<open>A command line that listens to its keys itself.\<close>

definition listening :: "options \<Rightarrow> cmd \<Rightarrow> bool" where
  "listening opts s \<longleftrightarrow> enabled s \<and> \<not> reverse_search s \<and> opt_keydown opts = None \<and> opt_keypress opts = None"

definition plain_key :: "nat \<Rightarrow> key" where
  "plain_key n = \<lparr>which = n, key_code = n, ctrl = False, alt = False, shift = False, meta = False\<rparr>"

definition ctrl_key :: "nat \<Rightarrow> key" where
  "ctrl_key n = (plain_key n)\<lparr>ctrl := True\<rparr>"

definition press_key :: "options \<Rightarrow> key \<Rightarrow> cmd \<Rightarrow> cmd" where
  "press_key opts e s = snd (keydown_event opts e s)"

definition mark_up :: "key \<Rightarrow> cmd \<Rightarrow> cmd" where
  "mark_up e s = (if which e \<noteq> 38 \<and> \<not> (which e = 80 \<and> ctrl e) then s\<lparr>first_up_history := True\<rparr> else s)"

lemma mark_up_sel [simp]:
  "command (mark_up e s) = command s" "position (mark_up e s) = position s" "kill_text (mark_up e s) = kill_text s"
  "history (mark_up e s) = history s" "page (mark_up e s) = page s" "last_command (mark_up e s) = last_command s"
  "enabled (mark_up e s) = enabled s" "reverse_search (mark_up e s) = reverse_search s"
  "calls (mark_up e s) = calls s" "prompt (mark_up e s) = prompt s" "mask (mark_up e s) = mask s"
  by (simp_all add: mark_up_def)

lemma keydown_listening:
  "listening opts s \<Longrightarrow> keydown_event opts e s = keydown_main opts e (mark_up e s)"
  by (simp add: keydown_event_def keydown_guard_def listening_def mark_up_def)

lemma keydown_done_sel [simp]:
  "command (snd (keydown_done s)) = command s" "position (snd (keydown_done s)) = position s"
  "kill_text (snd (keydown_done s)) = kill_text s" "history (snd (keydown_done s)) = history s"
  "page (snd (keydown_done s)) = page s" "last_command (snd (keydown_done s)) = last_command s"
  "enabled (snd (keydown_done s)) = enabled s" "reverse_search (snd (keydown_done s)) = reverse_search s"
  "calls (snd (keydown_done s)) = calls s" "prompt (snd (keydown_done s)) = prompt s"
  "first_up_history (snd (keydown_done s)) = first_up_history s"
  "fst (keydown_done s) = Inr (Some False)"
  by (simp_all add: keydown_done_def)

lemma listening_cong:
  "enabled s = enabled t \<Longrightarrow> reverse_search s = reverse_search t \<Longrightarrow> listening opts s = listening opts t"
  by (simp add: listening_def)

lemma listening_done [simp]: "listening opts (snd (keydown_done s)) = listening opts s"
  "listening opts (mark_up e s) = listening opts s"
  by (simp_all add: listening_def)


section \<open>Kill and yank\<close>

lemma ctrl_key_sel [simp]:
  "which (ctrl_key n) = n" "key_code (ctrl_key n) = n" "ctrl (ctrl_key n)" "\<not> alt (ctrl_key n)"
  "\<not> shift (ctrl_key n)" "\<not> meta (ctrl_key n)"
  "which (plain_key n) = n" "key_code (plain_key n) = n" "\<not> ctrl (plain_key n)" "\<not> alt (plain_key n)"
  "\<not> shift (plain_key n)" "\<not> meta (plain_key n)"
  by (simp_all add: ctrl_key_def plain_key_def)

lemma press_ctrl_y:
  assumes "listening opts s" "cursor_ok s" "kill_text s = Text t" "t \<noteq> []"
  shows "command (press_key opts (ctrl_key 89) s)
      = take (nat (position s)) (command s) @ t @ drop (nat (position s)) (command s)"
    "position (press_key opts (ctrl_key 89) s) = position s + int (length t)"
proof -
  have "cursor_ok (mark_up (ctrl_key 89) s)" using assms(2) by (simp add: cursor_ok_def)
  from cmd_insert_text [OF this, of opts t False] assms
  show "command (press_key opts (ctrl_key 89) s)
      = take (nat (position s)) (command s) @ t @ drop (nat (position s)) (command s)"
    "position (press_key opts (ctrl_key 89) s) = position s + int (length t)"
    by (simp_all add: press_key_def keydown_listening keydown_main_def ctrl_keys_def yank_def cmd_insert_removed_def)
qed

lemma kill_with_sel [simp]:
  "command (kill_with opts n s) = command (snd (cmd_delete opts n False s))"
  "position (kill_with opts n s) = position (snd (cmd_delete opts n False s))"
  "kill_text (kill_with opts n s) = fst (cmd_delete opts n False s)"
  "enabled (kill_with opts n s) = enabled s" "reverse_search (kill_with opts n s) = reverse_search s"
  by (auto simp: kill_with_def cmd_delete_def cmd_position_def Let_def split: prod.splits)

lemma press_ctrl_u:
  assumes "listening opts s" "command s \<noteq> []" "position s \<noteq> 0"
  shows "press_key opts (ctrl_key 85) s = snd (keydown_done (kill_with opts (- position s) (mark_up (ctrl_key 85) s)))"
  using assms by (simp add: press_key_def keydown_listening keydown_main_def ctrl_keys_def)

lemma press_ctrl_k:
  assumes "listening opts s"
  shows "press_key opts (ctrl_key 75) s
    = snd (keydown_done (kill_with opts (int (length (command s)) - position s) (mark_up (ctrl_key 75) s)))"
  using assms by (simp add: press_key_def keydown_listening keydown_main_def ctrl_keys_def)

text \<open>CTRL+U takes the text before the cursor away and CTRL+Y brings it back.\<close>

theorem kill_start_yank:
  assumes "listening opts s" "cursor_ok s" "0 < position s"
  shows "let t = press_key opts (ctrl_key 85) s; u = press_key opts (ctrl_key 89) t in
    command t = drop (nat (position s)) (command s) \<and> position t = 0 \<and>
    command u = command s \<and> position u = position s"
proof -
  let ?m = "mark_up (ctrl_key 85) s" and ?t = "press_key opts (ctrl_key 85) s"
  let ?k = "take (nat (position s)) (command s)"
  have m: "cursor_ok ?m" "0 < position ?m" "position s \<le> int (length (command s))"
    using assms by (simp_all add: cursor_ok_def)
  have c: "command s \<noteq> []" using assms m by auto
  have t: "?t = snd (keydown_done (kill_with opts (- position ?m) ?m))"
    using press_ctrl_u [OF assms(1) c] assms(3) by simp
  have e: "command ?t = drop (nat (position s)) (command s)" "position ?t = 0" "kill_text ?t = Text ?k"
    unfolding t using cmd_delete_back [OF m(1,2) order.refl, of opts] by simp_all
  have l: "listening opts ?t" "cursor_ok ?t"
    unfolding t using assms(1) e by (simp_all add: listening_def cursor_ok_def t)
  from press_ctrl_y [OF l e(3)] e m assms c show ?thesis
    by (auto simp: Let_def min_def)
qed

theorem kill_start_yank_witness:
  "let s = cmd_position plain_options 3 False (cmd_insert plain_options ''cat /etc'' False some_cmd);
       t = press_key plain_options (ctrl_key 85) s; u = press_key plain_options (ctrl_key 89) t in
    command t = '' /etc'' \<and> position t = 0 \<and> command u = ''cat /etc'' \<and> position u = 3"
proof -
  let ?s = "cmd_position plain_options 3 False (cmd_insert plain_options ''cat /etc'' False some_cmd)"
  have s: "command ?s = ''cat /etc''" "position ?s = 3" "listening plain_options ?s"
    by (code_simp)+
  from kill_start_yank [OF s(3)] s show ?thesis by (simp add: cursor_ok_def Let_def)
qed

text \<open>CTRL+K takes the text after the cursor away and CTRL+Y brings it back.\<close>

theorem kill_line_yank:
  assumes "listening opts s" "cursor_ok s" "position s < int (length (command s))"
  shows "let t = press_key opts (ctrl_key 75) s; u = press_key opts (ctrl_key 89) t in
    command t = take (nat (position s)) (command s) \<and> position t = position s \<and>
    command u = command s \<and> position u = int (length (command s))"
proof -
  let ?m = "mark_up (ctrl_key 75) s" and ?t = "press_key opts (ctrl_key 75) s"
  let ?n = "int (length (command ?m)) - position ?m"
  have m: "cursor_ok ?m" "0 < ?n" "position ?m < int (length (command ?m))" "0 \<le> position s"
    using assms by (simp_all add: cursor_ok_def)
  have t: "?t = snd (keydown_done (kill_with opts ?n ?m))"
    using press_ctrl_k [OF assms(1)] by simp
  have e: "command ?t = take (nat (position s)) (command s)" "position ?t = position s"
    "kill_text ?t = Text (drop (nat (position s)) (command s))"
    unfolding t using cmd_delete_fwd [OF m(1,2,3), of opts False] m(4) by simp_all
  have l: "listening opts ?t" "cursor_ok ?t"
    unfolding t using assms(1) e m(4) assms(3) by (simp_all add: listening_def cursor_ok_def t)
  from press_ctrl_y [OF l e(3)] e m assms show ?thesis
    by (simp add: Let_def nat_less_iff)
qed

theorem kill_line_yank_witness:
  "let s = cmd_position plain_options 3 False (cmd_insert plain_options ''cat /etc'' False some_cmd);
       t = press_key plain_options (ctrl_key 75) s; u = press_key plain_options (ctrl_key 89) t in
    command t = ''cat'' \<and> position t = 3 \<and> command u = ''cat /etc'' \<and> position u = 8"
proof -
  let ?s = "cmd_position plain_options 3 False (cmd_insert plain_options ''cat /etc'' False some_cmd)"
  have s: "command ?s = ''cat /etc''" "position ?s = 3" "listening plain_options ?s"
    by (code_simp)+
  from kill_line_yank [OF s(3)] s show ?thesis by (simp add: cursor_ok_def Let_def)
qed


section \<open>Typing\<close>

text \<open>
  A character key: its \<open>keydown\<close> has the code \<open>k\<close> of the key, its \<open>keypress\<close> the code of the
  character. The codes of the keys that the \<open>keydown\<close> handler itself answers are excluded.
\<close>

definition special_codes :: "nat list" where
  "special_codes = [8, 9, 13, 35, 36, 37, 38, 39, 40, 46, 123]"

definition type_char :: "options \<Rightarrow> nat \<Rightarrow> char \<Rightarrow> cmd \<Rightarrow> cmd" where
  "type_char opts k c s = snd (keypress_event opts (plain_key (of_char c)) (press_key opts (plain_key k) s))"

text \<open>The key codes of the characters that can be typed without SHIFT.\<close>

definition typable :: "nat \<times> char \<Rightarrow> bool" where
  "typable = (\<lambda>(k, c). k \<notin> set special_codes \<and> (of_char c :: nat) \<notin> {38, 13, 0, 8})"

lemma press_plain:
  assumes "listening opts s" "k \<notin> set special_codes"
  shows "press_key opts (plain_key k) s
    = s\<lparr>first_up_history := True, prevent_keypress := False, no_keypress := True\<rparr>"
  using assms by (simp add: press_key_def keydown_listening keydown_main_def special_codes_def mark_up_def)

lemma type_char_insert:
  assumes "listening opts s" "typable (k, c)"
  shows "type_char opts k c s = cmd_insert opts [c] False
    (s\<lparr>first_up_history := True, prevent_keypress := False, no_keypress := False\<rparr>)"
proof -
  have "k \<notin> set special_codes" using assms(2) by (simp add: typable_def)
  note p = press_plain [OF assms(1) this]
  show ?thesis using assms
    by (simp add: type_char_def p keypress_event_def Let_def listening_def typable_def)
qed

definition type_keys :: "options \<Rightarrow> (nat \<times> char) list \<Rightarrow> cmd \<Rightarrow> cmd" where
  "type_keys opts kcs s = fold (\<lambda>(k, c). type_char opts k c) kcs s"

lemma cmd_insert_sel2 [simp]:
  "reverse_search (cmd_insert opts t st s) = reverse_search s" "mask (cmd_insert opts t st s) = mask s"
  by (simp_all add: cmd_insert_def)

text \<open>Typed characters appear at the cursor, in the order typed.\<close>

theorem typing_inserts:
  assumes "listening opts s" "cursor_ok s" "list_all typable kcs"
  shows "command (type_keys opts kcs s)
      = take (nat (position s)) (command s) @ map snd kcs @ drop (nat (position s)) (command s)
    \<and> position (type_keys opts kcs s) = position s + int (length kcs)"
  using assms
proof (induction kcs arbitrary: s)
  case Nil
  then show ?case by (simp add: type_keys_def)
next
  case (Cons kc kcs)
  obtain k c where kc: "kc = (k, c)" by (cases kc)
  let ?s = "s\<lparr>first_up_history := True, prevent_keypress := False, no_keypress := False\<rparr>"
  let ?t = "type_char opts k c s"
  have t: "?t = cmd_insert opts [c] False ?s"
    using type_char_insert [OF Cons.prems(1)] Cons.prems(3) kc by simp
  have s: "cursor_ok ?s" using Cons.prems(2) by (simp add: cursor_ok_def)
  note i = cmd_insert_text [OF s, of opts "[c]" False]
  have l: "listening opts ?t" using Cons.prems(1) by (simp add: t listening_def)
  have p: "nat (position s + 1) = Suc (nat (position s))" "nat (position s) \<le> length (command s)"
    using Cons.prems(2) by (auto simp: cursor_ok_def)
  from Cons.IH [OF l] i Cons.prems(3) show ?case
    by (simp add: type_keys_def kc t p)
qed

theorem typing_inserts_witness:
  "command (type_keys plain_options [(65, CHR ''a''), (66, CHR ''b'')]
     (cmd_position plain_options 1 False (cmd_insert plain_options ''xy'' False some_cmd))) = ''xaby''"
proof -
  let ?s = "cmd_position plain_options 1 False (cmd_insert plain_options ''xy'' False some_cmd)"
  have s: "command ?s = ''xy''" "position ?s = 1" "listening plain_options ?s"
    by (code_simp)+
  from typing_inserts [OF s(3), of "[(65, CHR ''a''), (66, CHR ''b'')]"] s show ?thesis
    by (simp add: cursor_ok_def typable_def special_codes_def)
qed

text \<open>
  The character with code 38, an ampersand, is dropped when it is typed without SHIFT, as it is on
  keyboards that have it in the unshifted row.
\<close>

theorem ampersand_dropped:
  assumes "listening opts s" "k \<notin> set special_codes"
  shows "command (type_char opts k CHR 0x26 s) = command s
    \<and> fst (keypress_event opts (plain_key 38) (press_key opts (plain_key k) s)) = Inr (Some False)"
  using assms press_plain [OF assms]
  by (simp add: type_char_def keypress_event_def Let_def listening_def)

theorem ampersand_dropped_witness:
  "command (type_char plain_options 49 CHR 0x26 some_cmd) = ''''"
proof -
  have s: "command some_cmd = ''''" "listening plain_options some_cmd" by (code_simp)+
  from ampersand_dropped [OF s(2), of 49] s show ?thesis by (simp add: special_codes_def)
qed

text \<open>C30: BACKSPACE takes back the character typed last.\<close>

theorem backspace_undoes_typing:
  assumes "listening opts s" "cursor_ok s" "typable (k, c)"
  shows "command (press_key opts (plain_key 8) (type_char opts k c s)) = command s
    \<and> position (press_key opts (plain_key 8) (type_char opts k c s)) = position s"
proof -
  let ?s = "s\<lparr>first_up_history := True, prevent_keypress := False, no_keypress := False\<rparr>"
  let ?t = "cmd_insert opts [c] False ?s"
  have s: "cursor_ok ?s" using assms(2) by (simp add: cursor_ok_def)
  note i = cmd_insert_text [OF s, of opts "[c]" False]
  have t: "listening opts ?t" using assms(1) by (simp add: listening_def)
  let ?m = "mark_up (plain_key 8) ?t"
  have m: "cursor_ok ?m" "command ?m \<noteq> []" "0 < position ?m" using i assms(2) by (simp_all add: cursor_ok_def)
  define p where "p = nat (position s)"
  have p: "position s = int p" "p \<le> length (command s)" using assms(2) by (auto simp: p_def cursor_ok_def)
  have i': "command ?m = take p (command s) @ c # drop p (command s)" "position ?m = int (Suc p)"
    using i p by simp_all
  have "(1::int) \<le> position ?m" using m(3) by simp
  note d = cmd_delete_back(2,3) [OF m(1) zero_less_one this, of opts, unfolded i']
  have n: "nat (int (Suc p) - 1) = p" "nat (int (Suc p)) = Suc p" by simp_all
  have d: "command (snd (cmd_delete opts (-1) False ?m)) = command s" "position (snd (cmd_delete opts (-1) False ?m)) = position s"
    using d p(2) unfolding n by (simp_all add: p(1))
  have "press_key opts (plain_key 8) ?t
      = snd (if env_touch opts then bool_result True (snd (cmd_delete opts (-1) False ?m))
             else keydown_done (snd (cmd_delete opts (-1) False ?m)))"
    using m(2,3) t by (simp add: press_key_def keydown_listening keydown_main_def listening_def)
  with d show ?thesis by (simp add: type_char_insert [OF assms(1,3)])
qed

theorem backspace_undoes_typing_witness:
  "command (press_key plain_options (plain_key 8) (type_char plain_options 65 CHR ''a'' some_cmd)) = ''''"
proof -
  have s: "command some_cmd = ''''" "position some_cmd = 0" "listening plain_options some_cmd" by (code_simp)+
  from backspace_undoes_typing [OF s(3), of 65 "CHR ''a''"] s show ?thesis
    by (simp add: cursor_ok_def typable_def special_codes_def)
qed


section \<open>The arrow keys\<close>

text \<open>The command line shows entry \<open>i\<close> of the history \<open>D\<close> and has put the text \<open>c\<close> aside.\<close>

definition browsing :: "options \<Rightarrow> string \<Rightarrow> string list \<Rightarrow> nat \<Rightarrow> cmd \<Rightarrow> bool" where
  "browsing opts c D i t \<longleftrightarrow>
     listening opts t \<and> h_data (history t) = D \<and> h_pos (history t) = int i \<and> i < length D \<and>
     last_command t = Some c \<and> command t = D ! i"

lemma cmd_set_listening [simp]: "listening opts (cmd_set opts x st s) = listening opts s"
  by (simp add: listening_def)

lemma press_up:
  "listening opts s \<Longrightarrow> press_key opts (plain_key 38) s = snd (keydown_done (up_history opts s))"
  by (simp add: press_key_def keydown_listening keydown_main_def mark_up_def)

lemma press_down:
  "listening opts s \<Longrightarrow> press_key opts (plain_key 40) s =
    snd (keydown_done (down_history opts (s\<lparr>first_up_history := True\<rparr>)))"
  by (simp add: press_key_def keydown_listening keydown_main_def mark_up_def)

lemma up_first:
  assumes "listening opts s" "first_up_history s" "h_end (history s)" "h_data (history s) \<noteq> []"
  shows "browsing opts (command s) (h_data (history s)) (length (h_data (history s)) - 1) (press_key opts (plain_key 38) s)
    \<and> \<not> first_up_history (press_key opts (plain_key 38) s)"
proof -
  have "h_current (history s) = Some (h_data (history s) ! (length (h_data (history s)) - 1))"
    using assms(3,4) at_in [of "h_pos (history s)" "h_data (history s)"]
    by (simp add: h_current_def h_end_def Suc_le_eq nat_diff_distrib')
  then show ?thesis using assms
    by (auto simp: press_up up_history_def browsing_def h_end_def listening_def Suc_le_eq)
qed

lemma up_next:
  assumes "browsing opts c D (Suc i) t" "\<not> first_up_history t"
  shows "browsing opts c D i (press_key opts (plain_key 38) t) \<and> \<not> first_up_history (press_key opts (plain_key 38) t)"
proof -
  have "h_previous (history t) = (Some (D ! i), (history t)\<lparr>h_pos := int i\<rparr>)"
    using assms(1) by (simp add: h_previous_def browsing_def at_def)
  then show ?thesis using assms
    by (simp add: press_up up_history_def browsing_def listening_def)
qed

lemma down_next:
  assumes "browsing opts c D i t" "Suc i < length D"
  shows "browsing opts c D (Suc i) (press_key opts (plain_key 40) t)"
proof -
  have "\<not> h_end (history t)" "h_next (history t) = (Some (D ! Suc i), (history t)\<lparr>h_pos := int (Suc i)\<rparr>)"
    using assms by (auto simp: h_next_def h_end_def browsing_def at_def nat_add_distrib add.commute)
  then show ?thesis using assms
    by (simp add: press_down down_history_def browsing_def listening_def)
qed

lemma down_last:
  assumes "browsing opts c D i t" "Suc i = length D"
  shows "command (press_key opts (plain_key 40) t) = c"
proof -
  have "h_end (history t)" using assms by (auto simp: h_end_def browsing_def)
  then show ?thesis using assms by (simp add: press_down down_history_def browsing_def)
qed

lemma ups:
  assumes "listening opts s" "first_up_history s" "h_end (history s)" "k < length (h_data (history s))"
  shows "browsing opts (command s) (h_data (history s)) (length (h_data (history s)) - Suc k)
           ((press_key opts (plain_key 38) ^^ Suc k) s)
    \<and> \<not> first_up_history ((press_key opts (plain_key 38) ^^ Suc k) s)"
  using assms(4)
proof (induction k)
  case 0
  then show ?case using up_first [OF assms(1-3)] by auto
next
  case (Suc k)
  let ?n = "length (h_data (history s))"
  have "?n - Suc k = Suc (?n - Suc (Suc k))" using Suc.prems by simp
  with Suc.IH Suc.prems have
    "browsing opts (command s) (h_data (history s)) (Suc (?n - Suc (Suc k))) ((press_key opts (plain_key 38) ^^ Suc k) s)"
    "\<not> first_up_history ((press_key opts (plain_key 38) ^^ Suc k) s)" by simp_all
  from up_next [OF this] show ?case by simp
qed

lemma downs:
  "browsing opts c D i t \<Longrightarrow> i + j < length D \<Longrightarrow> browsing opts c D (i + j) ((press_key opts (plain_key 40) ^^ j) t)"
proof (induction j)
  case (Suc j)
  then show ?case using down_next [of opts c D "i + j" "(press_key opts (plain_key 40) ^^ j) t"] by simp
qed simp

text \<open>
  C12: the k-th UP shows the k-th last entry of the history, and as many DOWN bring back the text that
  stood there before.
\<close>

theorem arrows_roundtrip:
  assumes "listening opts s" "first_up_history s" "h_end (history s)"
    and "0 < k" "k \<le> length (h_data (history s))"
  shows "let t = (press_key opts (plain_key 38) ^^ k) s; u = (press_key opts (plain_key 40) ^^ k) t in
    command t = h_data (history s) ! (length (h_data (history s)) - k) \<and> command u = command s"
proof -
  let ?D = "h_data (history s)" and ?t = "(press_key opts (plain_key 38) ^^ k) s"
  obtain j where k: "k = Suc j" using assms(4) by (cases k) auto
  have t: "browsing opts (command s) ?D (length ?D - k) ?t"
    using ups [OF assms(1-3), of j] assms(5) unfolding k by auto
  have "browsing opts (command s) ?D (length ?D - k + j) ((press_key opts (plain_key 40) ^^ j) ?t)"
    using downs [OF t, of j] assms(5) k by simp
  moreover have "Suc (length ?D - k + j) = length ?D" using assms(5) k by simp
  ultimately have "command (press_key opts (plain_key 40) ((press_key opts (plain_key 40) ^^ j) ?t)) = command s"
    by (rule down_last)
  then have "command ((press_key opts (plain_key 40) ^^ k) ?t) = command s"
    unfolding k by (simp only: funpow.simps comp_apply)
  with t show ?thesis by (simp add: browsing_def Let_def)
qed

definition history_cmd :: cmd where
  "history_cmd = (cmd_insert plain_options ''new'' False some_cmd)\<lparr>history :=
     \<lparr>h_enabled = True, h_key = ''k'', h_size = 60, h_data = [''a'', ''b'', ''c''], h_pos = 2\<rparr>\<rparr>"

theorem arrows_roundtrip_witness:
  "command ((press_key plain_options (plain_key 38) ^^ 2) history_cmd) = ''b''
   \<and> command ((press_key plain_options (plain_key 40) ^^ 2) ((press_key plain_options (plain_key 38) ^^ 2) history_cmd))
     = ''new''"
proof -
  have s: "command history_cmd = ''new''" "h_data (history history_cmd) = [''a'', ''b'', ''c'']"
    "h_pos (history history_cmd) = 2" "listening plain_options history_cmd" "first_up_history history_cmd"
    by (code_simp)+
  from arrows_roundtrip [OF s(4,5), of 2] s show ?thesis by (simp add: h_end_def Let_def)
qed

section \<open>ENTER\<close>

lemma press_enter:
  "listening opts s \<Longrightarrow> press_key opts (plain_key 13) s =
    snd (keydown_done (enter opts (s\<lparr>first_up_history := True\<rparr>)))"
  by (simp add: press_key_def keydown_listening keydown_main_def mark_up_def)

lemma calls_last_commands:
  "opt_commands opts \<Longrightarrow> last (calls (enter opts s)) = Commands (command s)"
  by (auto simp: enter_def Let_def draw_prompt_def split: prod.splits prompt.splits)

lemma enter_sel:
  "command (enter opts s) = ''''" "position (enter opts s) = 0"
  by (auto simp: enter_def Let_def draw_prompt_def clamp_def split: prod.splits prompt.splits)

lemma enter_history:
  "(history (enter opts s), page (enter opts s)) =
     (let (h, b) = (if history_wanted opts s then h_append (command s) (history s, page s) else (history s, page s))
      in (h_reset h, b))"
  by (auto simp: enter_def Let_def draw_prompt_def split: prod.splits prompt.splits)

text \<open>
  C2: ENTER hands the command to the callback, empties the line, appends the command to the
  history when it is wanted there, and sets the history back to its end.
\<close>

theorem enter_submits:
  assumes "listening opts s" "opt_commands opts"
  shows "let t = press_key opts (plain_key 13) s in
    last (calls t) = Commands (command s) \<and> command t = '''' \<and> position t = 0 \<and> h_end (history t) \<and>
    h_data (history t) = h_data (if history_wanted opts s then fst (h_append (command s) (history s, page s)) else history s)"
proof -
  let ?s = "s\<lparr>first_up_history := True\<rparr>"
  have w: "history_wanted opts ?s = history_wanted opts s" by (simp add: history_wanted_def split: filter.split)
  from enter_history [of opts ?s]
  have "history (enter opts ?s) = h_reset (if history_wanted opts s then fst (h_append (command s) (history s, page s)) else history s)"
    by (auto simp: w Let_def split: prod.splits if_splits)
  then show ?thesis
    using assms enter_sel [of opts ?s] calls_last_commands [of opts ?s]
    by (simp add: press_enter Let_def h_end_def h_reset_def)
qed

theorem enter_submits_witness:
  "let t = press_key plain_options (plain_key 13) history_cmd in
    last (calls t) = Commands ''new'' \<and> command t = '''' \<and> position t = 0 \<and> h_end (history t) \<and>
    h_data (history t) = [''a'', ''b'', ''c'', ''new'']"
proof -
  have s: "command history_cmd = ''new''" "listening plain_options history_cmd" "opt_commands plain_options"
    "h_data (if history_wanted plain_options history_cmd
       then fst (h_append (command history_cmd) (history history_cmd, page history_cmd)) else history history_cmd)
     = [''a'', ''b'', ''c'', ''new'']"
    by (code_simp)+
  from enter_submits [OF s(2,3)] s show ?thesis by (simp only: Let_def)
qed


lemma last_h_append:
  assumes "hist_inv h" "h_enabled h"
  shows "h_data (fst (h_append x (h, b))) \<noteq> [] \<and> last (h_data (fst (h_append x (h, b)))) = x"
proof (cases "at (h_data h) (int (length (h_data h)) - 1) \<noteq> Some x")
  case True
  define ys where "ys = h_data h @ [x]"
  have "h_data (fst (h_append x (h, b))) = (if h_size h \<noteq> 0 \<and> int (length ys) > h_size h then slice_from ys (- h_size h) else ys)"
    using True assms by (simp add: h_append_def ys_def Let_def)
  moreover have "slice_from ys (- h_size h) = last_n (nat (h_size h)) ys" if "h_size h \<noteq> 0" "int (length ys) > h_size h"
    by (rule slice_from_last_n) (use that assms in \<open>auto simp: hist_inv_def\<close>)
  moreover have "last_n (nat (h_size h)) ys \<noteq> [] \<and> last (last_n (nat (h_size h)) ys) = x" if sz: "h_size h \<noteq> 0"
  proof -
    obtain n where "nat (h_size h) = Suc n" using sz assms by (cases "nat (h_size h)") (auto simp: hist_inv_def)
    then show ?thesis using last_last_n [of ys n] by (simp add: ys_def)
  qed
  ultimately show ?thesis by (auto simp: ys_def)
next
  case False
  then show ?thesis using assms by (auto simp: h_append_def at_last split: if_splits)
qed

text \<open>
  Without a history filter the mask does not keep a command out of the history, though the
  condition of ENTER tests it: the disjunction on the filter is outside the conjunction.
\<close>

theorem masked_command_recorded:
  assumes "listening opts s" "opt_history_filter opts = NoFilter" "mask s = MaskBool True"
    and "hist_inv (history s)" "h_enabled (history s)"
  shows "last (h_data (history (press_key opts (plain_key 13) s))) = command s"
proof -
  let ?s = "s\<lparr>first_up_history := True\<rparr>"
  have "history_wanted opts ?s" using assms(2) by (simp add: history_wanted_def)
  with enter_history [of opts ?s]
  have "h_data (history (enter opts ?s)) = h_data (fst (h_append (command s) (history s, page s)))"
    by (auto simp: Let_def h_reset_def split: prod.splits)
  with last_h_append [OF assms(4,5)] assms(1) show ?thesis by (simp add: press_enter)
qed

theorem masked_command_recorded_witness:
  "last (h_data (history (press_key plain_options (plain_key 13)
     (history_cmd\<lparr>command := ''secret'', mask := MaskBool True\<rparr>)))) = ''secret''"
proof -
  let ?s = "history_cmd\<lparr>command := ''secret'', mask := MaskBool True\<rparr>"
  have s: "listening plain_options ?s" by code_simp
  show ?thesis
    using masked_command_recorded [OF s] by (simp add: plain_options_def history_cmd_def hist_inv_def)
qed

end
