(* ===== verification/Text_Tools.thy ===== *)
theory Text_Tools
  imports JS_Regex JS_Value
begin

text \<open>
  The object \<open>$.terminal\<close> of \<open>terminal.js\<close>: validation of colours, escaping for regular
  expressions and for HTML, and the formatting \<open>[[style;color;background;class;data]text]\<close> with its
  translation to HTML. The regular expressions are those of the source; a class under the flag \<open>i\<close>
  has both cases.
\<close>

section \<open>The expressions\<close>

definition style_cls :: re where "style_cls = one_of ''!gbiusoGBIUSO''"
definition nbr :: re where "nbr = Star (none_of '']'')"
definition nsb :: re where "nsb = Star (none_of '';]'')"

text \<open>The text of a formatting: \<open>[^\]]*\\\][^\]]*|[^\]]*|[^\[]*\[[^\]]*\<close>.\<close>

definition re_body :: re where
  "re_body = Alt (Seq nbr (Seq (Lit [CHR 0x5C, CHR '']'']) nbr))
     (Alt nbr (Seq (Star (none_of ''['')) (Seq (Chr CHR ''['') nbr)))"

definition format_split_re :: re where
  "format_split_re = Grp 1 (Seq (Lit ''[['') (Seq (Star style_cls) (Seq (Chr CHR '';'')
     (Seq (Star (none_of '';'')) (Seq (Chr CHR '';'') (Seq nbr (Seq (Chr CHR '']'')
     (Seq re_body (Opt (Chr CHR '']''))))))))))"

definition format_parts_re :: re where
  "format_parts_re = Seq (Lit ''[['') (Seq (Grp 1 (Star style_cls)) (Seq (Chr CHR '';'')
     (Seq (Grp 2 (Star (none_of '';''))) (Seq (Chr CHR '';'') (Seq (Grp 3 nsb) (Seq (Opt (Chr CHR '';''))
     (Seq (Grp 4 nsb) (Seq (Opt (Chr CHR '';'')) (Seq (Grp 5 nbr) (Seq (Chr CHR '']'')
     (Seq (Grp 6 re_body) (Opt (Chr CHR '']'')))))))))))))"

text \<open>\<open>[!gbiuso]*;[^;\]]*;[^;\]]*(?:;|[^\]()]*);?[^\]]*\<close>, common to the next two.\<close>

definition re_fields :: re where
  "re_fields = Seq (Star style_cls) (Seq (Chr CHR '';'') (Seq nsb (Seq (Chr CHR '';'') (Seq nsb
     (Seq (Alt (Chr CHR '';'') (Star (none_of '']()''))) (Seq (Opt (Chr CHR '';'')) nbr))))))"

definition format_re :: re where
  "format_re = Seq (Lit ''[['') (Seq (Grp 1 re_fields) (Seq (Chr CHR '']'') (Seq (Grp 2 re_body) (Opt (Chr CHR '']'')))))"

definition format_full_re :: re where
  "format_full_re = Seq Bol (Seq (Lit ''[['') (Seq (Grp 1 re_fields) (Seq (Chr CHR '']'')
     (Seq (Grp 2 re_body) (Seq (Chr CHR '']'') Eol)))))"

definition format_begin_re :: re where
  "format_begin_re = Grp 1 (Seq (Lit ''[['') (Seq (Star style_cls) (Seq (Chr CHR '';'')
     (Seq (Star (none_of '';'')) (Seq (Chr CHR '';'') (Seq nbr (Chr CHR '']'')))))))"

definition format_last_re :: re where
  "format_last_re = Seq (Lit ''[['') (Seq (Star style_cls) (Seq (Chr CHR '';'')
     (Seq (Star (none_of '';'')) (Seq (Chr CHR '';'') (Seq nbr (Seq (Opt (Chr CHR '']'')) Eol))))))"

fun times :: "nat \<Rightarrow> re \<Rightarrow> re" where
  "times 0 r = Eps"
| "times (Suc n) r = Seq r (times n r)"

definition color_hex_re :: re where
  "color_hex_re = Seq Bol (Seq (Chr CHR ''#'')
     (Seq (Grp 1 (Alt (times 3 (Cls hex_char)) (times 6 (Cls hex_char)))) Eol))"

text \<open>\<open>[0-9]{1,3}\<close> and the address expression; \<open>.\<close> is every character but the line terminators.\<close>

definition re_byte :: re where
  "re_byte = Seq (Cls digit_char) (Opt (Seq (Cls digit_char) (Opt (Cls digit_char))))"

definition email_re :: re where
  "email_re =
     (let local1 = Cls (\<lambda>c. c \<notin> set ''<>()[].,;:@'' \<and> c \<noteq> CHR 0x27 \<and> c \<noteq> CHR 0x22 \<and> c \<noteq> CHR 0x5C \<and> \<not> blank c);
          local2 = Cls (\<lambda>c. c \<notin> set ''<>()[].,;:@'' \<and> c \<noteq> CHR 0x22 \<and> c \<noteq> CHR 0x5C \<and> \<not> blank c);
          dot = Chr CHR ''.''
      in Seq (Alt (Seq (Plus local1) (Star (Seq dot (Plus local2))))
                  (Seq (Chr CHR 0x22) (Seq (Plus (none_of [CHR 0x0A, CHR 0x0D])) (Chr CHR 0x22))))
         (Seq (Chr CHR ''@'')
            (Alt (Seq (Chr CHR ''['') (Seq re_byte (Seq dot (Seq re_byte (Seq dot (Seq re_byte (Seq dot (Seq re_byte
                   (Chr CHR '']'')))))))))
                 (Seq (Plus (Seq (Plus (Cls (\<lambda>c. alpha_char c \<or> digit_char c \<or> c = CHR ''-''))) dot))
                    (Seq (Cls alpha_char) (Plus (Cls alpha_char)))))))"

section \<open>Colours\<close>

definition color_names :: "string list" where
  "color_names = [
    ''black'', ''silver'', ''gray'', ''white'', ''maroon'', ''red'', ''purple'', ''fuchsia'',
    ''green'', ''lime'', ''olive'', ''yellow'', ''navy'', ''blue'', ''teal'', ''aqua'', ''aliceblue'',
    ''antiquewhite'', ''aqua'', ''aquamarine'', ''azure'', ''beige'', ''bisque'', ''black'',
    ''blanchedalmond'', ''blue'', ''blueviolet'', ''brown'', ''burlywood'', ''cadetblue'',
    ''chartreuse'', ''chocolate'', ''coral'', ''cornflowerblue'', ''cornsilk'', ''crimson'', ''cyan'',
    ''darkblue'', ''darkcyan'', ''darkgoldenrod'', ''darkgray'', ''darkgreen'', ''darkgrey'',
    ''darkkhaki'', ''darkmagenta'', ''darkolivegreen'', ''darkorange'', ''darkorchid'', ''darkred'',
    ''darksalmon'', ''darkseagreen'', ''darkslateblue'', ''darkslategray'', ''darkslategrey'',
    ''darkturquoise'', ''darkviolet'', ''deeppink'', ''deepskyblue'', ''dimgray'', ''dimgrey'',
    ''dodgerblue'', ''firebrick'', ''floralwhite'', ''forestgreen'', ''fuchsia'', ''gainsboro'',
    ''ghostwhite'', ''gold'', ''goldenrod'', ''gray'', ''green'', ''greenyellow'', ''grey'',
    ''honeydew'', ''hotpink'', ''indianred'', ''indigo'', ''ivory'', ''khaki'', ''lavender'',
    ''lavenderblush'', ''lawngreen'', ''lemonchiffon'', ''lightblue'', ''lightcoral'', ''lightcyan'',
    ''lightgoldenrodyellow'', ''lightgray'', ''lightgreen'', ''lightgrey'', ''lightpink'',
    ''lightsalmon'', ''lightseagreen'', ''lightskyblue'', ''lightslategray'', ''lightslategrey'',
    ''lightsteelblue'', ''lightyellow'', ''lime'', ''limegreen'', ''linen'', ''magenta'', ''maroon'',
    ''mediumaquamarine'', ''mediumblue'', ''mediumorchid'', ''mediumpurple'', ''mediumseagreen'',
    ''mediumslateblue'', ''mediumspringgreen'', ''mediumturquoise'', ''mediumvioletred'',
    ''midnightblue'', ''mintcream'', ''mistyrose'', ''moccasin'', ''navajowhite'', ''navy'',
    ''oldlace'', ''olive'', ''olivedrab'', ''orange'', ''orangered'', ''orchid'', ''palegoldenrod'',
    ''palegreen'', ''paleturquoise'', ''palevioletred'', ''papayawhip'', ''peachpuff'', ''peru'',
    ''pink'', ''plum'', ''powderblue'', ''purple'', ''red'', ''rosybrown'', ''royalblue'',
    ''saddlebrown'', ''salmon'', ''sandybrown'', ''seagreen'', ''seashell'', ''sienna'', ''silver'',
    ''skyblue'', ''slateblue'', ''slategray'', ''slategrey'', ''snow'', ''springgreen'', ''steelblue'',
    ''tan'', ''teal'', ''thistle'', ''tomato'', ''turquoise'', ''violet'', ''wheat'', ''white'',
    ''whitesmoke'', ''yellow'', ''yellowgreen'']"

definition valid_color :: "string \<Rightarrow> bool" where
  "valid_color color \<longleftrightarrow> re_test color_hex_re color \<or> to_lower color \<in> set color_names"

section \<open>Escaping\<close>

definition re_special :: re where \<comment> \<open>\<open>/([-\\\^$\[\]()+{}?*.|])/g\<close>\<close>
  "re_special = Grp 1 (Cls (\<lambda>c. c = CHR 0x5C \<or> c \<in> set ''-^$[]()+{}?*.|''))"

definition escape_regex :: "string \<Rightarrow> string" where
  "escape_regex str = replace_all re_special (\<lambda>m. CHR 0x5C # (case found_cap 1 m of Some t \<Rightarrow> t | None \<Rightarrow> [])) str"

definition re_amp :: re where \<comment> \<open>\<open>/&(?!#[0-9]+;|[a-zA-Z]+;)/g\<close>\<close>
  "re_amp = Seq (Chr CHR ''&'')
     (NotAhead (Alt (Seq (Chr CHR ''#'') (Seq (Plus (Cls digit_char)) (Chr CHR '';'')))
                    (Seq (Plus (Cls alpha_char)) (Chr CHR '';''))))"

definition replace_char :: "char \<Rightarrow> string \<Rightarrow> string \<Rightarrow> string" where \<comment> \<open>\<open>str.replace(/c/g, t)\<close>\<close>
  "replace_char c t = replace_all (Chr c) (\<lambda>_. t)"

definition encode :: "string \<Rightarrow> string" where
  "encode str =
     replace_char CHR 0x09 ''&nbsp;&nbsp;&nbsp;&nbsp;''
       (replace_char CHR '' '' ''&nbsp;''
         (replace_char CHR ''>'' ''&gt;''
           (replace_char CHR ''<'' ''&lt;'' (replace_all re_amp (\<lambda>_. ''&amp;'') str))))"

definition escape_brackets :: "string \<Rightarrow> string" where
  "escape_brackets str = replace_char CHR '']'' ''&#93;'' (replace_char CHR ''['' ''&#91;'' str)"

definition escape_formatting :: "string \<Rightarrow> string" where
  "escape_formatting str = escape_brackets (encode str)"

section \<open>Formatting\<close>

fun have_formatting :: "jsval \<Rightarrow> bool" where
  "have_formatting (JStr s) = re_test format_re s"
| "have_formatting _ = False"

fun is_formatting :: "jsval \<Rightarrow> bool" where
  "is_formatting (JStr s) = re_test format_full_re s"
| "is_formatting _ = False"

definition format_split :: "string \<Rightarrow> string option list" where
  "format_split str = split_re format_split_re 1 str"

definition cap_text :: "nat \<Rightarrow> found \<Rightarrow> string" where
  "cap_text n m = (case found_cap n m of Some t \<Rightarrow> t | None \<Rightarrow> [])"

definition strip_formatting :: "string \<Rightarrow> string" where \<comment> \<open>\<open>strip\<close>\<close>
  "strip_formatting str = replace_all format_parts_re (cap_text 6) str"

text \<open>The declarations of the attribute \<open>style\<close>.\<close>

definition style_text :: "string \<Rightarrow> string \<Rightarrow> string \<Rightarrow> string" where
  "style_text style color background =
     (let has = (\<lambda>c. c \<in> set style);
          decoration = (if has CHR ''u'' then [''underline''] else []) @
            (if has CHR ''s'' then [''line-through''] else []) @ (if has CHR ''o'' then [''overline''] else [])
      in (if has CHR ''b'' then ''font-weight:bold;'' else '''') @
         (if decoration \<noteq> [] then ''text-decoration:'' @ join_with '' '' decoration @ '';'' else '''') @
         (if has CHR ''i'' then ''font-style:italic;'' else '''') @
         (if valid_color color
          then ''color:'' @ color @ '';'' @
               (if has CHR ''g'' then ''text-shadow:0 0 5px '' @ color @ '';'' else '''')
          else '''') @
         (if valid_color background then ''background-color:'' @ background else ''''))"

definition quot :: string where "quot = [CHR 0x22]"

text \<open>The replacement function of \<open>format\<close>, on the six captures. \<open>no_referer\<close> is \<open>settings.linksNoReferer\<close>.\<close>

definition format_one :: "bool \<Rightarrow> string \<Rightarrow> string \<Rightarrow> string \<Rightarrow> string \<Rightarrow> string \<Rightarrow> string \<Rightarrow> string" where
  "format_one no_referer style color background cls data_text txt =
     (if txt = '''' then ''''
      else
        (let txt = replace_all (Lit [CHR 0x5C, CHR '']'']) (\<lambda>_. '']'') txt;
             style_str = style_text style color background;
             data = (if data_text = '''' then txt else replace_all (Lit ''&#93;'') (\<lambda>_. '']'') data_text);
             link = CHR ''!'' \<in> set style;
             start = (if link
               then (if re_test email_re data then ''<a href='' @ quot @ ''mailto:'' @ data @ quot @ '' ''
                     else ''<a target='' @ quot @ ''_blank'' @ quot @ '' href='' @ quot @ data @ quot @ '' '' @
                          (if no_referer then ''rel='' @ quot @ ''noreferrer'' @ quot @ '' '' else ''''))
               else ''<span '')
         in start @
            (if style_str \<noteq> '''' then ''style='' @ quot @ style_str @ quot else '''') @
            (if cls \<noteq> '''' then '' class='' @ quot @ cls @ quot else '''') @
            (if link then ''>'' @ txt @ ''</a>''
             else '' data-text='' @ quot @ replace_first (Chr CHR 0x22) (\<lambda>_. ''&quote;'') data @ quot @ ''>'' @
                  txt @ ''</span>'')))"

definition re_br :: re where \<comment> \<open>\<open>/<span><br\/?><\/span>/gi\<close>\<close>
  "re_br = Seq (LitI ''<span><br'') (Seq (Opt (Chr CHR ''/'')) (LitI ''></span>''))"

text \<open>The options are an object; the setting that is read is not the one that has a default.\<close>

definition format_settings :: "(string \<times> jsval) list \<Rightarrow> string \<Rightarrow> jsval" where
  "format_settings opts k =
     (case map_of opts k of Some v \<Rightarrow> v
      | None \<Rightarrow> (if k = ''linksNoReferrer'' then JBool False else JUndef))"

definition format_piece :: "bool \<Rightarrow> string \<Rightarrow> string" where
  "format_piece no_referer txt =
     (if txt = '''' then txt
      else if is_formatting (JStr txt) then
        replace_all format_parts_re
          (\<lambda>m. format_one no_referer (cap_text 1 m) (cap_text 2 m) (cap_text 3 m) (cap_text 4 m)
                 (cap_text 5 m) (cap_text 6 m)) txt
      else ''<span>'' @ txt @ ''</span>'')"

fun format_html :: "jsval \<Rightarrow> (string \<times> jsval) list \<Rightarrow> string" where \<comment> \<open>\<open>format\<close>\<close>
  "format_html (JStr str) opts =
     (let splitted = format_split str;
          no_referer = truthy (format_settings opts ''linksNoReferer'');
          out = (if length splitted > 1
                 then concat (map (\<lambda>t. format_piece no_referer (case t of Some t \<Rightarrow> t | None \<Rightarrow> [])) splitted)
                 else ''<span>'' @ str @ ''</span>'')
      in replace_all re_br (\<lambda>_. ''<br/>'') out)"
| "format_html _ opts = ''''"

end
