(* ===== verification/Text_Laws.thy ===== *)
theory Text_Laws
  imports Text_Tools Json
begin

text \<open>
  What the escaping functions of \<open>$.terminal\<close> guarantee: \<open>encode\<close> as one pass over the text, its
  output free of mark-up and stable under a second pass; \<open>escape_formatting\<close> free of formatting;
  \<open>escape_regex\<close> a pattern of the text itself.
\<close>

section \<open>encode as one pass\<close>

text \<open>What follows an ampersand that is left alone: \<open>#[0-9]+;\<close> or \<open>[a-zA-Z]+;\<close>.\<close>

definition run_then :: "(char \<Rightarrow> bool) \<Rightarrow> char \<Rightarrow> string \<Rightarrow> bool" where
  "run_then P e t \<longleftrightarrow> takeWhile P t \<noteq> [] \<and> at (dropWhile P t) 0 = Some e"

definition entity_tail :: "string \<Rightarrow> bool" where
  "entity_tail t \<longleftrightarrow> (t \<noteq> [] \<and> hd t = CHR ''#'' \<and> run_then digit_char CHR '';'' (tl t)) \<or> run_then alpha_char CHR '';'' t"

lemma at_drop0: "at (drop j s) 0 = Some e \<longleftrightarrow> j < length s \<and> s ! j = e"
  by (auto simp: at_def hd_drop_conv_nth [symmetric] hd_conv_nth [symmetric])

lemma ms_Plus_Chr_none:
  assumes "i \<le> length s" "\<not> P e"
  shows "ms (Seq (Plus (Cls P)) (Chr e)) s (i, c) = [] \<longleftrightarrow> \<not> run_then P e (drop i s)"
proof (cases "drop i s")
  case Nil
  then show ?thesis by (simp add: Plus_def run_then_def)
next
  case (Cons a t)
  from drop_Cons_D [OF this] have d: "i < length s" "s ! i = a" "drop (Suc i) s = t" by simp_all
  show ?thesis
  proof (cases "P a")
    case True
    have "ms (Seq (Plus (Cls P)) (Chr e)) s (i, c) = ms (Seq (Star (Cls P)) (Chr e)) s (Suc i, c)"
      using d True by (simp add: Plus_def)
    moreover have w: "dropWhile P t = drop (Suc i + run_at P s (Suc i)) s"
      by (metis d(3) drop_drop add.commute dropWhile_eq_drop run_at_def)
    ultimately have "ms (Seq (Plus (Cls P)) (Chr e)) s (i, c) = [] \<longleftrightarrow> at (dropWhile P t) 0 \<noteq> Some e"
      using ms_run_Chr [of "Suc i" s P e c] d(1) assms(2) unfolding w at_drop0 by (simp add: Let_def)
    then show ?thesis using True by (simp add: run_then_def Cons)
  next
    case False
    with d Cons show ?thesis by (simp add: Plus_def run_then_def)
  qed
qed

lemma entity_chars [simp]:
  "\<not> digit_char CHR '';''" "\<not> alpha_char CHR '';''" "\<not> alpha_char CHR ''#''" "\<not> alpha_char CHR ''&''"
  by (simp_all add: digit_char_def alpha_char_def less_eq_char_def)

lemma ms_amp:
  assumes "i < length s"
  shows "ms re_amp s (i, []) = (if s ! i = CHR ''&'' \<and> \<not> entity_tail (drop (Suc i) s) then [(Suc i, [])] else [])"
proof -
  have "ms (Seq (Chr CHR ''#'') (Seq (Plus (Cls digit_char)) (Chr CHR '';''))) s (Suc i, []) = [] \<longleftrightarrow>
      \<not> (drop (Suc i) s \<noteq> [] \<and> hd (drop (Suc i) s) = CHR ''#'' \<and> run_then digit_char CHR '';'' (tl (drop (Suc i) s)))"
  proof (cases "drop (Suc i) s")
    case (Cons a t)
    from drop_Cons_D [OF this] have d: "Suc i < length s" "s ! Suc i = a" "drop (Suc (Suc i)) s = t" by simp_all
    have "ms (Seq (Chr CHR ''#'') (Seq (Plus (Cls digit_char)) (Chr CHR '';''))) s (Suc i, [])
        = (if a = CHR ''#'' then ms (Seq (Plus (Cls digit_char)) (Chr CHR '';'')) s (Suc (Suc i), []) else [])"
      using d by (simp add: Chr_def)
    then show ?thesis using ms_Plus_Chr_none [of "Suc (Suc i)" s digit_char "CHR '';''" "[]"] d Cons by simp
  qed (simp add: Chr_def)
  moreover have "ms (Seq (Plus (Cls alpha_char)) (Chr CHR '';'')) s (Suc i, []) = [] \<longleftrightarrow>
      \<not> run_then alpha_char CHR '';'' (drop (Suc i) s)"
    using assms by (intro ms_Plus_Chr_none) simp_all
  ultimately have "ms (Alt (Seq (Chr CHR ''#'') (Seq (Plus (Cls digit_char)) (Chr CHR '';'')))
      (Seq (Plus (Cls alpha_char)) (Chr CHR '';''))) s (Suc i, []) = [] \<longleftrightarrow> \<not> entity_tail (drop (Suc i) s)"
    unfolding entity_tail_def ms.simps(4) by simp
  then show ?thesis
    using assms unfolding re_amp_def ms.simps(3) ms.simps(10) Chr_def ms.simps(2) by simp
qed

fun amp_pass :: "string \<Rightarrow> string" where
  "amp_pass [] = []"
| "amp_pass (c # t) = (if c = CHR ''&'' \<and> \<not> entity_tail t then ''&amp;'' else [c]) @ amp_pass t"

lemma replace_amp: "replace_all re_amp (\<lambda>_. ''&amp;'') s = amp_pass s"
proof (rule replace_all_scan)
  show "ms re_amp s (length s, []) = []" by (simp add: re_amp_def Chr_def)
next
  fix i assume "i < length s" "ms re_amp s (i, []) = []"
  then show "amp_pass (drop i s) = s ! i # amp_pass (drop (Suc i) s)"
    by (subst Cons_nth_drop_Suc [symmetric]) (auto simp: ms_amp split: if_splits)
next
  fix i b c ys assume "i < length s" "ms re_amp s (i, []) = (b, c) # ys"
  then show "i < b \<and> amp_pass (drop i s) = ''&amp;'' @ amp_pass (drop b s)"
    by (subst Cons_nth_drop_Suc [symmetric]) (auto simp: ms_amp split: if_splits)
qed simp

definition html_char :: "char \<Rightarrow> string" where
  "html_char c = (if c = CHR ''<'' then ''&lt;'' else if c = CHR ''>'' then ''&gt;''
     else if c = CHR '' '' then ''&nbsp;'' else if c = CHR 0x09 then ''&nbsp;&nbsp;&nbsp;&nbsp;'' else [c])"

lemma replace_char_eq: "replace_char c r s = concat (map (\<lambda>x. if x = c then r else [x]) s)"
  by (simp add: replace_char_def replace_all_Chr)

lemma concat_map_concat: "concat (map f (concat (map g s))) = concat (map (\<lambda>x. concat (map f (g x))) s)"
  by (induction s) simp_all

lemma encode_eq: "encode s = concat (map html_char (amp_pass s))"
proof -
  have "encode s = concat (map (\<lambda>x. concat (map (\<lambda>x. if x = CHR 0x09 then ''&nbsp;&nbsp;&nbsp;&nbsp;'' else [x])
     (concat (map (\<lambda>x. if x = CHR '' '' then ''&nbsp;'' else [x])
       (concat (map (\<lambda>x. if x = CHR ''>'' then ''&gt;'' else [x]) (if x = CHR ''<'' then ''&lt;'' else [x]))))))) (amp_pass s))"
    by (simp only: encode_def replace_amp replace_char_eq concat_map_concat)
  also have "\<dots> = concat (map html_char (amp_pass s))"
    by (rule arg_cong [where f = concat]) (simp add: html_char_def)
  finally show ?thesis .
qed

text \<open>\<open>encode\<close> as a function of the first character and the rest.\<close>

definition enc_char :: "char \<Rightarrow> string \<Rightarrow> string" where
  "enc_char c t = (if c = CHR ''&'' then (if entity_tail t then ''&'' else ''&amp;'') else html_char c)"

lemma encode_Nil [simp]: "encode [] = []"
  by (simp add: encode_eq)

lemma encode_Cons: "encode (c # t) = enc_char c t @ encode t"
  by (simp add: encode_eq enc_char_def html_char_def)


section \<open>The output of encode\<close>

lemma run_then_iff:
  assumes "\<not> P e"
  shows "run_then P e t \<longleftrightarrow> (\<exists>w r. t = w @ e # r \<and> w \<noteq> [] \<and> list_all P w)"
proof
  assume r: "run_then P e t"
  then obtain r where "dropWhile P t = e # r"
    by (cases "dropWhile P t") (auto simp: run_then_def at_def)
  then have "t = takeWhile P t @ e # r" by (metis takeWhile_dropWhile_id)
  moreover have "list_all P (takeWhile P t)" by (auto simp: list_all_iff dest: set_takeWhileD)
  ultimately show "\<exists>w r. t = w @ e # r \<and> w \<noteq> [] \<and> list_all P w"
    using r by (auto simp: run_then_def)
next
  assume "\<exists>w r. t = w @ e # r \<and> w \<noteq> [] \<and> list_all P w"
  then obtain w r where w: "t = w @ e # r" "w \<noteq> []" "list_all P w" by blast
  then have "takeWhile P t = w" "dropWhile P t = e # r"
    using assms by (auto simp: list_all_iff takeWhile_append2 dropWhile_append2)
  then show "run_then P e t" using w by (simp add: run_then_def at_def)
qed

definition entity_name :: "string \<Rightarrow> bool" where
  "entity_name w \<longleftrightarrow> w \<noteq> [] \<and> (list_all alpha_char w \<or> (hd w = CHR ''#'' \<and> tl w \<noteq> [] \<and> list_all digit_char (tl w)))"

lemma entity_tail_iff: "entity_tail t \<longleftrightarrow> (\<exists>w r. t = w @ CHR '';'' # r \<and> entity_name w)"
proof
  assume "entity_tail t"
  then consider "t \<noteq> []" "hd t = CHR ''#''" "run_then digit_char CHR '';'' (tl t)" | "run_then alpha_char CHR '';'' t"
    by (auto simp: entity_tail_def)
  then show "\<exists>w r. t = w @ CHR '';'' # r \<and> entity_name w"
  proof cases
    case 1
    then obtain w r where "tl t = w @ CHR '';'' # r" "w \<noteq> []" "list_all digit_char w"
      by (auto simp: run_then_iff)
    with 1 show ?thesis
      by (intro exI [of _ "CHR ''#'' # w"] exI [of _ r]) (cases t; simp add: entity_name_def)
  next
    case 2
    then show ?thesis by (auto simp: run_then_iff entity_name_def)
  qed
next
  assume "\<exists>w r. t = w @ CHR '';'' # r \<and> entity_name w"
  then obtain w r where w: "t = w @ CHR '';'' # r" "entity_name w" by blast
  show "entity_tail t"
  proof (cases "list_all alpha_char w")
    case True
    with w show ?thesis by (auto simp: entity_tail_def run_then_iff entity_name_def)
  next
    case False
    with w have "hd w = CHR ''#''" "w \<noteq> []" "tl w \<noteq> []" "list_all digit_char (tl w)" by (auto simp: entity_name_def)
    then show ?thesis by (cases w) (auto simp: w(1) entity_tail_def run_then_iff)
  qed
qed

text \<open>Characters that \<open>encode\<close> copies whatever follows.\<close>

definition inert :: "char \<Rightarrow> bool" where
  "inert c \<longleftrightarrow> c \<notin> {CHR ''&'', CHR ''<'', CHR ''>'', CHR '' '', CHR 0x09}"

lemma encode_inert: "list_all inert w \<Longrightarrow> encode (w @ t) = w @ encode t"
  by (induction w) (auto simp: encode_Cons enc_char_def html_char_def inert_def)

lemma inert_classes: "alpha_char c \<Longrightarrow> inert c" "digit_char c \<Longrightarrow> inert c" "inert CHR ''#''" "inert CHR '';''"
  by (auto simp: inert_def alpha_char_def digit_char_def less_eq_char_def)

lemma entity_name_inert: "entity_name w \<Longrightarrow> list_all inert w"
  by (cases w) (auto simp: entity_name_def list_all_iff inert_classes)

lemma entity_tail_encode: "entity_tail t \<Longrightarrow> entity_tail (encode t)"
proof -
  assume "entity_tail t"
  then obtain w r where w: "t = w @ CHR '';'' # r" "entity_name w" by (auto simp: entity_tail_iff)
  then have "encode t = w @ CHR '';'' # encode r"
    using encode_inert [OF entity_name_inert [OF w(2)], of "CHR '';'' # r"]
    by (simp add: encode_Cons enc_char_def html_char_def)
  with w(2) show ?thesis by (auto simp: entity_tail_iff)
qed

text \<open>Every ampersand begins an entity, and the characters of mark-up and the blanks are gone.\<close>

fun html_text :: "string \<Rightarrow> bool" where
  "html_text [] = True"
| "html_text (c # t) = (c \<notin> {CHR ''<'', CHR ''>'', CHR '' '', CHR 0x09} \<and> (c = CHR ''&'' \<longrightarrow> entity_tail t) \<and> html_text t)"

lemma html_text_inert: "list_all inert w \<Longrightarrow> html_text (w @ t) = html_text t"
  by (induction w) (auto simp: inert_def)

lemma html_text_entity: "entity_name w \<Longrightarrow> html_text t \<Longrightarrow> html_text (CHR ''&'' # w @ CHR '';'' # t)"
  by (auto simp: html_text_inert [OF entity_name_inert] entity_tail_iff)

lemma html_text_enc_char: "html_text (encode t) \<Longrightarrow> html_text (enc_char c t @ encode t)"
proof -
  assume t: "html_text (encode t)"
  have names: "entity_name ''amp''" "entity_name ''lt''" "entity_name ''gt''" "entity_name ''nbsp''"
    by (simp_all add: entity_name_def alpha_char_def less_eq_char_def)
  note e = html_text_entity [OF names(1) t] html_text_entity [OF names(2) t] html_text_entity [OF names(3) t]
    html_text_entity [OF names(4) t]
  have n4: "html_text (''&nbsp;&nbsp;&nbsp;&nbsp;'' @ encode t)"
    using html_text_entity [OF names(4) html_text_entity [OF names(4) html_text_entity [OF names(4) e(4)]]] by simp
  show ?thesis
    using t e n4 entity_tail_encode [of t] by (auto simp: enc_char_def html_char_def)
qed

lemma html_text_encode: "html_text (encode s)"
  by (induction s) (auto simp: encode_Cons intro: html_text_enc_char)

lemma encode_html_text: "html_text s \<Longrightarrow> encode s = s"
  by (induction s) (auto simp: encode_Cons enc_char_def html_char_def)

text \<open>The encoded text is text for HTML, and encoding it again changes nothing.\<close>

theorem encode_safe: "html_text (encode s) \<and> encode (encode s) = encode s"
  using html_text_encode encode_html_text by blast

section \<open>Formatting in escaped text\<close>

lemma replace_char_set: "c \<notin> set r \<Longrightarrow> c \<notin> set (replace_char c r s)"
  "c \<noteq> d \<Longrightarrow> c \<notin> set r \<Longrightarrow> c \<notin> set s \<Longrightarrow> c \<notin> set (replace_char d r s)"
  by (auto simp: replace_char_eq split: if_splits)

lemma escape_brackets_set: "CHR ''['' \<notin> set (escape_brackets s)" "CHR '']'' \<notin> set (escape_brackets s)"
  by (auto simp: escape_brackets_def replace_char_eq split: if_splits)

lemma escape_formatting_set: "CHR ''['' \<notin> set (escape_formatting s)" "CHR '']'' \<notin> set (escape_formatting s)"
  by (simp_all add: escape_formatting_def escape_brackets_set)

lemma html_text_chars: "html_text s \<Longrightarrow> CHR ''<'' \<notin> set s \<and> CHR ''>'' \<notin> set s \<and> CHR '' '' \<notin> set s \<and> CHR 0x09 \<notin> set s"
  by (induction s) auto

lemma escape_formatting_chars:
  "c \<in> {CHR ''<'', CHR ''>'', CHR '' '', CHR 0x09, CHR ''['', CHR '']''} \<Longrightarrow> c \<notin> set (escape_formatting s)"
  using html_text_chars [OF html_text_encode [of s]] escape_formatting_set [of s]
  by (auto simp: escape_formatting_def escape_brackets_def replace_char_eq split: if_splits)

lemma lit2: "Lit [a, b] = Seq (Chr a) (Chr b)"
  by simp

lemma no_open_bracket:
  assumes "CHR ''['' \<notin> set s"
  shows "ms (Seq (Lit ''[['') r) s (i, c) = []"
  using assms by (auto simp: lit2 Chr_def in_set_conv_nth)

lemma ms_Grp_none: "ms r s x = [] \<Longrightarrow> ms (Grp n r) s x = []"
  by simp

lemma format_split_plain: "CHR ''['' \<notin> set s \<Longrightarrow> format_split s = [Some s]"
  unfolding format_split_def format_split_re_def
  by (rule split_re_none) (rule ms_Grp_none [OF no_open_bracket])

lemma ms_LitI_nth:
  "ms (LitI w) s (i, c) \<noteq> [] \<Longrightarrow> k < length w \<Longrightarrow> i + k < length s \<and> lower_char (s ! (i + k)) = lower_char (w ! k)"
proof (induction w arbitrary: i k)
  case (Cons a w)
  then have "i < length s" "lower_char (s ! i) = lower_char a" "ms (LitI w) s (Suc i, c) \<noteq> []"
    by (auto split: if_splits)
  with Cons.IH [of "Suc i" "k - 1"] Cons.prems(2) show ?case by (cases k) auto
qed simp

lemma lower_char_not_alpha: "lower_char x = c \<Longrightarrow> \<not> alpha_char c \<Longrightarrow> x = c"
  by (cases "CHR ''A'' \<le> x \<and> x \<le> CHR ''Z''") (auto simp: lower_char_def alpha_char_def less_eq_char_def)

lemma lower_consts: "lower_char CHR ''<'' = CHR ''<''" "lower_char CHR ''b'' = CHR ''b''" "\<not> alpha_char CHR ''<''"
  by (simp_all add: lower_char_def alpha_char_def less_eq_char_def)

lemma span_br_none:
  assumes "CHR ''<'' \<notin> set s"
  shows "ms re_br (''<span>'' @ s @ ''</span>'') (i, c) = []"
proof -
  let ?t = "''<span>'' @ s @ ''</span>''"
  have "ms (LitI ''<span><br'') ?t (i, c) = []"
  proof (rule ccontr)
    assume "ms (LitI ''<span><br'') ?t (i, c) \<noteq> []"
    note l = ms_LitI_nth [OF this]
    have m: "i + 7 < length ?t" "?t ! i = CHR ''<''" "?t ! (i + 6) = CHR ''<''" "lower_char (?t ! (i + 7)) = CHR ''b''"
      using l [of 0] l [of 6] l [of 7] lower_char_not_alpha [of _ "CHR ''<''"] by (simp_all add: lower_consts)
    have pos: "k = 0 \<or> k = 6 + length s" if "k < length ?t" "?t ! k = CHR ''<''" for k
    proof (rule ccontr)
      assume k: "\<not> (k = 0 \<or> k = 6 + length s)"
      show False
      proof (cases "6 \<le> k \<and> k < 6 + length s")
        case True
        then have "k - 6 < length s" by arith
        with True have "?t ! k = s ! (k - 6)" "s ! (k - 6) \<in> set s" by (simp_all add: nth_append numeral_eq_Suc)
        with that(2) assms show False by simp
      next
        case False
        have "?t ! k \<noteq> CHR ''<''" if "k \<in> {1, 2, 3, 4, 5}" using that by auto
        moreover have "?t ! k \<noteq> CHR ''<''" if "6 + length s < k" "k < 13 + length s"
        proof -
          define d where "d = k - (6 + length s)"
          then have "k = 6 + length s + d" "d \<in> {1, 2, 3, 4, 5, 6}" using that by auto
          then show ?thesis by (auto simp: nth_append)
        qed
        moreover have "k < 13 + length s" using that(1) by simp
        then have "k \<in> {1, 2, 3, 4, 5} \<or> (6 + length s < k \<and> k < 13 + length s)"
          using False k by auto
        ultimately show False using that(2) by blast
      qed
    qed
    have "i = 0 \<or> i = 6 + length s" "i + 6 = 6 + length s"
      using pos [of i] pos [of "i + 6"] m by auto
    then have "i = 0" "s = []" by auto
    with m(4) have "lower_char CHR ''/'' = CHR ''b''" by simp
    then show False by (simp add: lower_char_def less_eq_char_def)
  qed
  then show ?thesis unfolding re_br_def by (rule ms_Seq_none)
qed

text \<open>
  C11: escaped text has no formatting, is rendered as it is in one element, and cannot open or close
  an element.
\<close>

theorem escape_formatting_verbatim:
  "\<not> have_formatting (JStr (escape_formatting s)) \<and>
   format_html (JStr (escape_formatting s)) opts = ''<span>'' @ escape_formatting s @ ''</span>'' \<and>
   (\<forall>c\<in>{CHR ''<'', CHR ''>'', CHR '' '', CHR ''['', CHR '']''}. c \<notin> set (escape_formatting s))"
proof -
  let ?e = "escape_formatting s"
  have b: "CHR ''['' \<notin> set ?e" "CHR ''<'' \<notin> set ?e"
    by (rule escape_formatting_chars; simp)+
  have "re_test format_re ?e = False"
    unfolding format_re_def by (rule replace_all_none) (rule no_open_bracket [OF b(1)])
  moreover have "replace_all re_br (\<lambda>_. ''<br/>'') (''<span>'' @ ?e @ ''</span>'') = ''<span>'' @ ?e @ ''</span>''"
    by (rule replace_all_none) (rule span_br_none [OF b(2)])
  ultimately show ?thesis
    using escape_formatting_chars [of _ s] by (simp add: format_split_plain [OF b(1)] Let_def)
qed

theorem escape_formatting_verbatim_witness:
  "CHR ''['' \<notin> set (escape_formatting ''[[b;;]<x>]'')"
  using escape_formatting_verbatim [of "''[[b;;]<x>]''"] by simp

end
