(* ===== verification/Cmd_View.thy ===== *)
theory Cmd_View
  imports Cmd_Run Text_Laws
begin

text \<open>
  What \<open>redraw\<close> puts on the page: the command cut into lines of \<open>num_chars\<close> characters, the first one shorter by
  the prompt, and the cursor in one of them. The view holds the texts; \<open>view_html\<close> has them as the
  code inserts them, through \<open>encode\<close>. The character under the cursor is \<^const>\<open>None\<close> for
  the blank that stands behind the last character.
\<close>

section \<open>str_parts\<close>

text \<open>The loop does not end for a length of 0, so it is a partial function.\<close>

partial_function (option) str_parts_from :: "string \<Rightarrow> int \<Rightarrow> int \<Rightarrow> string list js" where
  "str_parts_from str n i =
     (if i < int (length str)
      then bind_js (str_parts_from str n (i + n)) (\<lambda>ps. ret (substring str i (i + n) # ps))
      else ret [])"

declare str_parts_from.simps [code]

definition str_parts :: "string \<Rightarrow> int \<Rightarrow> string list js" where
  "str_parts str n =
     (if int (length str) < n then ret [str]
      else if n < 0 then throw (Throw ''str_parts: length can't be negative'')
      else str_parts_from str n 0)"

section \<open>The lines\<close>

text \<open>
  The replacement text of \<open>replace\<close>: in \<open>t\<close> the signs \<open>$$\<close>, \<open>$&\<close>, \<open>$`\<close> and \<open>$'\<close> stand for a dollar, the match,
  and the text before and after it.
\<close>

fun expand_dollars :: "string \<Rightarrow> string \<Rightarrow> string \<Rightarrow> string \<Rightarrow> string" where
  "expand_dollars bef m aft (c # d # t) =
     (if c = CHR ''$'' \<and> d = CHR ''$'' then CHR ''$'' # expand_dollars bef m aft t
      else if c = CHR ''$'' \<and> d = CHR ''&'' then m @ expand_dollars bef m aft t
      else if c = CHR ''$'' \<and> d = CHR 0x60 then bef @ expand_dollars bef m aft t
      else if c = CHR ''$'' \<and> d = CHR 0x27 then aft @ expand_dollars bef m aft t
      else c # expand_dollars bef m aft (d # t))"
| "expand_dollars bef m aft t = t"

definition re_dot :: re where
  "re_dot = none_of [CHR 0x0A, CHR 0x0D]"

definition masked :: "mask \<Rightarrow> string \<Rightarrow> string" where
  "masked m c =
     (case m of
        MaskBool b \<Rightarrow> (if b then replace_all re_dot (\<lambda>_. ''*'') c else c)
      | MaskStr t \<Rightarrow>
          replace_all re_dot (\<lambda>f. expand_dollars (take (fst f) c) (found_text c f) (drop (fst (snd f)) c) t) c)"

text \<open>\<open>first_len\<close> is \<open>num_chars - prompt_len\<close>, less one when there are new lines.\<close>

definition get_splited_command_line :: "string \<Rightarrow> int \<Rightarrow> int \<Rightarrow> string list js" where
  "get_splited_command_line str chars plen =
     bind_js (str_parts (substring_from str (chars - plen)) chars)
       (\<lambda>ps. ret (substring str 0 (chars - plen) # ps))"

fun add_spaces :: "string list \<Rightarrow> string list" where
  "add_spaces [] = []"
| "add_spaces [t] = [t]"
| "add_spaces (t # u # ts) = (t @ '' '') # add_spaces (u # ts)"

fun rest_lines :: "int \<Rightarrow> string list \<Rightarrow> string list js" where
  "rest_lines chars [] = ret []"
| "rest_lines chars (t # ts) =
     bind_js (if int (length t) > chars then str_parts t chars else ret [t])
       (\<lambda>ps. bind_js (rest_lines chars ts) (\<lambda>qs. ret (ps @ qs)))"

definition newline_lines :: "string \<Rightarrow> int \<Rightarrow> int \<Rightarrow> string list js" where
  "newline_lines str chars plen =
     (case add_spaces (split_char CHR 0x0A str) of
        [] \<Rightarrow> ret []
      | t # ts \<Rightarrow>
          (let first_len = chars - plen - 1
           in bind_js (if int (length t) > first_len
                       then bind_js (str_parts (substring_from t first_len) chars)
                              (\<lambda>ps. ret (substring t 0 first_len # ps))
                       else ret [t])
                (\<lambda>ps. bind_js (rest_lines chars ts) (\<lambda>qs. ret (ps @ qs)))))"

definition nul4 :: string where "nul4 = replicate 4 CHR 0x00"

definition tab_count :: "string \<Rightarrow> nat" where
  "tab_count str = length (filter (\<lambda>c. c = CHR 0x09) str)"

definition command_lines :: "string \<Rightarrow> int \<Rightarrow> int \<Rightarrow> string list js" where
  "command_lines str chars plen =
     (let tabs = tab_count str > 0;
          str = (if tabs then replace_char CHR 0x09 nul4 str else str)
      in bind_js (if CHR 0x0A \<in> set str then newline_lines str chars plen
                  else get_splited_command_line str chars plen)
           (\<lambda>ls. ret (if tabs then map (replace_all (Lit nul4) (\<lambda>_. [CHR 0x09])) ls else ls)))"

section \<open>The view\<close>

record view =
  above :: "string list"
  before_text :: string
  cursor_text :: "string option"
  after_text :: string
  below :: "string list"

definition blank_view :: view where
  "blank_view = \<lparr>above = [], before_text = '''', cursor_text = None, after_text = '''', below = []\<rparr>"

definition draw_cursor_line :: "string \<Rightarrow> int \<Rightarrow> view \<Rightarrow> view" where
  "draw_cursor_line str p v =
     (if p = int (length str) then v\<lparr>before_text := str, cursor_text := None, after_text := ''''\<rparr>
      else if p = 0 then
        v\<lparr>before_text := '''', cursor_text := Some (slice str 0 1), after_text := slice_from str 1\<rparr>
      else
        v\<lparr>before_text := slice str 0 p, cursor_text := Some (slice str p (p + 1)),
          after_text := (if p = int (length str) - 1 then '''' else slice_from str (p + 1))\<rparr>)"

text \<open>\<open>draw_cursor_line(array[i], p)\<close>: it reads the length of \<open>array[i]\<close> first.\<close>

definition draw_line_at :: "string list \<Rightarrow> int \<Rightarrow> int \<Rightarrow> view \<Rightarrow> view js" where
  "draw_line_at ls i p v =
     (case at ls i of None \<Rightarrow> throw TypeError | Some l \<Rightarrow> ret (draw_cursor_line l p v))"

definition set_lines :: "string list \<Rightarrow> string list \<Rightarrow> view \<Rightarrow> view" where
  "set_lines ups downs v = v\<lparr>above := ups, below := downs\<rparr>"

text \<open>The loop over the lines: the index of the line it stops at and what is left of the position.\<close>

fun find_line :: "string list \<Rightarrow> int \<Rightarrow> nat \<times> int" where
  "find_line [] p = (0, p)"
| "find_line (l # ls) p =
     (if p > int (length l) then (let (i, q) = find_line ls (p - int (length l)) in (Suc i, q)) else (0, p))"

definition draw_middle :: "string list \<Rightarrow> int \<Rightarrow> view \<Rightarrow> view js" where
  "draw_middle ls p v =
     (let (i, q) = find_line ls p
      in (case at ls (int i) of
            None \<Rightarrow> throw TypeError
          | Some l \<Rightarrow>
              (let j = (if q = int (length l) then i + 1 else i); q = (if q = int (length l) then 0 else q)
               in bind_js (draw_line_at ls (int j) q v)
                    (\<lambda>v. ret (set_lines (take j ls) (drop (j + 1) ls) v)))))"

text \<open>\<open>len\<close> is the length of the text with four characters for a tabulator.\<close>

definition draw_lines :: "string list \<Rightarrow> int \<Rightarrow> int \<Rightarrow> int \<Rightarrow> view \<Rightarrow> view js" where
  "draw_lines ls p len tabs_rm v =
     (case ls of
        [] \<Rightarrow> throw TypeError
      | l0 # rest \<Rightarrow>
          (let first_len = int (length l0)
           in if first_len = 0 \<and> rest = [] then ret v
              else if p < first_len then ret (set_lines [] rest (draw_cursor_line l0 p v))
              else if p = first_len then
                bind_js (draw_line_at ls 1 0 v) (\<lambda>v. ret (set_lines [l0] (drop 2 ls) v))
              else
                (let lst = last ls; from_last = len - p - tabs_rm; last_len = int (length lst)
                 in if from_last \<le> last_len then
                      ret (set_lines (butlast ls) [] (draw_cursor_line lst (last_len - from_last) v))
                    else if length ls = 3 then
                      ret (set_lines [l0] [lst] (draw_cursor_line (ls ! 1) (p - first_len - 1) v))
                    else draw_middle ls p v)))"

definition redraw :: "view \<Rightarrow> cmd \<Rightarrow> view js" where
  "redraw prev s =
     (let str = masked (mask s) (command s);
          v = prev\<lparr>above := [], below := [], before_text := ''''\<rparr>
      in if int (length str) > num_chars s - prompt_len s - 1 \<or> CHR 0x0A \<in> set str then
           bind_js (command_lines str (num_chars s) (prompt_len s))
             (\<lambda>ls. let tabs_rm = 3 * int (tab_count str)
                   in draw_lines ls (position s) (int (length str) + tabs_rm) tabs_rm v)
         else if str = '''' then ret (v\<lparr>before_text := '''', cursor_text := None, after_text := ''''\<rparr>)
         else ret (draw_cursor_line str (position s) v))"

definition line_html :: "string \<Rightarrow> string" where
  "line_html l = ''<div>'' @ encode l @ ''</div>''"

definition view_html :: "view \<Rightarrow> string list \<times> string \<times> string \<times> string \<times> string list" where
  "view_html v =
     (map line_html (above v), encode (before_text v),
      (case cursor_text v of None \<Rightarrow> ''&nbsp;'' | Some c \<Rightarrow> encode c), encode (after_text v),
      map encode (below v))"


section \<open>The parts of a text\<close>

lemma str_parts_from_ok:
  assumes "0 < n" "0 \<le> i"
  shows "\<exists>ps. str_parts_from s n i = ret ps \<and> concat ps = drop (nat i) s \<and> (\<forall>p\<in>set ps. int (length p) \<le> n)
    \<and> (i < int (length s) \<longrightarrow> ps \<noteq> [])"
  using assms(2)
proof (induction "nat (int (length s) - i)" arbitrary: i rule: less_induct)
  case less
  show ?case
  proof (cases "i < int (length s)")
    case True
    with assms(1) less.prems obtain ps where ps: "str_parts_from s n (i + n) = ret ps"
      "concat ps = drop (nat (i + n)) s" "\<forall>p\<in>set ps. int (length p) \<le> n"
      using less.hyps [of "i + n"] by auto
    have e: "substring s i (i + n) = take (nat n) (drop (nat i) s)"
      using assms(1) less.prems by (simp add: js_index)
    have "nat (i + n) = nat n + nat i" using assms(1) less.prems by simp
    then have "take (nat n) (drop (nat i) s) @ drop (nat (i + n)) s = drop (nat i) s"
      by (metis append_take_drop_id drop_drop)
    with True ps e assms(1) show ?thesis by (subst str_parts_from.simps) auto
  next
    case False
    then show ?thesis by (subst str_parts_from.simps) auto
  qed
qed

lemma str_parts_ok:
  assumes "0 < n"
  shows "\<exists>ps. str_parts s n = ret ps \<and> concat ps = s \<and> ps \<noteq> [] \<and> (\<forall>p\<in>set ps. int (length p) \<le> n)"
  using str_parts_from_ok [OF assms, of 0 s] assms by (auto simp: str_parts_def)

lemma str_parts_returns:
  "str_parts s n \<noteq> None \<longleftrightarrow> n \<noteq> 0 \<or> s = []"
proof (cases "n = 0")
  case True
  have loop: "str_parts_from s 0 i = None" if "i < int (length s)" for i
  proof (rule ccontr)
    assume "str_parts_from s 0 i \<noteq> None"
    then obtain r where r: "str_parts_from s 0 i = Some r" by auto
    have "i < int (length s) \<longrightarrow> n = 0 \<longrightarrow> False" if "str_parts_from s n i = Some r" for s n i r
      using that
    proof (induction rule: str_parts_from.raw_induct [rotated, consumes 1, case_names step])
      case (step f s n i r)
      show ?case
      proof (intro impI)
        assume a: "i < int (length s)" "n = 0"
        with step(2) obtain y where "f s 0 i = Some y"
          by (cases "f s 0 i") (simp_all add: bind_js_def)
        with step(1) a show False by blast
      qed
    qed
    with r that show False by blast
  qed
  show ?thesis
  proof (cases "s = []")
    case True
    then show ?thesis by (simp add: str_parts_def str_parts_from.simps ret_def throw_def)
  next
    case False
    with \<open>n = 0\<close> loop [of 0] show ?thesis by (simp add: str_parts_def)
  qed
next
  case False
  then show ?thesis using str_parts_ok [of n s] by (cases "0 < n") (auto simp: str_parts_def ret_def throw_def)
qed

text \<open>
  C39: for a positive length the parts are the text again and none is longer than the length; for
  length 0 the loop runs for ever on a text that is not empty.
\<close>

theorem str_parts_terminates:
  "(str_parts s n \<noteq> None \<longleftrightarrow> n \<noteq> 0 \<or> s = []) \<and>
   (0 < n \<longrightarrow> (\<exists>ps. str_parts s n = Some (Inr ps) \<and> concat ps = s \<and> (\<forall>p\<in>set ps. int (length p) \<le> n)))"
  using str_parts_returns [of s n] str_parts_ok [of n s] unfolding ret_def by blast

theorem str_parts_terminates_witness:
  "str_parts ''abc'' 0 = None \<and> (\<exists>ps. str_parts ''abc'' 2 = Some (Inr ps) \<and> concat ps = ''abc'')"
  using str_parts_terminates [of "''abc''" 0] str_parts_terminates [of "''abc''" 2] by auto

section \<open>The lines are the command\<close>

definition nl_space :: "char \<Rightarrow> char" where
  "nl_space c = (if c = CHR 0x0A then CHR '' '' else c)"

lemma concat_add_spaces: "concat (add_spaces (split_char CHR 0x0A s)) = map nl_space s"
proof (induction s)
  case (Cons c s)
  obtain p ps where ps: "split_char CHR 0x0A s = p # ps" by (cases "split_char CHR 0x0A s") auto
  show ?case
  proof (cases "c = CHR 0x0A")
    case True
    with Cons ps show ?thesis by (simp add: nl_space_def)
  next
    case False
    with Cons ps show ?thesis by (cases ps) (simp_all add: nl_space_def)
  qed
qed simp

lemma length_add_spaces [simp]: "length (add_spaces ts) = length ts"
  by (induction ts rule: add_spaces.induct) simp_all

lemma length_split_char: "length (split_char c s) = Suc (length (filter (\<lambda>x. x = c) s))"
  by (induction s) (auto split: list.splits)

lemma map_nl_space_id: "CHR 0x0A \<notin> set s \<Longrightarrow> map nl_space s = s"
  by (induction s) (auto simp: nl_space_def)

definition fits :: "int \<Rightarrow> string list \<Rightarrow> bool" where
  "fits n ls \<longleftrightarrow> (\<forall>l\<in>set ls. int (length l) \<le> n)"

lemma fits_simps [simp]:
  "fits n []" "fits n (l # ls) \<longleftrightarrow> int (length l) \<le> n \<and> fits n ls" "fits n (ls @ qs) \<longleftrightarrow> fits n ls \<and> fits n qs"
  by (auto simp: fits_def)

lemma rest_lines_ok:
  assumes "0 < n"
  shows "\<exists>ls. rest_lines n ts = ret ls \<and> concat ls = concat ts \<and> fits n ls \<and> length ts \<le> length ls"
proof (induction ts)
  case (Cons t ts)
  then obtain ls where ls: "rest_lines n ts = ret ls" "concat ls = concat ts" "fits n ls" "length ts \<le> length ls" by blast
  from str_parts_ok [OF assms, of t] obtain ps where
    ps: "str_parts t n = ret ps" "concat ps = t" "ps \<noteq> []" "fits n ps" by (auto simp: fits_def)
  from ps(3) have "1 \<le> length ps" by (cases ps) auto
  with ps ls show ?case by (cases "int (length t) > n") auto
qed simp

lemma newline_lines_ok:
  assumes "0 < n" "0 \<le> plen" "CHR 0x0A \<in> set s"
  shows "\<exists>l ls. newline_lines s n plen = ret (l # ls) \<and> concat (l # ls) = map nl_space s \<and> ls \<noteq> []
    \<and> int (length l) \<le> max 0 (n - plen - 1) \<and> fits n ls"
proof -
  obtain t ts where t: "add_spaces (split_char CHR 0x0A s) = t # ts"
    by (cases "add_spaces (split_char CHR 0x0A s)") (auto dest: arg_cong [where f = length] simp: length_split_char)
  have "filter (\<lambda>x. x = CHR 0x0A) s \<noteq> []" using assms(3) by (auto simp: filter_empty_conv)
  with arg_cong [OF t, of length] have ts: "ts \<noteq> []" by (auto simp: length_split_char)
  from rest_lines_ok [OF assms(1), of ts] obtain ls where
    ls: "rest_lines n ts = ret ls" "concat ls = concat ts" "fits n ls" "length ts \<le> length ls" by blast
  have c: "t @ concat ls = map nl_space s" using concat_add_spaces [of s] t ls by simp
  from ts ls(4) have lsn: "ls \<noteq> []" by (cases ts) auto
  define k where "k = n - plen - 1"
  show ?thesis
  proof (cases "int (length t) > k")
    case False
    with t ls c lsn show ?thesis by (auto simp: newline_lines_def k_def [symmetric] Let_def)
  next
    case True
    from str_parts_ok [OF assms(1), of "substring_from t k"] obtain ps where
      ps: "str_parts (substring_from t k) n = ret ps" "concat ps = substring_from t k" "ps \<noteq> []" "fits n ps"
      by (auto simp: fits_def)
    have "substring t 0 k @ substring_from t k = t" "int (length (substring t 0 k)) \<le> max 0 k"
      by (auto simp: substring_def substring_from_def clamp_def Let_def)
    moreover from this(1) c have "substring t 0 k @ substring_from t k @ concat ls = map nl_space s"
      by (metis append_assoc)
    ultimately show ?thesis using True t ls ps lsn by (auto simp: newline_lines_def k_def [symmetric] Let_def)
  qed
qed

lemma command_lines_ok:
  assumes "0 < n" "0 \<le> plen" "CHR 0x09 \<notin> set s"
  shows "\<exists>l ls. command_lines s n plen = ret (l # ls) \<and> concat (l # ls) = map nl_space s \<and> ls \<noteq> []
    \<and> int (length l) \<le> max 0 (n - plen) \<and> fits n ls"
proof -
  have t: "\<not> tab_count s > 0" using assms(3) by (auto simp: tab_count_def filter_empty_conv)
  show ?thesis
  proof (cases "CHR 0x0A \<in> set s")
    case True
    with newline_lines_ok [OF assms(1,2) True] t show ?thesis by (auto simp: command_lines_def)
  next
    case False
    from str_parts_ok [OF assms(1), of "substring_from s (n - plen)"] obtain ps where
      ps: "str_parts (substring_from s (n - plen)) n = ret ps" "concat ps = substring_from s (n - plen)" "ps \<noteq> []" "fits n ps"
      by (auto simp: fits_def)
    have "substring s 0 (n - plen) @ substring_from s (n - plen) = s" "int (length (substring s 0 (n - plen))) \<le> max 0 (n - plen)"
      by (auto simp: substring_def substring_from_def clamp_def Let_def)
    with ps False t show ?thesis
      by (auto simp: command_lines_def get_splited_command_line_def map_nl_space_id)
  qed
qed

section \<open>The cursor is where it is\<close>

definition shown :: "view \<Rightarrow> string" where
  "shown v = concat (above v) @ before_text v @ (case cursor_text v of None \<Rightarrow> '''' | Some c \<Rightarrow> c) @ after_text v
     @ concat (below v)"

definition cursor_at :: "view \<Rightarrow> int" where
  "cursor_at v = int (length (concat (above v) @ before_text v))"

lemma draw_cursor_line_ok:
  assumes "0 \<le> p" "p \<le> int (length l)"
  shows "shown (set_lines us ds (draw_cursor_line l p v)) = concat us @ l @ concat ds"
    "cursor_at (set_lines us ds (draw_cursor_line l p v)) = int (length (concat us)) + p"
proof -
  define k where "k = nat p"
  have k: "p = int k" "k \<le> length l" using assms by (simp_all add: k_def)
  have j: "take k l @ take 1 (drop k l) @ drop (Suc k) l = l"
    by (metis One_nat_def append_take_drop_id drop_drop plus_1_eq_Suc add.commute)
  have e: "drop (Suc k) l = []" if "Suc k = length l" using that by simp
  have l: "nat (int k + 1) = Suc k" by simp
  have d1: "drop (Suc 0) l = drop 1 l" "take 1 l @ drop 1 l = l" by simp_all
  show "shown (set_lines us ds (draw_cursor_line l p v)) = concat us @ l @ concat ds"
    using k j e d1 by (auto simp: shown_def set_lines_def draw_cursor_line_def js_index l)
  show "cursor_at (set_lines us ds (draw_cursor_line l p v)) = int (length (concat us)) + p"
    using k by (auto simp: cursor_at_def set_lines_def draw_cursor_line_def js_index)
qed

lemma find_line_ok:
  assumes "0 \<le> p" "p \<le> int (length (concat ls))" "ls \<noteq> []" "find_line ls p = (i, q)"
  shows "i < length ls \<and> int (length (concat (take i ls))) + q = p \<and> 0 \<le> q \<and> q \<le> int (length (ls ! i))"
  using assms
proof (induction ls arbitrary: p i q)
  case (Cons l ls)
  show ?case
  proof (cases "p > int (length l)")
    case True
    with Cons.prems have ne: "ls \<noteq> []" by (cases ls) auto
    obtain j r where j: "find_line ls (p - int (length l)) = (j, r)" by force
    with Cons.IH [OF _ _ ne j] Cons.prems True show ?thesis by auto
  next
    case False
    with Cons.prems show ?thesis by auto
  qed
qed simp

lemma draw_middle_ok:
  assumes "0 \<le> p" "p < int (length (concat (butlast ls)))"
  shows "\<exists>v'. draw_middle ls p v = ret v' \<and> shown v' = concat ls \<and> cursor_at v' = p"
proof -
  have ne: "ls \<noteq> []" using assms by auto
  have cl: "concat ls = concat (butlast ls) @ last ls"
    using ne by (metis append_butlast_last_id concat.simps concat_append append_Nil2)
  obtain i q where f: "find_line ls p = (i, q)" by force
  from find_line_ok [OF assms(1) _ ne f] cl assms(2) have
    i: "i < length ls" "int (length (concat (take i ls))) + q = p" "0 \<le> q" "q \<le> int (length (ls ! i))" by auto
  define j where "j = (if q = int (length (ls ! i)) then i + 1 else i)"
  define r where "r = (if q = int (length (ls ! i)) then 0 else q)"
  have t: "concat (take (Suc i) ls) = concat (take i ls) @ ls ! i" using i(1) by (simp add: take_Suc_conv_app_nth)
  have jl: "j < length ls"
  proof (cases "q = int (length (ls ! i))")
    case True
    show ?thesis
    proof (rule ccontr)
      assume "\<not> j < length ls"
      then have "Suc i = length ls" using i(1) True by (simp add: j_def)
      then have "take i ls = butlast ls" by (simp add: butlast_conv_take flip: \<open>Suc i = length ls\<close>)
      with assms(2) i(2,3) show False by simp
    qed
  qed (use i in \<open>simp add: j_def\<close>)
  have jr: "int (length (concat (take j ls))) + r = p" "0 \<le> r" "r \<le> int (length (ls ! j))"
    using i t by (auto simp: j_def r_def)
  have a: "at ls (int j) = Some (ls ! j)" "at ls (int i) = Some (ls ! i)" using jl i(1) by (simp_all add: at_def)
  have "draw_middle ls p v = ret (set_lines (take j ls) (drop (j + 1) ls) (draw_cursor_line (ls ! j) r v))"
    using a by (simp add: draw_middle_def f Let_def draw_line_at_def j_def [symmetric] r_def [symmetric])
  moreover have "concat (take j ls) @ ls ! j @ concat (drop (j + 1) ls) = concat ls"
    using jl by (metis Cons_nth_drop_Suc Suc_eq_plus1 append_take_drop_id concat.simps(2) concat_append)
  ultimately show ?thesis using draw_cursor_line_ok [OF jr(2,3)] jr(1) by simp
qed

text \<open>The cursor in the second of three lines.\<close>

definition second_of_three :: "string list \<Rightarrow> int \<Rightarrow> bool" where
  "second_of_three ls p \<longleftrightarrow> length ls = 3 \<and> int (length (ls ! 0)) < p \<and> p < int (length (ls ! 0) + length (ls ! 1))"

lemma draw_lines_ok:
  assumes "ls \<noteq> []" "0 \<le> p" "p \<le> int (length (concat (l # ls)))"
  shows "\<exists>v'. draw_lines (l # ls) p (int (length (concat (l # ls)))) 0 v = ret v' \<and> shown v' = concat (l # ls)
    \<and> cursor_at v' = (if second_of_three (l # ls) p then p - 1 else p)"
proof -
  let ?ls = "l # ls" and ?len = "int (length (concat (l # ls)))"
  consider "p < int (length l)" | "p = int (length l)" | "int (length l) < p" by linarith
  then show ?thesis
  proof cases
    case 1
    with assms draw_cursor_line_ok [of p l "[]" ls v] show ?thesis
      by (auto simp: draw_lines_def second_of_three_def Let_def)
  next
    case 2
    obtain l1 r where r: "ls = l1 # r" using assms(1) by (cases ls) auto
    have "draw_lines ?ls p ?len 0 v = ret (set_lines [l] r (draw_cursor_line l1 0 v))"
      using 2 by (simp add: draw_lines_def r draw_line_at_def at_def Let_def)
    with 2 draw_cursor_line_ok [of 0 l1 "[l]" r v] show ?thesis
      by (simp add: second_of_three_def r)
  next
    case 3
    have cl: "concat ?ls = concat (butlast ?ls) @ last ?ls"
      by (metis append_butlast_last_id concat.simps concat_append append_Nil2 list.distinct(1))
    show ?thesis
    proof (cases "?len - p \<le> int (length (last ?ls))")
      case True
      let ?q = "int (length (last ?ls)) - (?len - p)"
      have q: "0 \<le> ?q" "?q \<le> int (length (last ?ls))" using True assms by simp_all
      have "draw_lines ?ls p ?len 0 v = ret (set_lines (butlast ?ls) [] (draw_cursor_line (last ?ls) ?q v))"
        using 3 True assms(1) by (simp add: draw_lines_def Let_def)
      moreover have "\<not> second_of_three ?ls p"
      proof
        assume "second_of_three ?ls p"
        then obtain a b where "ls = [a, b]" "p < int (length l + length a)"
          by (auto simp: second_of_three_def length_Suc_conv numeral_eq_Suc)
        with True show False by simp
      qed
      moreover have "int (length (concat (butlast ?ls))) + ?q = p"
        using arg_cong [OF cl, of "\<lambda>x. int (length x)"] by simp
      ultimately show ?thesis
        using draw_cursor_line_ok [OF q, of "butlast ?ls" "[]" v, folded cl, unfolded concat.simps(1) append_Nil2]
        by (metis cl)
    next
      case False
      then have b: "p < int (length (concat (butlast ?ls)))" using arg_cong [OF cl, of length] by simp
      show ?thesis
      proof (cases "length ?ls = 3")
        case True
        then obtain a c where ac: "ls = [a, c]" by (auto simp: length_Suc_conv numeral_eq_Suc)
        have q: "0 \<le> p - int (length l) - 1" "p - int (length l) - 1 \<le> int (length a)"
          using 3 b by (simp_all add: ac)
        have "draw_lines ?ls p ?len 0 v = ret (set_lines [l] [c] (draw_cursor_line a (p - int (length l) - 1) v))"
          using 3 False by (simp add: draw_lines_def Let_def ac)
        moreover have "second_of_three ?ls p" using 3 b by (simp add: second_of_three_def ac)
        ultimately show ?thesis using draw_cursor_line_ok [OF q, of "[l]" "[c]" v] by (simp add: ac)
      next
        case False
        with draw_middle_ok [OF assms(2) b, of v] 3 \<open>\<not> ?len - p \<le> int (length (last ?ls))\<close> assms(1)
        show ?thesis by (simp add: draw_lines_def second_of_three_def Let_def)
      qed
    qed
  qed
qed


definition three_line_cmd :: cmd where
  "three_line_cmd = (cmd_position plain_options 5 False
     (cmd_insert plain_options ''abcdefghijkl'' False some_cmd))\<lparr>num_chars := 5, prompt_len := 2\<rparr>"


end
