(* ===== verification/Cmd_Page.thy ===== *)
theory Cmd_Page
  imports Cmd_View
begin

text \<open>
  Command lines on a page: the call of the plugin, \<open>show\<close> and \<open>visible\<close>, \<open>destroy\<close>, and the accessors. An element
  is known by a number.
\<close>

record cmd_page =
  plugged :: "nat \<Rightarrow> cmd option"   \<comment> \<open>\<open>self.data('cmd')\<close>\<close>
  screens :: "nat \<Rightarrow> view"
  showing :: "nat \<Rightarrow> bool"
  cmd_listeners :: "nat list"       \<comment> \<open>command lines with handlers for keys on the document\<close>

text \<open>An element that is a command line already stays the one it is.\<close>

definition cmd_plugin :: "nat \<Rightarrow> js_error option \<times> cmd \<Rightarrow> cmd_page \<Rightarrow> js_error option \<times> cmd_page" where
  "cmd_plugin k made_cmd p =
     (case plugged p k of
        Some c \<Rightarrow> (None, p)
      | None \<Rightarrow>
          (case made_cmd of
             (Some e, c) \<Rightarrow> (Some e, p)
           | (None, c) \<Rightarrow> (None, p\<lparr>plugged := (plugged p)(k \<mapsto> c), cmd_listeners := cmd_listeners p @ [k]\<rparr>)))"

definition on_cmd :: "nat \<Rightarrow> (cmd \<Rightarrow> view \<Rightarrow> (cmd \<times> view) js) \<Rightarrow> cmd_page \<Rightarrow> cmd_page js" where
  "on_cmd k f p =
     (case plugged p k of
        None \<Rightarrow> throw TypeError
      | Some c \<Rightarrow> bind_js (f c (screens p k)) (\<lambda>(c, v). ret (p\<lparr>plugged := (plugged p)(k \<mapsto> c), screens := (screens p)(k := v)\<rparr>)))"

text \<open>\<open>show\<close> and \<open>visible\<close>: the element is shown, then the command is drawn, and the prompt after it.\<close>

definition cmd_show :: "options \<Rightarrow> nat \<Rightarrow> cmd_page \<Rightarrow> cmd_page js" where
  "cmd_show opts k p =
     on_cmd k (\<lambda>c v. bind_js (redraw v c) (\<lambda>v. ret (draw_prompt opts c, v))) (p\<lparr>showing := (showing p)(k := True)\<rparr>)"

text \<open>\<open>destroy\<close>: the handlers in the name space \<open>cmd\<close> go, whose they ever are.\<close>

definition cmd_destroy :: "nat \<Rightarrow> cmd_page \<Rightarrow> cmd_page" where
  "cmd_destroy k p =
     p\<lparr>cmd_listeners := [], plugged := (plugged p)(k := None), screens := (screens p)(k := blank_view)\<rparr>"

definition isenabled :: "cmd \<Rightarrow> bool" where "isenabled s = enabled s"

definition get_kill_text :: "cmd \<Rightarrow> removed" where "get_kill_text s = kill_text s"

text \<open>Calling the plugin twice is calling it once.\<close>

theorem cmd_plugin_once:
  "cmd_plugin k m p = (None, p') \<Longrightarrow> cmd_plugin k m' p' = (None, p')"
  by (auto simp: cmd_plugin_def split: option.splits prod.splits)

definition bare_page :: cmd_page where
  "bare_page = \<lparr>plugged = Map.empty, screens = (\<lambda>_. blank_view), showing = (\<lambda>_. False), cmd_listeners = []\<rparr>"

theorem cmd_plugin_once_witness:
  "\<exists>p'. cmd_plugin 0 (None, three_line_cmd) bare_page = (None, p') \<and> cmd_plugin 0 (None, three_line_cmd) p' = (None, p')"
proof -
  obtain p' where p': "cmd_plugin 0 (None, three_line_cmd) bare_page = (None, p')"
    by (simp add: cmd_plugin_def bare_page_def)
  with cmd_plugin_once [OF p'] show ?thesis by blast
qed

text \<open>Destroying one command line leaves every other one on the page without its keys.\<close>

theorem destroy_deafens:
  "cmd_listeners (cmd_destroy k p) = [] \<and> (j \<noteq> k \<longrightarrow> plugged (cmd_destroy k p) j = plugged p j)"
  by (simp add: cmd_destroy_def)

theorem destroy_deafens_witness:
  "plugged (cmd_destroy 1 (snd (cmd_plugin 0 (None, three_line_cmd) bare_page))) 0 = Some three_line_cmd \<and>
   cmd_listeners (cmd_destroy 1 (snd (cmd_plugin 0 (None, three_line_cmd) bare_page))) = []"
  using destroy_deafens [of 1 "snd (cmd_plugin 0 (None, three_line_cmd) bare_page)" 0]
  by (simp add: cmd_plugin_def bare_page_def)

end
