(* ===== verification/Split_Equal.thy ===== *)
theory Split_Equal
  imports Text_Laws
begin

text \<open>
  \<open>$.terminal.split_equal\<close>: a text with formatting is cut into lines of at most \<open>length\<close> visible characters.
  An entity and an escaped bracket count as one character, formatting counts nothing; a formatting that a cut
  falls into is closed there and opened again on the next line. The variables of the loops are the record
  \<open>cut\<close>; \<open>output\<close> is a variable of the whole function, \<open>undefined\<close> at first.
\<close>

section \<open>The formatted text\<close>

definition count_char :: "char \<Rightarrow> string \<Rightarrow> nat" where
  "count_char c s = length (filter (\<lambda>x. x = c) s)"

text \<open>The missing fields are added and the text is repeated as the fifth one.\<close>

definition add_text_field :: "found \<Rightarrow> string" where
  "add_text_field m =
     (let fmt = cap_text 1 m; txt = cap_text 2 m; k = count_char CHR '';'' fmt;
          semicolons = (if k = 2 then '';;'' else if k = 3 then '';'' else '''')
      in ''[['' @ fmt @ semicolons @
         replace_all (Chr CHR 0x0A) (\<lambda>_. [CHR 0x5C, CHR ''n''])
           (replace_all (Lit [CHR 0x5C, CHR '']'']) (\<lambda>_. ''&#93;'') txt) @ '']'' @ txt @ '']'')"

section \<open>The loop over a line\<close>

record cut =
  formatting :: bool
  in_text :: bool
  prev_format :: string
  out_text :: "string option"
  out_lines :: "string list"
  first_index :: nat
  count :: int

text \<open>The \<open>i\<close>-th capture of a match that is \<open>null\<close> throws.\<close>

definition begin_of :: "string \<Rightarrow> js_error + string" where
  "begin_of s = (case search format_begin_re s 0 of None \<Rightarrow> Inl TypeError | Some m \<Rightarrow> Inr (cap_text 1 m))"

definition end_line :: "string \<Rightarrow> nat \<Rightarrow> cut \<Rightarrow> js_error + cut" where
  "end_line line j st =
     (let out = take (Suc j - first_index st) (drop (first_index st) line);
          out' = prev_format st @ out;
          prev = (if prev_format st \<noteq> '''' \<and> CHR '']'' \<in> set out' then '''' else prev_format st);
          st = st\<lparr>first_index := Suc j, count := 0, prev_format := prev\<rparr>
      in (case match_all format_re out' of
            None \<Rightarrow> Inr (st\<lparr>out_text := Some out', out_lines := out_lines st @ [out']\<rparr>)
          | Some matched \<Rightarrow>
              (let lst = last matched
               in if at lst (int (length lst) - 1) \<noteq> Some CHR '']'' then
                    (case begin_of lst of
                       Inl e \<Rightarrow> Inl e
                     | Inr b \<Rightarrow> Inr (st\<lparr>prev_format := b, out_text := Some (out' @ '']''),
                                     out_lines := out_lines st @ [out' @ '']'']\<rparr>))
                  else if re_test format_last_re out' then
                    (case begin_of lst of
                       Inl e \<Rightarrow> Inl e
                     | Inr b \<Rightarrow>
                         (let o2 = replace_first format_last_re (\<lambda>_. '''') out'
                          in Inr (st\<lparr>prev_format := b, out_text := Some o2, out_lines := out_lines st @ [o2]\<rparr>)))
                  else Inr (st\<lparr>out_text := Some out', out_lines := out_lines st @ [out']\<rparr>))))"

definition re_entity :: re where \<comment> \<open>\<open>/^(&[^;]+;)/\<close>\<close>
  "re_entity = Seq Bol (Grp 1 (Seq (Chr CHR ''&'') (Seq (Plus (Cls (\<lambda>c. c \<noteq> CHR '';''))) (Chr CHR '';''))))"

text \<open>
  One pass of the loop body at \<open>j\<close>: the index of the next pass and the state. \<open>i\<close> is the number of the line,
  for the message.
\<close>

definition cut_char :: "int \<Rightarrow> nat \<Rightarrow> string \<Rightarrow> nat \<Rightarrow> cut \<Rightarrow> js_error + (nat \<times> cut)" where
  "cut_char n i line j st =
     (let c = line ! j;
          jlen = length line;
          finish = (\<lambda>st. if count st = n \<or> Suc j = jlen
             then (case end_line line j st of Inl e \<Rightarrow> Inl e | Inr st \<Rightarrow> Inr (Suc j, st)) else Inr (Suc j, st))
      in if c = CHR ''['' \<and> at line (int j + 1) = Some CHR ''['' then finish (st\<lparr>formatting := True\<rparr>)
         else if formatting st \<and> c = CHR '']'' then
           finish (if in_text st then st\<lparr>formatting := False, in_text := False\<rparr> else st\<lparr>in_text := True\<rparr>)
         else if (formatting st \<and> in_text st) \<or> \<not> formatting st then
           (if c = CHR ''&'' then
              (case search re_entity (drop j line) 0 of
                 None \<Rightarrow> Inl (Throw (''Unclosed html entity in line '' @ show_nat (i + 1) @ '' at char '' @ show_nat (j + 1)))
               | Some m \<Rightarrow>
                   (let ent = cap_text 1 m; k = j + length ent - 2;
                        st = (if Suc k = jlen
                              then st\<lparr>out_lines := out_lines st @
                                [(case out_text st of Some t \<Rightarrow> t | None \<Rightarrow> ''undefined'') @ ent]\<rparr> else st)
                    in Inr (Suc k, st)))
            else if c = CHR '']'' \<and> at line (int j - 1) = Some CHR 0x5C then finish (st\<lparr>count := count st - 1\<rparr>)
            else finish (st\<lparr>count := count st + 1\<rparr>))
         else finish st)"

text \<open>The loop takes at most as many passes as there are characters; \<open>fuel\<close> is that number.\<close>

fun cut_line :: "int \<Rightarrow> nat \<Rightarrow> string \<Rightarrow> nat \<Rightarrow> nat \<Rightarrow> cut \<Rightarrow> js_error + cut" where
  "cut_line n i line 0 j st = Inr st"
| "cut_line n i line (Suc fuel) j st =
     (if j < length line then
        (case cut_char n i line j st of Inl e \<Rightarrow> Inl e | Inr (k, st) \<Rightarrow> cut_line n i line fuel k st)
      else Inr st)"

fun cut_lines :: "int \<Rightarrow> nat \<Rightarrow> string list \<Rightarrow> cut \<Rightarrow> js_error + cut" where
  "cut_lines n i [] st = Inr st"
| "cut_lines n i (line # ls) st =
     (if line = '''' then cut_lines n (Suc i) ls (st\<lparr>out_lines := out_lines st @ ['''']\<rparr>)
      else (case cut_line n i line (length line) 0 (st\<lparr>first_index := 0, count := 0\<rparr>) of
              Inl e \<Rightarrow> Inl e | Inr st \<Rightarrow> cut_lines n (Suc i) ls st))"

definition split_equal :: "string \<Rightarrow> int \<Rightarrow> js_error + string list" where
  "split_equal str n =
     (case cut_lines n 0 (split_char CHR 0x0A (replace_all format_re add_text_field str))
             \<lparr>formatting = False, in_text = False, prev_format = '''', out_text = None, out_lines = [],
              first_index = 0, count = 0\<rparr> of
        Inl e \<Rightarrow> Inl e | Inr st \<Rightarrow> Inr (out_lines st))"


section \<open>Text without formatting\<close>

text \<open>The reference: the visible characters of a text, put together \<open>n\<close> at a time.\<close>

function units :: "string \<Rightarrow> string list" where
  "units [] = []"
| "units (c # t) =
     (if c = CHR ''&'' then (c # takeWhile (\<lambda>x. x \<noteq> CHR '';'') t @ '';'') # units (tl (dropWhile (\<lambda>x. x \<noteq> CHR '';'') t))
      else [c] # units t)"
  by pat_completeness auto
termination
  by (relation "measure length")
     (auto simp: less_Suc_eq_le intro: le_trans [OF diff_le_self] length_dropWhile_le)

fun fill :: "nat \<Rightarrow> string list \<Rightarrow> string list \<Rightarrow> string list" where
  "fill n acc [] = (if acc = [] then [] else [concat acc])"
| "fill n acc (u # us) =
     (if Suc (length acc) = n then concat (acc @ [u]) # fill n [] us else fill n (acc @ [u]) us)"

lemma units_entity: "CHR '';'' \<notin> set w \<Longrightarrow> units (CHR ''&'' # w @ CHR '';'' # r) = (CHR ''&'' # w @ '';'') # units r"
  by (simp add: takeWhile_before dropWhile_before)

lemma entity_name_semi: "entity_name w \<Longrightarrow> CHR '';'' \<notin> set w \<and> CHR 0x0A \<notin> set w"
proof -
  assume w: "entity_name w"
  have "\<not> alpha_char CHR 0x0A" "\<not> digit_char CHR 0x0A" by (simp_all add: alpha_char_def digit_char_def less_eq_char_def)
  with w show ?thesis by (cases w) (auto simp: entity_name_def list_all_iff)
qed

lemma html_text_units:
  "html_text s \<Longrightarrow> concat (units s) = s"
proof (induction s rule: units.induct)
  case (2 c t)
  show ?case
  proof (cases "c = CHR ''&''")
    case True
    with 2(3) obtain w r where w: "t = w @ CHR '';'' # r" "entity_name w" by (auto simp: entity_tail_iff)
    note s = entity_name_semi [OF w(2), THEN conjunct1]
    have "html_text r" using 2(3) html_text_inert [OF entity_name_inert [OF w(2)], of "CHR '';'' # r"] w(1) by simp
    with 2(1) True have "concat (units r) = r" by (simp add: w(1) dropWhile_before [OF s])
    with True show ?thesis using units_entity [OF s, of r] by (simp only: w(1)) simp
  next
    case False
    with 2 show ?thesis by simp
  qed
qed simp

text \<open>\<open>fill\<close> loses nothing, and every line but the last has \<open>n\<close> characters.\<close>

lemma concat_fill: "concat (fill n acc us) = concat acc @ concat us"
  by (induction n acc us rule: fill.induct) auto

lemma fill_lines:
  assumes "length acc < n" "\<forall>u\<in>set (acc @ us). P u"
  shows "\<forall>l\<in>set (fill n acc us). \<exists>vs. l = concat vs \<and> length vs \<le> n \<and> vs \<noteq> [] \<and> (\<forall>v\<in>set vs. P v)"
  using assms
proof (induction n acc us rule: fill.induct)
  case (1 n acc)
  then show ?case by (auto intro!: exI [of _ acc])
next
  case (2 n acc u us)
  show ?case
  proof (cases "Suc (length acc) = n")
    case True
    with 2 show ?thesis by (auto intro!: exI [of _ "acc @ [u]"])
  next
    case False
    with 2 show ?thesis by simp
  qed
qed

section \<open>The loop on such a text\<close>

definition no_brackets :: "string \<Rightarrow> bool" where
  "no_brackets s \<longleftrightarrow> CHR ''['' \<notin> set s \<and> CHR '']'' \<notin> set s"

definition plain_cut :: "cut \<Rightarrow> bool" where
  "plain_cut st \<longleftrightarrow> \<not> formatting st \<and> prev_format st = ''''"

text \<open>The end of a pass: \<open>j\<close> is the index of the last character of the unit.\<close>

definition finish_pass :: "int \<Rightarrow> string \<Rightarrow> nat \<Rightarrow> cut \<Rightarrow> cut" where
  "finish_pass n line j st =
     (if count st = n \<or> Suc j = length line
      then (let out = take (Suc j - first_index st) (drop (first_index st) line)
            in st\<lparr>first_index := Suc j, count := 0, out_text := Some out, out_lines := out_lines st @ [out]\<rparr>)
      else st)"

lemma match_all_none:
  "CHR ''['' \<notin> set s \<Longrightarrow> match_all format_re s = None"
  unfolding format_re_def by (rule replace_all_none) (rule no_open_bracket)

lemma end_line_plain:
  assumes "plain_cut st" "no_brackets line"
  shows "end_line line j st = (let out = take (Suc j - first_index st) (drop (first_index st) line)
    in Inr (st\<lparr>first_index := Suc j, count := 0, prev_format := '''', out_text := Some out, out_lines := out_lines st @ [out]\<rparr>))"
proof -
  let ?out = "take (Suc j - first_index st) (drop (first_index st) line)"
  have "CHR ''['' \<notin> set ?out" using assms(2) by (auto simp: no_brackets_def dest!: in_set_takeD in_set_dropD)
  from match_all_none [OF this] assms(1) show ?thesis
    by (simp add: end_line_def plain_cut_def Let_def)
qed

lemma cut_char_plain:
  assumes "plain_cut st" "no_brackets line" "j < length line" "line ! j \<noteq> CHR ''&''"
  shows "cut_char n i line j st = Inr (Suc j, finish_pass n line j (st\<lparr>count := count st + 1\<rparr>))"
proof -
  have "line ! j \<noteq> CHR ''[''" "line ! j \<noteq> CHR '']''" using assms(2,3) by (metis no_brackets_def nth_mem)+
  moreover have p: "plain_cut (st\<lparr>count := count st + 1\<rparr>)" using assms(1) by (simp add: plain_cut_def)
  ultimately show ?thesis
    using assms by (auto simp: cut_char_def finish_pass_def Let_def end_line_plain [OF p assms(2)] plain_cut_def)
qed

lemma cut_char_entity:
  assumes "plain_cut st" "drop j line = CHR ''&'' # w @ CHR '';'' # r" "entity_name w"
  shows "cut_char n i line j st = Inr (Suc (j + length w), st)"
proof -
  note d = drop_Cons_D [OF assms(2)]
  let ?s = "CHR ''&'' # w @ CHR '';'' # r"
  obtain a v where w: "w = a # v" using assms(3) by (cases w) (auto simp: entity_name_def)
  have s: "CHR '';'' \<notin> set w" using entity_name_semi [OF assms(3)] by simp
  have len: "length ?s = length line - j" using assms(2) by (metis length_drop)
  have star: "starts (Star (Cls (\<lambda>c. c \<noteq> CHR '';''))) ?s (2, []) (2 + length v, [])"
    by (rule starts_Star [where t = "CHR '';'' # r"]) (use s in \<open>auto simp: w list_all_iff\<close>)
  have plus: "starts (Plus (Cls (\<lambda>c. c \<noteq> CHR '';''))) ?s (1, []) (2 + length v, [])"
  proof -
    have "a \<noteq> CHR '';''" using s by (auto simp: w)
    then have "starts (Cls (\<lambda>c. c \<noteq> CHR '';'')) ?s (1, []) (2, [])"
      using starts_Cls [of 1 ?s a "v @ CHR '';'' # r" "\<lambda>c. c \<noteq> CHR '';''" "[]"] by (simp add: w numeral_2_eq_2)
    from starts_Seq [OF this star] show ?thesis unfolding Plus_def .
  qed
  have semi: "starts (Chr CHR '';'') ?s (2 + length v, []) (3 + length v, [])"
    using starts_Chr [of "2 + length v" ?s "CHR '';''" r "[]"] by (simp add: w numeral_3_eq_3)
  have "starts (Seq (Chr CHR ''&'') (Seq (Plus (Cls (\<lambda>c. c \<noteq> CHR '';''))) (Chr CHR '';''))) ?s (0, []) (3 + length v, [])"
    using starts_Seq [OF starts_Chr [of 0 ?s "CHR ''&''" "w @ CHR '';'' # r"] starts_Seq [OF _ semi]] plus by simp
  from starts_Grp [OF this, of 1] have "starts re_entity ?s (0, []) (3 + length v, [(1, CHR ''&'' # w @ '';'')])"
    unfolding re_entity_def using starts_Seq [OF starts_Bol] by (fastforce simp: w numeral_3_eq_3)
  then obtain ys where "ms re_entity ?s (0, []) = (3 + length v, [(1, CHR ''&'' # w @ '';'')]) # ys"
    by (auto simp: starts_def)
  then have "search re_entity ?s 0 = Some (0, 3 + length v, [(1, CHR ''&'' # w @ '';'')])"
    using search_here [of 0 ?s re_entity] by simp
  moreover have "Suc (j + length w) \<noteq> length line" using len d by simp
  ultimately show ?thesis
    using assms(1,2) d by (simp add: cut_char_def Let_def plain_cut_def cap_text_def found_cap_def w)
qed

lemma no_brackets_drop: "no_brackets s \<Longrightarrow> no_brackets (drop j s)"
  by (auto simp: no_brackets_def dest: in_set_dropD)

text \<open>The line so far: the units in \<open>acc\<close> since the last cut.\<close>

definition cut_at :: "int \<Rightarrow> string \<Rightarrow> nat \<Rightarrow> string list \<Rightarrow> cut \<Rightarrow> bool" where
  "cut_at n line j acc st \<longleftrightarrow> plain_cut st \<and> first_index st \<le> j \<and> j \<le> length line \<and>
     concat acc = take (j - first_index st) (drop (first_index st) line) \<and> count st = int (length acc) \<and>
     int (length acc) < n \<and> (acc = [] \<or> j < length line)"

lemma take_drop_add:
  assumes "f \<le> j" "j \<le> length s" shows "take (j + k - f) (drop f s) = take (j - f) (drop f s) @ take k (drop j s)"
proof -
  have "take (j + k - f) (drop f s) = take ((j - f) + k) (drop f s)" using assms by simp
  also have "\<dots> = take (j - f) (drop f s) @ take k (drop (j - f) (drop f s))" by (rule take_add)
  also have "drop (j - f) (drop f s) = drop j s" using assms by simp
  finally show ?thesis .
qed

lemma finish_pass_ok:
  assumes "cut_at n line j acc st" "drop j line = u @ t" "u \<noteq> []" "Suc m = j + length u"
  defines "st' \<equiv> finish_pass n line m (st\<lparr>count := count st + 1\<rparr>)"
  shows "\<exists>acc'. cut_at n line (Suc m) acc' st' \<and>
    (\<forall>us. (us = [] \<longleftrightarrow> t = []) \<longrightarrow> out_lines st' @ fill (nat n) acc' us = out_lines st @ fill (nat n) acc (u # us))"
proof -
  from assms(1) have st: "plain_cut st" "first_index st \<le> j" "j \<le> length line" "count st = int (length acc)" "int (length acc) < n"
    "concat acc = take (j - first_index st) (drop (first_index st) line)" by (auto simp: cut_at_def)
  define k where "k = Suc m"
  have ku: "k = j + length u" using assms(4) by (simp add: k_def)
  have "length line - j = length u + length t" by (metis assms(2) length_append length_drop)
  then have kt: "drop k line = t" "k \<le> length line"
    using drop_append_D [OF assms(2)] st(3) ku by simp_all
  have last: "k = length line \<longleftrightarrow> t = []" using kt by auto
  have c: "concat (acc @ [u]) = take (k - first_index st) (drop (first_index st) line)"
    using take_drop_add [OF st(2,3), of "length u"] st(6) assms(2) ku by simp
  show ?thesis
  proof (cases "count st + 1 = n \<or> k = length line")
    case True
    then have f: "st' = st\<lparr>first_index := k, count := 0, out_text := Some (concat (acc @ [u])),
        out_lines := out_lines st @ [concat (acc @ [u])]\<rparr>"
      unfolding st'_def finish_pass_def k_def [symmetric] c Let_def by auto
    have "fill (nat n) acc (u # us) = concat (acc @ [u]) # fill (nat n) [] us" if "us = [] \<longleftrightarrow> t = []" for us
      using True last that st(4,5) by (auto simp del: concat_append)
    with f st kt show ?thesis
      by (intro exI [of _ "[]"]) (auto simp: cut_at_def plain_cut_def k_def)
  next
    case False
    then have "st' = st\<lparr>count := count st + 1\<rparr>"
      unfolding st'_def finish_pass_def k_def [symmetric] by auto
    with False st kt c show ?thesis
      using ku by (intro exI [of _ "acc @ [u]"]) (auto simp: cut_at_def plain_cut_def k_def)
  qed
qed

lemma cut_line_plain:
  assumes "no_brackets line" "1 \<le> n"
  shows "cut_at n line j acc st \<Longrightarrow> html_text (drop j line) \<Longrightarrow> length line - j \<le> fuel \<Longrightarrow>
    \<exists>st'. cut_line n i line fuel j st = Inr st' \<and> plain_cut st' \<and>
      out_lines st' = out_lines st @ fill (nat n) acc (units (drop j line))"
proof (induction "length line - j" arbitrary: j acc st fuel rule: less_induct)
  case less
  show ?case
  proof (cases "j < length line")
    case False
    with less.prems(1) have "acc = []" "plain_cut st" by (auto simp: cut_at_def)
    with False show ?thesis by (cases fuel) simp_all
  next
    case True
    with less.prems(3) obtain f where f: "fuel = Suc f" by (cases fuel) auto
    define c where "c = line ! j"
    have d: "drop j line = c # drop (Suc j) line" using True by (simp add: c_def Cons_nth_drop_Suc)
    have us: "units (drop k line) = [] \<longleftrightarrow> drop k line = []" for k by (cases "drop k line") auto
    show ?thesis
    proof (cases "c = CHR ''&''")
      case False
      let ?st = "finish_pass n line j (st\<lparr>count := count st + 1\<rparr>)"
      from less.prems(1) have p: "plain_cut st" by (simp add: cut_at_def)
      have s: "cut_line n i line fuel j st = cut_line n i line f (Suc j) ?st"
        using cut_char_plain [OF p assms(1) True] False True
        unfolding f cut_line.simps(2) c_def by (simp only: if_True sum.case prod.case simp_thms)
      have "drop j line = [c] @ drop (Suc j) line" "[c] \<noteq> []" "Suc j = j + length [c]" using d by simp_all
      from finish_pass_ok [OF less.prems(1) this] obtain acc' where a: "cut_at n line (Suc j) acc' ?st"
        and o': "\<forall>us. (us = [] \<longleftrightarrow> drop (Suc j) line = []) \<longrightarrow>
          out_lines ?st @ fill (nat n) acc' us = out_lines st @ fill (nat n) acc ([c] # us)" by blast
      from o' us [of "Suc j"] have o: "out_lines ?st @ fill (nat n) acc' (units (drop (Suc j) line))
          = out_lines st @ fill (nat n) acc ([c] # units (drop (Suc j) line))" by blast
      have "html_text (drop (Suc j) line)" using less.prems(2) unfolding d by simp
      moreover have "length line - Suc j < length line - j" "length line - Suc j \<le> f"
        using True less.prems(3) f by simp_all
      ultimately obtain st' where
        "cut_line n i line f (Suc j) ?st = Inr st'" "plain_cut st'"
        "out_lines st' = out_lines ?st @ fill (nat n) acc' (units (drop (Suc j) line))"
        using less.hyps [OF _ a] by blast
      moreover have "units (drop j line) = [c] # units (drop (Suc j) line)" using False by (simp add: d)
      ultimately show ?thesis using s o by metis
    next
      case amp: True
      from less.prems(2) amp obtain w r where w: "drop (Suc j) line = w @ CHR '';'' # r" "entity_name w"
        unfolding d by (auto simp: entity_tail_iff)
      have d': "drop j line = CHR ''&'' # w @ CHR '';'' # r" using d w amp by simp
      let ?u = "CHR ''&'' # w @ '';''" and ?j = "Suc (j + length w)"
      let ?st = "finish_pass n line ?j (st\<lparr>count := count st + 1\<rparr>)"
      from less.prems(1) have p: "plain_cut st" by (simp add: cut_at_def)
      have dj: "drop ?j line = CHR '';'' # r" using drop_append_D [OF w(1)] by simp
      have j': "?j < length line" "line ! ?j = CHR '';''" "drop (Suc ?j) line = r" using drop_Cons_D [OF dj] by simp_all
      then obtain g where g: "f = Suc g" using less.prems(3) f by (cases f) auto
      have semi: "line ! ?j \<noteq> CHR ''&''" using j'(2) by simp
      have s: "cut_line n i line fuel j st = cut_line n i line g (Suc ?j) ?st"
        using True j'(1) unfolding f g cut_line.simps(2) cut_char_entity [OF p d' w(2)]
        by (simp only: if_True sum.case prod.case cut_char_plain [OF p assms(1) j'(1) semi])
      have "drop j line = ?u @ r" "?u \<noteq> []" "Suc ?j = j + length ?u" using d' by simp_all
      from finish_pass_ok [OF less.prems(1) this] obtain acc' where a: "cut_at n line (Suc ?j) acc' ?st"
        and o': "\<forall>us. (us = [] \<longleftrightarrow> r = []) \<longrightarrow>
          out_lines ?st @ fill (nat n) acc' us = out_lines st @ fill (nat n) acc (?u # us)" by blast
      from o' us [of "Suc ?j", unfolded j'(3)]
      have o: "out_lines ?st @ fill (nat n) acc' (units r) = out_lines st @ fill (nat n) acc (?u # units r)" by blast
      have "html_text r"
        using less.prems(2) html_text_inert [OF entity_name_inert [OF w(2)], of "CHR '';'' # r"] unfolding d' by simp
      then have h: "html_text (drop (Suc ?j) line)" by (simp only: j'(3))
      have "length line - Suc ?j < length line - j" "length line - Suc ?j \<le> g"
        using j'(1) less.prems(3) f g by simp_all
      from less.hyps [OF this(1) a h this(2)] obtain st' where
        "cut_line n i line g (Suc ?j) ?st = Inr st'" "plain_cut st'"
        "out_lines st' = out_lines ?st @ fill (nat n) acc' (units r)"
        unfolding j'(3) by blast
      moreover have "units (drop j line) = ?u # units r"
        unfolding d' by (rule units_entity) (use entity_name_semi [OF w(2)] in simp)
      ultimately show ?thesis using s o by metis
    qed
  qed
qed

definition line_pieces :: "int \<Rightarrow> string \<Rightarrow> string list" where
  "line_pieces n l = (if l = '''' then [''''] else fill (nat n) [] (units l))"

lemma cut_lines_plain:
  assumes "1 \<le> n"
  shows "plain_cut st \<Longrightarrow> \<forall>l\<in>set ls. html_text l \<and> no_brackets l \<Longrightarrow>
    \<exists>st'. cut_lines n i ls st = Inr st' \<and> out_lines st' = out_lines st @ concat (map (line_pieces n) ls)"
proof (induction ls arbitrary: i st)
  case (Cons l ls)
  show ?case
  proof (cases "l = []")
    case True
    have "plain_cut (st\<lparr>out_lines := out_lines st @ [[]]\<rparr>)" using Cons.prems(1) by (simp add: plain_cut_def)
    from Cons.IH [OF this, of "Suc i"] Cons.prems(2) True show ?thesis by (simp add: line_pieces_def)
  next
    case False
    let ?st = "st\<lparr>first_index := 0, count := 0\<rparr>"
    have "no_brackets l" "html_text (drop 0 l)" "length l - 0 \<le> length l" using Cons.prems(2) by simp_all
    moreover have "cut_at n l 0 [] ?st" using Cons.prems(1) assms by (simp add: cut_at_def plain_cut_def)
    ultimately obtain st1 where st1: "cut_line n i l (length l) 0 ?st = Inr st1" "plain_cut st1"
      "out_lines st1 = out_lines st @ fill (nat n) [] (units l)"
      using cut_line_plain [of l n 0 "[]" ?st "length l" i] assms by auto
    from Cons.IH [OF st1(2), of "Suc i"] Cons.prems(2) st1 False show ?thesis
      by (simp add: line_pieces_def)
  qed
qed simp

lemma split_char_prefix: "c \<notin> set u \<Longrightarrow> \<exists>q qs. split_char c (u @ r) = (u @ q) # qs"
proof (induction u)
  case Nil
  then show ?case by (cases "split_char c r") auto
next
  case (Cons x u)
  then obtain q qs where "split_char c (u @ r) = (u @ q) # qs" by auto
  with Cons.prems show ?case by auto
qed

lemma html_text_lines: "html_text s \<Longrightarrow> \<forall>l\<in>set (split_char CHR 0x0A s). html_text l"
proof (induction s)
  case (Cons c s)
  obtain p ps where ps: "split_char CHR 0x0A s = p # ps" by (cases "split_char CHR 0x0A s") auto
  show ?case
  proof (cases "c = CHR 0x0A")
    case True
    with Cons show ?thesis by simp
  next
    case False
    have "entity_tail p" if "c = CHR ''&''"
    proof -
      from Cons.prems that obtain w r where w: "s = w @ CHR '';'' # r" "entity_name w" by (auto simp: entity_tail_iff)
      define u where "u = w @ '';''"
      have u: "CHR 0x0A \<notin> set u" "s = u @ r" using entity_name_semi [OF w(2)] w(1) by (auto simp: u_def)
      from split_char_prefix [OF u(1), of r] obtain q qs where "p # ps = (u @ q) # qs" using ps u(2) by auto
      with w(2) show ?thesis by (auto simp: entity_tail_iff u_def)
    qed
    with Cons ps False show ?thesis by auto
  qed
qed simp

lemma no_brackets_lines: "no_brackets s \<Longrightarrow> \<forall>l\<in>set (split_char c s). no_brackets l"
proof -
  assume s: "no_brackets s"
  have "set l \<subseteq> set s" if "l \<in> set (split_char c s)" for l
    using that
  proof (induction s arbitrary: l)
    case (Cons a s)
    obtain p ps where ps: "split_char c s = p # ps" by (cases "split_char c s") auto
    with Cons.IH [of p] Cons.IH [of l] Cons.prems show ?case by (auto split: if_splits)
  qed simp
  with s show ?thesis by (auto simp: no_brackets_def)
qed

lemma concat_map_concat_lists: "concat (concat (map f ls)) = concat (map (\<lambda>l. concat (f l)) ls)"
  by (induction ls) simp_all

lemma split_equal_pieces:
  assumes "html_text s" "no_brackets s" "1 \<le> n"
  shows "split_equal s n = Inr (concat (map (line_pieces n) (split_char CHR 0x0A s)))"
proof -
  have r: "replace_all format_re add_text_field s = s"
    unfolding format_re_def
    by (rule replace_all_none(2)) (rule no_open_bracket, use assms(2) in \<open>simp add: no_brackets_def\<close>)
  let ?st = "\<lparr>formatting = False, in_text = False, prev_format = '''', out_text = None, out_lines = [],
     first_index = 0, count = 0\<rparr>"
  have "plain_cut ?st" by (simp add: plain_cut_def)
  from cut_lines_plain [OF assms(3) this, of "split_char CHR 0x0A s" 0]
    html_text_lines [OF assms(1)] no_brackets_lines [OF assms(2), of "CHR 0x0A"]
  show ?thesis by (auto simp: split_equal_def r)
qed



text \<open>One visible character: a character or an entity.\<close>

definition visible_unit :: "string \<Rightarrow> bool" where
  "visible_unit u \<longleftrightarrow> length u = 1 \<or> (\<exists>w. u = CHR ''&'' # w @ '';'' \<and> entity_name w)"

lemma units_visible: "html_text s \<Longrightarrow> \<forall>u\<in>set (units s). visible_unit u"
proof (induction s rule: units.induct)
  case (2 c t)
  show ?case
  proof (cases "c = CHR ''&''")
    case True
    with 2(3) obtain w r where w: "t = w @ CHR '';'' # r" "entity_name w" by (auto simp: entity_tail_iff)
    note s = entity_name_semi [OF w(2), THEN conjunct1]
    have "html_text r" using 2(3) html_text_inert [OF entity_name_inert [OF w(2)], of "CHR '';'' # r"] w(1) by simp
    with 2(1) True have "\<forall>u\<in>set (units r). visible_unit u" by (simp add: w(1) dropWhile_before [OF s])
    moreover have "visible_unit (CHR ''&'' # w @ '';'')" using w(2) by (auto simp: visible_unit_def)
    ultimately show ?thesis unfolding True w(1) units_entity [OF s] by simp
  next
    case False
    with 2 show ?thesis by (simp add: visible_unit_def)
  qed
qed simp

definition bracket_char :: "char \<Rightarrow> string" where
  "bracket_char c = (if c = CHR ''['' then ''&#91;'' else if c = CHR '']'' then ''&#93;'' else [c])"

lemma escape_brackets_eq: "escape_brackets s = concat (map bracket_char s)"
proof -
  have "escape_brackets s = concat (map (\<lambda>x. concat (map (\<lambda>x. if x = CHR '']'' then ''&#93;'' else [x])
      (if x = CHR ''['' then ''&#91;'' else [x]))) s)"
    by (simp only: escape_brackets_def replace_char_eq concat_map_concat)
  also have "\<dots> = concat (map bracket_char s)"
    by (rule arg_cong [where f = concat]) (simp add: bracket_char_def)
  finally show ?thesis .
qed

lemma entity_name_brackets: "entity_name w \<Longrightarrow> concat (map bracket_char w) = w"
proof -
  assume w: "entity_name w"
  have "\<not> alpha_char CHR ''['' \<and> \<not> digit_char CHR ''['' \<and> \<not> alpha_char CHR '']'' \<and> \<not> digit_char CHR '']''"
    by (simp add: alpha_char_def digit_char_def less_eq_char_def)
  moreover have "alpha_char c \<or> digit_char c \<or> c = CHR ''#''" if "c \<in> set w" for c
    using w that by (cases w) (auto simp: entity_name_def list_all_iff)
  ultimately have "CHR ''['' \<notin> set w" "CHR '']'' \<notin> set w" by force+
  then show ?thesis by (induction w) (auto simp: bracket_char_def)
qed

lemma bracket_chars: "bracket_char CHR ''['' = ''&#91;''" "bracket_char CHR '']'' = ''&#93;''"
  by (simp_all add: bracket_char_def)

lemma bracket_char_cases:
  "(c = CHR ''['' \<and> bracket_char c = ''&#91;'') \<or> (c = CHR '']'' \<and> bracket_char c = ''&#93;'') \<or> bracket_char c = [c]"
  by (simp add: bracket_char_def)

lemma html_text_brackets: "html_text s \<Longrightarrow> html_text (concat (map bracket_char s))"
proof (induction s)
  case (Cons c s)
  have n: "entity_name ''#91''" "entity_name ''#93''"
    by (simp_all add: entity_name_def alpha_char_def digit_char_def less_eq_char_def)
  have "entity_tail (concat (map bracket_char s))" if t: "entity_tail s"
  proof -
    from t obtain w r where w: "s = w @ CHR '';'' # r" "entity_name w" by (auto simp: entity_tail_iff)
    then have "concat (map bracket_char s) = w @ CHR '';'' # concat (map bracket_char r)"
      by (simp add: entity_name_brackets) (simp add: bracket_char_def)
    with w(2) show ?thesis by (auto simp: entity_tail_iff)
  qed
  moreover have s: "html_text (concat (map bracket_char s))" using Cons by simp
  moreover note html_text_entity [OF n(1) s] html_text_entity [OF n(2) s]
  ultimately show ?case
    using Cons.prems bracket_char_cases [of c] by (elim disjE) (simp_all add: bracket_chars)
qed simp

lemma html_text_escape: "html_text (escape_formatting s)"
  unfolding escape_formatting_def escape_brackets_eq by (rule html_text_brackets [OF html_text_encode])

text \<open>
  C29: whatever the text, once it is escaped it is cut without an error, every line has at most \<open>n\<close> visible
  characters, and the lines together are the escaped text without its new lines.
\<close>

theorem escaped_lines_fit:
  assumes "1 \<le> n"
  shows "\<exists>ls. split_equal (escape_formatting s) n = Inr ls \<and>
    concat ls = concat (split_char CHR 0x0A (escape_formatting s)) \<and>
    (\<forall>l\<in>set ls. \<exists>us. l = concat us \<and> int (length us) \<le> n \<and> (\<forall>u\<in>set us. visible_unit u))"
proof -
  let ?e = "escape_formatting s" and ?ls = "split_char CHR 0x0A (escape_formatting s)"
  have b: "no_brackets ?e" by (simp add: no_brackets_def escape_formatting_set)
  have h: "\<forall>l\<in>set ?ls. html_text l" by (rule html_text_lines [OF html_text_escape])
  have c: "concat (line_pieces n l) = l" if "l \<in> set ?ls" for l
    using h that by (simp add: line_pieces_def concat_fill html_text_units)
  have p: "\<exists>us. k = concat us \<and> int (length us) \<le> n \<and> (\<forall>u\<in>set us. visible_unit u)"
    if "l \<in> set ?ls" "k \<in> set (line_pieces n l)" for l k
  proof (cases "l = []")
    case True
    with that(2) assms show ?thesis by (intro exI [of _ "[]"]) (simp add: line_pieces_def)
  next
    case False
    have "\<forall>l\<in>set (fill (nat n) [] (units l)). \<exists>vs. l = concat vs \<and> length vs \<le> nat n \<and> vs \<noteq> [] \<and> (\<forall>v\<in>set vs. visible_unit v)"
      by (rule fill_lines) (use assms units_visible h that(1) in auto)
    with that(2) False obtain vs where "k = concat vs" "length vs \<le> nat n" "\<forall>v\<in>set vs. visible_unit v"
      by (auto simp: line_pieces_def)
    with assms show ?thesis by (intro exI [of _ vs]) auto
  qed
  have "concat (concat (map (line_pieces n) ?ls)) = concat (map (\<lambda>l. concat (line_pieces n l)) ?ls)"
    by (simp add: concat_map_concat_lists)
  also have "\<dots> = concat ?ls" using c by (simp cong: map_cong)
  finally have "concat (concat (map (line_pieces n) ?ls)) = concat ?ls" .
  with split_equal_pieces [OF html_text_escape b assms] p show ?thesis by auto
qed

theorem escaped_lines_fit_witness:
  "\<exists>ls. split_equal (escape_formatting ''[a] < b'') 3 = Inr ls \<and> (\<forall>l\<in>set ls. \<exists>us. l = concat us \<and> int (length us) \<le> 3)"
proof -
  have "(1::int) \<le> 3" by simp
  from escaped_lines_fit [OF this, of "''[a] < b''"] show ?thesis by blast
qed

end
