(* ===== verification/Arguments.thy ===== *)
theory Arguments
  imports Text_Laws "HOL-Library.Sublist"
begin

text \<open>
  The command line as a program sees it: \<open>parse_arguments\<close> and \<open>split_arguments\<close> cut it into
  arguments with the one expression \<open>command_re\<close>, and \<open>process_command\<close> takes the first as the name
  of the command. An argument is a text, a regular expression, or a number; a number with a fraction
  is kept as its text. Whether the engine accepts a pattern with its flags is the parameter
  \<open>regexp_ok\<close>.
\<close>

datatype arg = ArgStr string | ArgRegex string string | ArgInt int | ArgFloat string

definition bsl :: char where "bsl = CHR 0x5C"
definition dq :: char where "dq = CHR 0x22"
definition sq :: char where "sq = CHR 0x27"

text \<open>
  \<open>/('[^']*'|"(\\"|[^"])*"|(?:\/(\\\/|[^\/])+\/[gimy]*)(?=:? |$)|(\\ |[^ ])+|[\w-]+)/gi\<close>; its captures
  are not read.
\<close>

definition re_single :: re where
  "re_single = Seq (Chr sq) (Seq (Star (Cls (\<lambda>c. c \<noteq> sq))) (Chr sq))"

definition re_double :: re where
  "re_double = Seq (Chr dq) (Seq (Star (Alt (Lit [bsl, dq]) (Cls (\<lambda>c. c \<noteq> dq)))) (Chr dq))"

definition re_slashes :: re where
  "re_slashes = Seq (Chr CHR ''/'') (Seq (Plus (Alt (Lit [bsl, CHR ''/'']) (Cls (\<lambda>c. c \<noteq> CHR ''/''))))
     (Seq (Chr CHR ''/'') (Seq (Star (one_of ''gimyGIMY''))
       (Ahead (Alt (Seq (Opt (Chr CHR '':'')) (Chr CHR '' '')) Eol)))))"

definition re_word :: re where
  "re_word = Plus (Alt (Lit [bsl, CHR '' '']) (Cls (\<lambda>c. c \<noteq> CHR '' '')))"

definition command_re :: re where
  "command_re = Alt re_single (Alt re_double (Alt re_slashes (Alt re_word
     (Plus (Cls (\<lambda>c. word_char c \<or> c = CHR ''-''))))))"

definition float_re :: re where \<comment> \<open>\<open>/^[-+]?[0-9]*\.?[0-9]+([eE][-+]?[0-9]+)?$/\<close>\<close>
  "float_re = Seq Bol (Seq (Opt (one_of ''-+'')) (Seq (Star (Cls digit_char)) (Seq (Opt (Chr CHR ''.''))
     (Seq (Plus (Cls digit_char)) (Seq (Opt (Seq (one_of ''eE'') (Seq (Opt (one_of ''-+'')) (Plus (Cls digit_char))))) Eol)))))"

definition int_re :: re where \<comment> \<open>\<open>/^-?[0-9]+$/\<close>\<close>
  "int_re = Seq Bol (Seq (Opt (Chr CHR ''-'')) (Seq (Plus (Cls digit_char)) Eol))"

definition regex_lit_re :: re where \<comment> \<open>\<open>/^\/(\\\/|[^\/])+\/[gimy]*$/\<close>\<close>
  "regex_lit_re = Seq Bol (Seq (Chr CHR ''/'') (Seq (Plus (Alt (Lit [bsl, CHR ''/'']) (Cls (\<lambda>c. c \<noteq> CHR ''/''))))
     (Seq (Chr CHR ''/'') (Seq (Star (one_of ''gimy'')) Eol))))"

definition regex_parts_re :: re where \<comment> \<open>\<open>/^\/([^\/]+)\/([^\/]*)$/\<close>\<close>
  "regex_parts_re = Seq Bol (Seq (Chr CHR ''/'') (Seq (Grp 1 (Plus (Cls (\<lambda>c. c \<noteq> CHR ''/''))))
     (Seq (Chr CHR ''/'') (Seq (Grp 2 (Star (Cls (\<lambda>c. c \<noteq> CHR ''/'')))) Eol))))"

definition some_regex_re :: re where \<comment> \<open>\<open>/\/.*\/[gimy]*$/\<close>\<close>
  "some_regex_re = Seq (Chr CHR ''/'') (Seq (Star (none_of [CHR 0x0A, CHR 0x0D]))
     (Seq (Chr CHR ''/'') (Seq (Star (one_of ''gimy'')) Eol)))"

text \<open>\<open>arg.replace(/^q|q$/g, '')\<close>\<close>

definition strip_quotes :: "char \<Rightarrow> string \<Rightarrow> string" where
  "strip_quotes q = replace_all (Alt (Seq Bol (Chr q)) (Seq (Chr q) Eol)) (\<lambda>_. '''')"

definition quoted_by :: "char \<Rightarrow> string \<Rightarrow> bool" where
  "quoted_by q a \<longleftrightarrow> at a 0 = Some q \<and> at a (int (length a) - 1) = Some q"

definition unescape_double :: "string \<Rightarrow> string" where \<comment> \<open>\<open>replace(/\\([" ])/g, '$1')\<close>\<close>
  "unescape_double = replace_all (Seq (Chr bsl) (Grp 1 (Cls (\<lambda>c. c = dq \<or> c = CHR '' '')))) (cap_text 1)"

definition unescape_space :: "string \<Rightarrow> string" where \<comment> \<open>\<open>replace(/\\ /g, ' ')\<close>\<close>
  "unescape_space = replace_all (Lit [bsl, CHR '' '']) (\<lambda>_. '' '')"

section \<open>split_arguments\<close>

definition split_arg :: "string \<Rightarrow> string" where
  "split_arg a =
     (if quoted_by sq a then strip_quotes sq a
      else if quoted_by dq a then unescape_double (strip_quotes dq a)
      else if re_test some_regex_re a then a
      else unescape_space a)"

definition command_pieces :: "string \<Rightarrow> string list" where
  "command_pieces s = (case match_all command_re s of Some ps \<Rightarrow> ps | None \<Rightarrow> [])"

definition split_arguments :: "string \<Rightarrow> string list" where
  "split_arguments s = map split_arg (command_pieces s)"

section \<open>parse_arguments\<close>

text \<open>\<open>parseInt(s, base)\<close> on digits of that base, and \<open>String.fromCharCode\<close>.\<close>

definition hex_value :: "char \<Rightarrow> nat" where
  "hex_value c = (let n = of_char c in if digit_char c then n - 48 else if CHR ''a'' \<le> c then n - 87 else n - 55)"

fun read_base :: "nat \<Rightarrow> nat \<Rightarrow> string \<Rightarrow> nat" where
  "read_base b acc [] = acc"
| "read_base b acc (c # cs) = read_base b (b * acc + hex_value c) cs"

definition from_char_code :: "nat \<Rightarrow> string" where
  "from_char_code n = [char_of n]"

definition read_int :: "string \<Rightarrow> int" where
  "read_int s = (if at s 0 = Some CHR ''-'' then - int (read_nat 0 (tl s)) else int (read_nat 0 s))"

text \<open>The three replacements in the text of a double-quoted argument, in the order of the code.\<close>

definition escape_letters :: "string \<Rightarrow> string" where
  "escape_letters s =
     (let s = replace_all (Alt (Lit [bsl, bsl]) (Alt (Lit [bsl, CHR ''t'']) (Lit [bsl, CHR ''n''])))
                (\<lambda>m. case at (found_text s m) 1 of
                   Some c \<Rightarrow> (if c = CHR ''t'' then [CHR 0x09] else if c = CHR ''n'' then [CHR 0x0A] else [bsl])
                 | None \<Rightarrow> [bsl]) s;
          s = replace_all (Seq (Chr bsl) (Seq (one_of ''xX'') (Grp 1 (Plus (Cls hex_char)))))
                (\<lambda>m. from_char_code (read_base 16 0 (cap_text 1 m))) s
      in replace_all (Seq (Lit [bsl, CHR ''0'']) (Grp 1 (Plus (one_of ''01234567''))))
           (\<lambda>m. from_char_code (read_base 8 0 (cap_text 1 m))) s)"

definition parse_arg :: "(string \<Rightarrow> string \<Rightarrow> bool) \<Rightarrow> string \<Rightarrow> js_error + arg" where
  "parse_arg regexp_ok a =
     (if quoted_by sq a then Inr (ArgStr (strip_quotes sq a))
      else if quoted_by dq a then Inr (ArgStr (escape_letters (unescape_double (strip_quotes dq a))))
      else if re_test regex_lit_re a then
        (case search regex_parts_re a 0 of
           None \<Rightarrow> Inl TypeError
         | Some m \<Rightarrow> (if regexp_ok (cap_text 1 m) (cap_text 2 m) then Inr (ArgRegex (cap_text 1 m) (cap_text 2 m))
                     else Inl SyntaxError))
      else if re_test int_re a then Inr (ArgInt (read_int a))
      else if re_test float_re a then Inr (ArgFloat a)
      else Inr (ArgStr (unescape_space a)))"

fun map_err :: "('a \<Rightarrow> js_error + 'b) \<Rightarrow> 'a list \<Rightarrow> js_error + 'b list" where
  "map_err f [] = Inr []"
| "map_err f (x # xs) =
     (case f x of Inl e \<Rightarrow> Inl e
      | Inr y \<Rightarrow> (case map_err f xs of Inl e \<Rightarrow> Inl e | Inr ys \<Rightarrow> Inr (y # ys)))"

definition parse_arguments :: "(string \<Rightarrow> string \<Rightarrow> bool) \<Rightarrow> string \<Rightarrow> js_error + arg list" where
  "parse_arguments regexp_ok s = map_err (parse_arg regexp_ok) (command_pieces s)"

section \<open>process_command\<close>

record parsed =
  p_command :: string
  p_name :: arg
  p_args :: "arg list"
  p_rest :: string

text \<open>
  \<open>new RegExp\<close> on a text of literal and escaped characters; \<^const>\<open>None\<close> for every other pattern, which
  \<open>escape_regex\<close> does not produce.
\<close>

definition regex_special :: "char \<Rightarrow> bool" where
  "regex_special c \<longleftrightarrow> c = bsl \<or> c \<in> set ''-^$[]()+{}?*.|''"

fun literal_text :: "string \<Rightarrow> string option" where
  "literal_text [] = Some []"
| "literal_text (c # t) =
     (if c = bsl then
        (case t of [] \<Rightarrow> None
         | d # u \<Rightarrow> if regex_special d then map_option ((#) d) (literal_text u) else None)
      else if regex_special c then None else map_option ((#) c) (literal_text t))"

definition trim :: "string \<Rightarrow> string" where
  "trim s = rev (dropWhile blank (rev (dropWhile blank s)))"

text \<open>\<open>escape_regex\<close> returns \<open>undefined\<close> for a name that is no string.\<close>

fun name_pattern :: "arg \<Rightarrow> string" where
  "name_pattern (ArgStr s) = escape_regex s"
| "name_pattern _ = ''undefined''"

definition process_command :: "string \<Rightarrow> (string \<Rightarrow> js_error + arg list) \<Rightarrow> js_error + parsed" where
  "process_command str fn =
     (case fn str of
        Inl e \<Rightarrow> Inl e
      | Inr [] \<Rightarrow> Inr \<lparr>p_command = str, p_name = ArgStr '''', p_args = [], p_rest = ''''\<rparr>
      | Inr (name # args) \<Rightarrow>
          (case literal_text (name_pattern name) of
             None \<Rightarrow> Inl SyntaxError
           | Some w \<Rightarrow>
               Inr \<lparr>p_command = str, p_name = name, p_args = args,
                    p_rest = trim (replace_first (Seq Bol (Lit w)) (\<lambda>_. '''') str)\<rparr>))"

definition parse_command :: "(string \<Rightarrow> string \<Rightarrow> bool) \<Rightarrow> string \<Rightarrow> js_error + parsed" where
  "parse_command regexp_ok s = process_command s (parse_arguments regexp_ok)"

definition split_command :: "string \<Rightarrow> js_error + parsed" where
  "split_command s = process_command s (\<lambda>s. Inr (map ArgStr (split_arguments s)))"


section \<open>Regular expressions of a text\<close>

lemma replace_all_Grp_Cls:
  assumes "\<And>k. k < length s \<Longrightarrow> P (s ! k) \<Longrightarrow> f (k, Suc k, [(n, [s ! k])]) = g (s ! k)"
  shows "replace_all (Grp n (Cls P)) f s = concat (map (\<lambda>c. if P c then g c else [c]) s)"
proof -
  have m: "ms (Grp n (Cls P)) s (k, []) = (if k < length s \<and> P (s ! k) then [(Suc k, [(n, [s ! k])])] else [])" for k
    using take_one_drop [of k s] by simp
  have "unit_re (Grp n (Cls P)) s" unfolding unit_re_def m by auto
  then have u: "unit_re (Grp n (Cls P)) s" .
  have "replace_all (Grp n (Cls P)) f s =
      concat (map (\<lambda>k. (\<lambda>c. if P c then g c else [c]) (s ! k)) [0..<length s])"
    unfolding replace_all_unit [OF u] m
    by (intro arg_cong [where f = concat] map_cong refl) (use assms in auto)
  also have "\<dots> = concat (map (\<lambda>c. if P c then g c else [c]) s)"
    by (rule concat_map_upt_nth)
  finally show ?thesis .
qed

lemma escape_regex_eq: "escape_regex s = concat (map (\<lambda>c. if regex_special c then [bsl, c] else [c]) s)"
  unfolding escape_regex_def re_special_def
  by (subst replace_all_Grp_Cls [where g = "\<lambda>c. [bsl, c]"])
     (simp_all add: found_cap_def regex_special_def bsl_def cong: map_cong if_cong)

lemma literal_escape: "literal_text (escape_regex s) = Some s"
proof (induction s)
  case (Cons c s)
  then show ?case
    by (cases "regex_special c") (auto simp: escape_regex_eq regex_special_def)
qed (simp add: escape_regex_eq)

lemma search_Lit: "search (Lit w) s 0 \<noteq> None \<longleftrightarrow> sublist w s"
proof -
  have "search (Lit w) s 0 \<noteq> None \<longleftrightarrow> (\<exists>k\<le>length s. take (length w) (drop k s) = w)"
    unfolding search_None_iff ms_Lit by auto
  also have "\<dots> \<longleftrightarrow> sublist w s"
  proof
    assume "\<exists>k\<le>length s. take (length w) (drop k s) = w"
    then obtain k where "take (length w) (drop k s) = w" by blast
    then have "s = take k s @ w @ drop (length w) (drop k s)" by (metis append_take_drop_id)
    then show "sublist w s" by (metis sublist_appendI)
  next
    assume "sublist w s"
    then obtain p q where "s = p @ w @ q" by (auto simp: sublist_def)
    then show "\<exists>k\<le>length s. take (length w) (drop k s) = w" by (intro exI [of _ "length p"]) simp
  qed
  finally show ?thesis .
qed

text \<open>\<open>escape_regex\<close> gives the pattern that matches where the text itself occurs, and nowhere else.\<close>

theorem escape_regex_literal:
  "\<exists>w. literal_text (escape_regex s) = Some w \<and> (re_test (Lit w) t \<longleftrightarrow> sublist s t)"
  using literal_escape search_Lit by (auto simp: re_test_def)

section \<open>Cutting a command line\<close>

lemma forward_command_re: "forward command_re"
  by (simp add: command_re_def re_single_def re_double_def re_slashes_def re_word_def Plus_def Opt_def Chr_def
      one_of_def)

lemma command_pieces_eq: "command_pieces s = pieces command_re s"
  by (simp only: command_pieces_def match_all_pieces)

lemma ms_Alt_Nil: "ms a s x = [] \<Longrightarrow> ms b s x = [] \<Longrightarrow> ms (Alt a b) s x = []"
  by simp

lemma ms_Seq_Chr_Nil: "s ! 0 \<noteq> c \<Longrightarrow> ms (Seq (Chr c) r) s (0, d) = []"
  by (rule ms_Seq_none) (simp add: Chr_def)

text \<open>At a space none of the alternatives matches.\<close>

lemma command_re_space: "ms command_re (CHR '' '' # s) (0, []) = []"
proof -
  let ?s = "CHR '' '' # s"
  have q: "ms re_single ?s (0, []) = []" "ms re_double ?s (0, []) = []" "ms re_slashes ?s (0, []) = []"
    unfolding re_single_def re_double_def re_slashes_def by (rule ms_Seq_Chr_Nil; simp add: sq_def dq_def)+
  have "ms (Alt (Lit [bsl, CHR '' '']) (Cls (\<lambda>c. c \<noteq> CHR '' ''))) ?s (0, []) = []"
    by (rule ms_Alt_Nil) (simp_all add: lit2 Chr_def bsl_def)
  then have w: "ms re_word ?s (0, []) = []" unfolding re_word_def Plus_def by (rule ms_Seq_none)
  have "ms (Cls (\<lambda>c. word_char c \<or> c = CHR ''-'')) ?s (0, []) = []"
    by (simp add: word_char_def less_eq_char_def)
  then have "ms (Plus (Cls (\<lambda>c. word_char c \<or> c = CHR ''-''))) ?s (0, []) = []" unfolding Plus_def by (rule ms_Seq_none)
  with q w show ?thesis unfolding command_re_def by (intro ms_Alt_Nil)
qed

lemma command_pieces_space: "command_pieces (CHR '' '' # s) = command_pieces s"
  unfolding command_pieces_eq by (rule pieces_skip [OF forward_command_re command_re_space])

lemma command_pieces_Nil: "command_pieces [] = []"
  unfolding command_pieces_eq
  by (rule pieces_Nil)
     (simp add: command_re_def re_single_def re_double_def re_slashes_def re_word_def Plus_def Chr_def lit2)

text \<open>A single-quoted text is one piece.\<close>

lemma command_pieces_single:
  assumes "sq \<notin> set w"
  shows "command_pieces (sq # w @ sq # t) = (sq # w @ [sq]) # command_pieces t"
proof -
  let ?s = "sq # w @ sq # t"
  have "starts (Seq (Star (Cls (\<lambda>c. c \<noteq> sq))) (Chr sq)) ?s (1, []) (1 + length w + 1, [])"
  proof (rule starts_Seq)
    show "starts (Star (Cls (\<lambda>c. c \<noteq> sq))) ?s (1, []) (1 + length w, [])"
      by (rule starts_Star [where t = "sq # t"]) (use assms in \<open>auto simp: list_all_iff\<close>)
    show "starts (Chr sq) ?s (1 + length w, []) (1 + length w + 1, [])"
      using starts_Chr [of "1 + length w" ?s sq t "[]"] by simp
  qed
  then have "starts re_single ?s (0, []) (length w + 2, [])"
    unfolding re_single_def using starts_Seq [OF starts_Chr [of 0 ?s sq "w @ sq # t"]] by (simp add: add.commute)
  then have "starts command_re ?s (0, []) (length w + 2, [])"
    unfolding command_re_def by (rule starts_Alt1)
  from pieces_take [OF forward_command_re this] show ?thesis
    by (simp add: command_pieces_eq)
qed

text \<open>A word without a quote, a slash, a backslash or a space is one piece.\<close>

definition plain_word :: "string \<Rightarrow> bool" where
  "plain_word w \<longleftrightarrow> w \<noteq> [] \<and> list_all (\<lambda>c. c \<noteq> CHR '' '' \<and> c \<noteq> sq \<and> c \<noteq> dq \<and> c \<noteq> bsl \<and> c \<noteq> CHR ''/'') w"

lemma ms_word_Star:
  assumes "drop i s = w @ t" "list_all (\<lambda>c. c \<noteq> CHR '' '' \<and> c \<noteq> bsl) w" "t = [] \<or> hd t = CHR '' ''" "i \<le> length s"
  shows "starts (Star (Alt (Lit [bsl, CHR '' '']) (Cls (\<lambda>c. c \<noteq> CHR '' '')))) s (i, c) (i + length w, c)"
  using assms
proof (induction w arbitrary: i)
  case Nil
  then have "ms (Alt (Lit [bsl, CHR '' '']) (Cls (\<lambda>c. c \<noteq> CHR '' ''))) s (i, c) = []"
    by (cases t) (auto simp: lit2 Chr_def bsl_def dest!: drop_Cons_D)
  then show ?case unfolding starts_def by (subst ms_Star) (simp del: ms.simps Lit.simps)
next
  case (Cons a w)
  from Cons.prems(1) have d: "i < length s" "s ! i = a" "drop (Suc i) s = w @ t"
    using drop_Cons_D [of i s a "w @ t"] by simp_all
  have a: "ms (Alt (Lit [bsl, CHR '' '']) (Cls (\<lambda>c. c \<noteq> CHR '' ''))) s (i, c) = [(Suc i, c)]"
    using d Cons.prems(2) by (auto simp: lit2 Chr_def)
  from Cons.IH [OF d(3)] Cons.prems d(1) obtain ys
    where "ms (Star (Alt (Lit [bsl, CHR '' '']) (Cls (\<lambda>c. c \<noteq> CHR '' '')))) s (Suc i, c) = (Suc i + length w, c) # ys"
    by (auto simp: starts_def)
  with a d(1) show ?case unfolding starts_def by (subst ms_Star) simp
qed

lemma command_pieces_word:
  assumes "plain_word w" "t = [] \<or> hd t = CHR '' ''"
  shows "command_pieces (w @ t) = w # command_pieces t"
proof -
  let ?s = "w @ t"
  obtain a v where w: "w = a # v" using assms(1) by (cases w) (auto simp: plain_word_def)
  have a: "a \<noteq> CHR '' ''" "a \<noteq> sq" "a \<noteq> dq" "a \<noteq> bsl" "a \<noteq> CHR ''/''"
    and v: "list_all (\<lambda>c. c \<noteq> CHR '' '' \<and> c \<noteq> bsl) v"
    using assms(1) by (auto simp: plain_word_def w list_all_iff)
  have "starts (Alt (Lit [bsl, CHR '' '']) (Cls (\<lambda>c. c \<noteq> CHR '' ''))) ?s (0, []) (1, [])"
    using a by (auto simp: starts_def lit2 Chr_def w)
  moreover have "starts (Star (Alt (Lit [bsl, CHR '' '']) (Cls (\<lambda>c. c \<noteq> CHR '' '')))) ?s (1, []) (1 + length v, [])"
    by (rule ms_word_Star [OF _ v assms(2)]) (simp_all add: w)
  ultimately have word: "starts re_word ?s (0, []) (length w, [])"
    unfolding re_word_def Plus_def using starts_Seq by (fastforce simp: w)
  have "ms re_single ?s (0, []) = []" "ms re_double ?s (0, []) = []" "ms re_slashes ?s (0, []) = []"
    unfolding re_single_def re_double_def re_slashes_def using a by (intro ms_Seq_Chr_Nil; simp add: w)+
  then have "starts command_re ?s (0, []) (length w, [])"
    unfolding command_re_def by (intro starts_Alt2 starts_Alt1 word) simp_all
  from pieces_take [OF forward_command_re this] show ?thesis
    by (simp add: command_pieces_eq w)
qed


section \<open>Quoting\<close>

lemma ms_quote:
  "ms (Alt (Seq Bol (Chr q)) (Seq (Chr q) Eol)) s (i, []) =
    (if i < length s \<and> s ! i = q then (if i = 0 then [(Suc i, [])] else []) @ (if Suc i = length s then [(Suc i, [])] else []) else [])"
  by (simp add: Chr_def)

lemma strip_quotes_quoted:
  assumes "q \<notin> set w"
  shows "strip_quotes q (q # w @ [q]) = w"
proof -
  let ?s = "q # w @ [q]"
  have mid: "?s ! i \<noteq> q" if "i < length ?s" "i \<noteq> 0" "Suc i \<noteq> length ?s" for i
  proof -
    have "i - 1 < length w" using that by auto
    then have "?s ! i = w ! (i - 1)" "w ! (i - 1) \<in> set w" using that by (auto simp: nth_Cons' nth_append)
    then show ?thesis using assms by metis
  qed
  have "strip_quotes q ?s = filter (\<lambda>c. c \<noteq> q) ?s"
    unfolding strip_quotes_def
  proof (rule replace_all_scan)
    fix i assume i: "i < length ?s" "ms (Alt (Seq Bol (Chr q)) (Seq (Chr q) Eol)) ?s (i, []) = []"
    then have "?s ! i \<noteq> q" using mid [of i] unfolding ms_quote by (auto split: if_splits)
    then show "filter (\<lambda>c. c \<noteq> q) (drop i ?s) = ?s ! i # filter (\<lambda>c. c \<noteq> q) (drop (Suc i) ?s)"
      using i(1) by (simp only: Cons_nth_drop_Suc [OF i(1), symmetric] filter.simps if_True simp_thms)
  next
    fix i b c ys assume i: "i < length ?s" "ms (Alt (Seq Bol (Chr q)) (Seq (Chr q) Eol)) ?s (i, []) = (b, c) # ys"
    then have "?s ! i = q" "b = Suc i" unfolding ms_quote by (auto split: if_splits)
    then show "i < b \<and> filter (\<lambda>c. c \<noteq> q) (drop i ?s) = [] @ filter (\<lambda>c. c \<noteq> q) (drop b ?s)"
      by (simp only: Cons_nth_drop_Suc [OF i(1), symmetric] filter.simps) simp
  qed (simp_all add: Chr_def)
  also have "filter (\<lambda>c. c \<noteq> q) ?s = w"
    using assms by (simp add: filter_id_conv) (metis)
  finally show ?thesis .
qed

lemma split_arg_single: "sq \<notin> set w \<Longrightarrow> split_arg (sq # w @ [sq]) = w"
  using at_last [of "sq # w @ [sq]"] by (simp add: split_arg_def quoted_by_def at_in strip_quotes_quoted)

lemma split_arg_plain: "plain_word w \<Longrightarrow> split_arg w = w"
proof -
  assume w: "plain_word w"
  then have "\<not> quoted_by sq w" "\<not> quoted_by dq w" "bsl \<notin> set w"
    by (auto simp: plain_word_def quoted_by_def list_all_iff dest!: at_SomeD)
  moreover have "unescape_space w = w" if "bsl \<notin> set w"
    unfolding unescape_space_def lit2 by (rule replace_all_none) (rule ms_Seq_Chr_none [OF that])
  ultimately show ?thesis by (simp add: split_arg_def)
qed

definition quote_arg :: "string \<Rightarrow> string" where
  "quote_arg w = (if plain_word w then w else sq # w @ [sq])"

lemma command_pieces_quote:
  assumes "sq \<notin> set w" "t = [] \<or> hd t = CHR '' ''"
  shows "command_pieces (quote_arg w @ t) = quote_arg w # command_pieces t"
  using command_pieces_single [OF assms(1), of t] command_pieces_word [OF _ assms(2), of w]
  by (simp add: quote_arg_def)

lemma command_pieces_join:
  "(\<forall>w\<in>set ws. sq \<notin> set w) \<Longrightarrow> command_pieces (join_with '' '' (map quote_arg ws)) = map quote_arg ws"
proof (induction ws rule: induct_list012)
  case 1
  then show ?case by (simp add: command_pieces_Nil)
next
  case (2 w)
  then show ?case using command_pieces_quote [of w "[]"] by (simp add: command_pieces_Nil)
next
  case (3 w v ws)
  then have "command_pieces (quote_arg w @ '' '' @ join_with '' '' (map quote_arg (v # ws)))
      = quote_arg w # command_pieces ('' '' @ join_with '' '' (map quote_arg (v # ws)))"
    by (intro command_pieces_quote) simp_all
  with 3 show ?case by (simp add: command_pieces_space)
qed

text \<open>
  C13: arguments written with single quotes where they need them come back as they were: spaces,
  slashes, backslashes and double quotes included.
\<close>

theorem split_quoted_arguments:
  assumes "\<forall>w\<in>set ws. sq \<notin> set w"
  shows "split_arguments (join_with '' '' (map quote_arg ws)) = ws"
proof -
  have "split_arg (quote_arg w) = w" if "w \<in> set ws" for w
    using assms that split_arg_single [of w] split_arg_plain [of w] by (simp add: quote_arg_def)
  then show ?thesis
    unfolding split_arguments_def command_pieces_join [OF assms] by (simp add: map_idI)
qed

theorem split_quoted_arguments_witness:
  "split_arguments (join_with '' '' (map quote_arg [''cp'', ''a b'', [bsl] @ ''/c d/''])) = [''cp'', ''a b'', [bsl] @ ''/c d/'']"
  by (rule split_quoted_arguments) (simp add: sq_def bsl_def)

text \<open>
  The name of a command is its first word and \<open>rest\<close> is the text after it without the blanks around.
\<close>

theorem split_command_name:
  assumes "plain_word w"
  shows "split_command (w @ CHR '' '' # t) = Inr \<lparr>p_command = w @ CHR '' '' # t, p_name = ArgStr w,
    p_args = map ArgStr (split_arguments t), p_rest = trim t\<rparr>"
proof -
  let ?s = "w @ CHR '' '' # t"
  have "command_pieces ?s = w # command_pieces t"
    using command_pieces_word [OF assms, of "CHR '' '' # t"] by (simp add: command_pieces_space)
  then have a: "split_arguments ?s = w # split_arguments t"
    using split_arg_plain [OF assms] by (simp add: split_arguments_def)
  have "search (Seq Bol (Lit w)) ?s 0 = Some (0, length w, [])"
    using search_here [of 0 ?s "Seq Bol (Lit w)" "(length w, [])" "[]"] by (simp add: ms_Lit)
  then have "replace_first (Seq Bol (Lit w)) (\<lambda>_. '''') ?s = CHR '' '' # t"
    by (simp add: replace_first_def)
  moreover have "trim (CHR '' '' # t) = trim t" by (simp add: trim_def blank_def)
  ultimately show ?thesis
    by (simp add: split_command_def process_command_def a literal_escape)
qed

theorem split_command_name_witness:
  "split_command ''echo  hello world '' = Inr \<lparr>p_command = ''echo  hello world '', p_name = ArgStr ''echo'',
    p_args = [ArgStr ''hello'', ArgStr ''world''], p_rest = ''hello world''\<rparr>"
proof -
  have w: "plain_word ''echo''" by (simp add: plain_word_def sq_def dq_def bsl_def)
  have "split_arguments '' hello world '' = [''hello'', ''world'']" "trim '' hello world '' = ''hello world''"
    by (code_simp)+
  with split_command_name [OF w, of "'' hello world ''"] show ?thesis by simp
qed

text \<open>
  A regular expression with an escaped slash is recognised as one by the first expression and not by
  the second, whose result is then \<open>null\<close>: parsing the command line throws.
\<close>

theorem escaped_slash_throws:
  "parse_arguments regexp_ok (''/a'' @ [bsl] @ ''/b/'') = Inl TypeError"
proof -
  have "command_pieces (''/a'' @ [bsl] @ ''/b/'') = [''/a'' @ [bsl] @ ''/b/'']" by code_simp
  moreover have "\<not> quoted_by sq (''/a'' @ [bsl] @ ''/b/'')" "\<not> quoted_by dq (''/a'' @ [bsl] @ ''/b/'')"
    "re_test regex_lit_re (''/a'' @ [bsl] @ ''/b/'')" "search regex_parts_re (''/a'' @ [bsl] @ ''/b/'') 0 = None"
    by (code_simp)+
  ultimately show ?thesis by (simp add: parse_arguments_def parse_arg_def)
qed

text \<open>
  An escaped backslash before \<open>x41\<close> in double quotes becomes the letter with that code, though the
  backslash is text: the replacements run one after the other over each other's results.
\<close>

theorem escaped_backslash_read_twice:
  "parse_arguments regexp_ok ([dq, bsl, bsl] @ ''x41'' @ [dq]) = Inr [ArgStr ''A'']"
proof -
  have "command_pieces ([dq, bsl, bsl] @ ''x41'' @ [dq]) = [[dq, bsl, bsl] @ ''x41'' @ [dq]]" by code_simp
  moreover have "\<not> quoted_by sq ([dq, bsl, bsl] @ ''x41'' @ [dq])" "quoted_by dq ([dq, bsl, bsl] @ ''x41'' @ [dq])"
    "escape_letters (unescape_double (strip_quotes dq ([dq, bsl, bsl] @ ''x41'' @ [dq]))) = ''A''"
    by (code_simp)+
  ultimately show ?thesis by (simp add: parse_arguments_def parse_arg_def)
qed

end
