(* ===== verification/Term_Output.thy ===== *)
theory Term_Output
  imports Split_Equal Arguments Cmd_View
begin

text \<open>
  The output of the terminal widget: the array \<open>lines\<close> of what was echoed, \<open>output_buffer\<close>, and the rows on the
  page, with \<open>echo\<close>, \<open>error\<close>, \<open>flush\<close>, \<open>update\<close>, \<open>clear\<close> and the \<open>redraw\<close> of the widget. A line is a value or a
  function that is called whenever the line is painted; \<open>call_line\<close> has what it returns or throws. The text
  between double brackets in a line is executed as a command: \<open>run\<close> is what the widget does with it. The record
  is extensible, since the widget has this state and more.
\<close>

section \<open>State and settings\<close>

datatype line = LineVal jsval | LineFun nat

record echo_opts =
  lo_exec :: bool
  lo_raw :: bool
  lo_flush :: bool
  lo_finalize :: "nat option" \<comment> \<open>\<^const>\<open>None\<close>: \<open>$.noop\<close>\<close>

datatype chunk = NewLine | Html string | Finalize "nat option"

text \<open>\<open>prev\<close> is the text of \<open>prev_command\<close>. A row of the page is the HTML of one inner \<open>div\<close>.\<close>

record out =
  lines :: "(line \<times> echo_opts) list"
  buffer :: "chunk list"
  page_rows :: "string list list"
  finalized :: "nat list"
  alerts :: "js_error list"
  cols :: int
  rows :: int
  prev :: "string option"

record out_env =
  convert_links :: bool
  raw_default :: bool
  output_limit :: int
  formatters :: "(string \<Rightarrow> js_error + jsval) option list" \<comment> \<open>\<^const>\<open>None\<close>: no function\<close>
  no_referer_setting :: jsval
  mask_char :: string
  call_line :: "nat \<Rightarrow> js_error + jsval"

section \<open>Lines into the buffer\<close>

definition url_re :: re where
  "url_re = Grp 1 (Seq WordB (Seq (LitI ''http'') (Seq (Opt (LitI ''s'')) (Seq (Lit ''://'')
     (Seq (Plus (Seq (Alt (NotAhead (Seq (Chr CHR ''&'') (Seq (Plus (none_of '';'')) (Chr CHR '';''))))
                          (Ahead (LitI ''&amp;'')))
                     (Cls (\<lambda>c. \<not> blank c \<and> c \<noteq> CHR 0x22 \<and> c \<noteq> CHR 0x27 \<and> c \<notin> set ''<>][)''))))
          WordB)))))"

definition format_exec_re :: re where
  "format_exec_re = Grp 1 (Seq (Lit ''[['')
     (Seq (Star (Alt (none_of '']'') (Seq (Chr CHR '']'') (NotAhead (Chr CHR '']''))))) (Lit '']]'')))"

definition link_text :: "re \<Rightarrow> string \<Rightarrow> string" where
  "link_text r s = replace_all r (\<lambda>m. ''[[!;;]'' @ found_text s m @ '']'') s"

text \<open>A formatter that throws is reported and passed over, as is one that gives no string.\<close>

fun run_formatters :: "(string \<Rightarrow> js_error + jsval) option list \<Rightarrow> string \<Rightarrow> string \<times> js_error list" where
  "run_formatters [] s = (s, [])"
| "run_formatters (None # fs) s = run_formatters fs s"
| "run_formatters (Some f # fs) s =
     (case f s of
        Inl e \<Rightarrow> (let (t, es) = run_formatters fs s in (t, e # es))
      | Inr (JStr t) \<Rightarrow> run_formatters fs t
      | Inr _ \<Rightarrow> run_formatters fs s)"

definition format_row :: "out_env \<Rightarrow> string \<Rightarrow> string" where
  "format_row env s = format_html (JStr s) [(''linksNoReferer'', no_referer_setting env)]"

definition split_row :: "out_env \<Rightarrow> string \<Rightarrow> string" where
  "split_row env s = (if s = '''' \<or> s = [CHR 0x0D] then ''<span></span>'' else format_row env s)"

text \<open>The text that goes into the buffer, with the exceptions of formatters.\<close>

definition line_source :: "out_env \<Rightarrow> bool \<Rightarrow> string \<Rightarrow> string \<times> js_error list" where
  "line_source env raw s =
     (let s = (if convert_links env then link_text url_re (link_text email_re s) else s)
      in if raw then (s, [])
         else (let (t, es) = run_formatters (formatters env) s in (encode t, es)))"

definition line_rows :: "out_env \<Rightarrow> int \<Rightarrow> bool \<Rightarrow> string \<Rightarrow> js_error + string list" where
  "line_rows env width raw t =
     (if \<not> raw \<and> (int (length t) > width \<or> CHR 0x0A \<in> set t)
      then (case split_equal t width of Inl e \<Rightarrow> Inl e | Inr ls \<Rightarrow> Inr (map (split_row env) ls))
      else Inr [if raw then t else format_row env t])"

definition buffer_line :: "out_env \<Rightarrow> string \<Rightarrow> echo_opts \<Rightarrow> 'a out_scheme \<Rightarrow> js_error option \<times> 'a out_scheme" where
  "buffer_line env s opts st =
     (let (t, es) = line_source env (lo_raw opts) s;
          st = st\<lparr>alerts := alerts st @ es, buffer := buffer st @ [NewLine]\<rparr>
      in case line_rows env (cols st) (lo_raw opts) t of
           Inl e \<Rightarrow> (Some e, st)
         | Inr rs \<Rightarrow> (None, st\<lparr>buffer := buffer st @ map Html rs @ [Finalize (lo_finalize opts)]\<rparr>))"

definition line_text :: "out_env \<Rightarrow> line \<Rightarrow> js_error + string" where
  "line_text env l =
     (case l of
        LineVal v \<Rightarrow> Inr (js_string v)
      | LineFun k \<Rightarrow> (case call_line env k of Inl e \<Rightarrow> Inl e | Inr v \<Rightarrow> Inr (js_string v)))"

text \<open>\<open>string.replace(/^\[\[|\]\]$/g, '')\<close>\<close>

definition strip_exec :: "string \<Rightarrow> string" where
  "strip_exec = replace_all (Alt (Seq Bol (Lit ''[['')) (Seq (Lit '']]'') Eol)) (\<lambda>_. '''')"

text \<open>
  The pieces of a line: commands are executed, the others put together. \<open>skip\<close> reports a recursive call.
\<close>

fun exec_pieces :: "(string \<Rightarrow> 'a out_scheme \<Rightarrow> 'a out_scheme) \<Rightarrow> ('a out_scheme \<Rightarrow> 'a out_scheme) \<Rightarrow>
    string list \<Rightarrow> 'a out_scheme \<Rightarrow> string \<times> 'a out_scheme" where
  "exec_pieces run skip [] st = ('''', st)"
| "exec_pieces run skip (p # ps) st =
     (if re_test format_exec_re p then
        exec_pieces run skip ps (if prev st = Some (strip_exec p) then skip st else run (strip_exec p) st)
      else (let (t, st) = exec_pieces run skip ps st in (p @ t, st)))"

definition exec_split :: "string \<Rightarrow> string list" where
  "exec_split s = map (\<lambda>p. case p of Some t \<Rightarrow> t | None \<Rightarrow> []) (split_re format_exec_re 1 s)"

text \<open>An exception empties the buffer.\<close>

definition caught :: "js_error option \<times> 'a out_scheme \<Rightarrow> 'a out_scheme" where
  "caught r = (case r of (None, st) \<Rightarrow> st | (Some e, st) \<Rightarrow> st\<lparr>buffer := [], alerts := alerts st @ [e]\<rparr>)"

definition process_line :: "out_env \<Rightarrow> (string \<Rightarrow> 'a out_scheme \<Rightarrow> 'a out_scheme) \<Rightarrow> ('a out_scheme \<Rightarrow> 'a out_scheme) \<Rightarrow>
    line \<Rightarrow> echo_opts \<Rightarrow> 'a out_scheme \<Rightarrow> 'a out_scheme" where
  "process_line env run skip l opts st =
     (case line_text env l of
        Inl e \<Rightarrow> caught (Some e, st)
      | Inr s \<Rightarrow>
          (if s = '''' then st
           else if lo_exec opts then
             (let (t, st) = exec_pieces run skip (exec_split s) st
              in if t = '''' then st else caught (buffer_line env t opts st))
           else caught (buffer_line env s opts st)))"


section \<open>The buffer onto the page\<close>

text \<open>The loop of \<open>flush\<close>: \<open>w\<close> is the \<open>wrapper\<close>; the result has the wrappers put on the page and the functions called.\<close>

fun flush_chunks :: "chunk list \<Rightarrow> string list option \<Rightarrow> string list list \<times> nat list" where
  "flush_chunks [] w = ([], [])"
| "flush_chunks (NewLine # cs) w = flush_chunks cs (Some [])"
| "flush_chunks (Html h # cs) w = flush_chunks cs (map_option (\<lambda>rs. rs @ [h]) w)"
| "flush_chunks (Finalize f # cs) w =
     (let (ws, fs) = flush_chunks cs w
      in ((case w of None \<Rightarrow> [] | Some rs \<Rightarrow> [rs]) @ ws, (case f of None \<Rightarrow> [] | Some k \<Rightarrow> [k]) @ fs))"

text \<open>The first \<open>k\<close> rows go, and with them the wrappers they leave empty.\<close>

fun drop_rows :: "nat \<Rightarrow> 'a list list \<Rightarrow> 'a list list" where
  "drop_rows k [] = []"
| "drop_rows k (w # ws) =
     (if k = 0 then w # ws
      else if w = [] then w # drop_rows k ws
      else if length w \<le> k then drop_rows (k - length w) ws
      else drop k w # ws)"

definition line_limit :: "out_env \<Rightarrow> 'a out_scheme \<Rightarrow> int" where
  "line_limit env st = (if output_limit env = 0 then rows st else output_limit env)"

text \<open>The number of rows that go counts lines, not rows.\<close>

definition limit_rows :: "out_env \<Rightarrow> 'a out_scheme \<Rightarrow> 'a out_scheme" where
  "limit_rows env st =
     (if output_limit env \<ge> 0 then
        (let limit = line_limit env st; shown = concat (page_rows st)
         in if int (length shown) > limit then
              st\<lparr>page_rows := drop_rows (length (slice shown 0 (int (length (lines st)) - limit + 1))) (page_rows st)\<rparr>
            else st)
      else st)"

definition flush :: "out_env \<Rightarrow> 'a out_scheme \<Rightarrow> 'a out_scheme" where
  "flush env st =
     (let (ws, fs) = flush_chunks (buffer st) None;
          st = limit_rows env (st\<lparr>page_rows := page_rows st @ ws, finalized := finalized st @ fs\<rparr>)
      in st\<lparr>buffer := []\<rparr>)"

section \<open>Operations\<close>

definition echo_with :: "out_env \<Rightarrow> (string \<Rightarrow> 'a out_scheme \<Rightarrow> 'a out_scheme) \<Rightarrow> ('a out_scheme \<Rightarrow> 'a out_scheme) \<Rightarrow>
    line \<Rightarrow> echo_opts \<Rightarrow> 'a out_scheme \<Rightarrow> 'a out_scheme" where
  "echo_with env run skip l opts st =
     (let l = (case l of LineVal v \<Rightarrow> (if truthy v then l else LineVal (JStr '''')) | LineFun k \<Rightarrow> l);
          st = process_line env run skip l opts (st\<lparr>buffer := []\<rparr>);
          st = st\<lparr>lines := lines st @ [(l, opts\<lparr>lo_exec := False\<rparr>)]\<rparr>
      in if lo_flush opts then flush env st else st)"

definition default_opts :: "out_env \<Rightarrow> echo_opts" where
  "default_opts env = \<lparr>lo_exec = True, lo_raw = raw_default env, lo_flush = True, lo_finalize = None\<rparr>"

definition error_text :: "string \<Rightarrow> string" where
  "error_text msg =
     ''[[;;;error]'' @ replace_first (Seq (Chr CHR 0x5C) Eol) (\<lambda>_. ''&#92;'') (escape_brackets msg) @ '']''"

text \<open>The text of the error about a recursive call has no brackets, so it executes nothing and recurs no further.\<close>

definition skip_call :: "out_env \<Rightarrow> 'a out_scheme \<Rightarrow> 'a out_scheme" where
  "skip_call env st =
     echo_with env (\<lambda>_ st. st) (\<lambda>st. st) (LineVal (JStr (error_text ''Recursive call detected, skip'')))
       (default_opts env) st"

definition echo :: "out_env \<Rightarrow> (string \<Rightarrow> 'a out_scheme \<Rightarrow> 'a out_scheme) \<Rightarrow> line \<Rightarrow> echo_opts \<Rightarrow> 'a out_scheme \<Rightarrow> 'a out_scheme" where
  "echo env run = echo_with env run (skip_call env)"

definition echo_error :: "out_env \<Rightarrow> (string \<Rightarrow> 'a out_scheme \<Rightarrow> 'a out_scheme) \<Rightarrow> string \<Rightarrow> 'a out_scheme \<Rightarrow> 'a out_scheme" where
  "echo_error env run msg st = echo env run (LineVal (JStr (error_text msg))) (default_opts env) st"

definition clear_output :: "'a out_scheme \<Rightarrow> 'a out_scheme" where
  "clear_output st = st\<lparr>page_rows := [], lines := []\<rparr>"

definition lines_to_show :: "out_env \<Rightarrow> 'a out_scheme \<Rightarrow> (line \<times> echo_opts) list" where
  "lines_to_show env st =
     (if output_limit env \<ge> 0
      then slice_from (lines st) (int (length (lines st)) - line_limit env st - 1) else lines st)"

definition redraw_lines :: "out_env \<Rightarrow> (string \<Rightarrow> 'a out_scheme \<Rightarrow> 'a out_scheme) \<Rightarrow> 'a out_scheme \<Rightarrow> 'a out_scheme" where
  "redraw_lines env run st =
     flush env (fold (\<lambda>(l, opts). process_line env run (skip_call env) l opts) (lines_to_show env st)
       (st\<lparr>page_rows := [], buffer := []\<rparr>))"

definition resize_output :: "out_env \<Rightarrow> (string \<Rightarrow> 'a out_scheme \<Rightarrow> 'a out_scheme) \<Rightarrow> int \<Rightarrow> int \<Rightarrow> 'a out_scheme \<Rightarrow> 'a out_scheme" where
  "resize_output env run c r st =
     (if c \<noteq> cols st \<or> r \<noteq> rows st then redraw_lines env run (st\<lparr>cols := c, rows := r\<rparr>) else st)"

definition update_line :: "out_env \<Rightarrow> (string \<Rightarrow> 'a out_scheme \<Rightarrow> 'a out_scheme) \<Rightarrow> int \<Rightarrow> line \<Rightarrow> 'a out_scheme \<Rightarrow> 'a out_scheme" where
  "update_line env run n l st =
     (let n = (if n < 0 then int (length (lines st)) + n else n)
      in case at (lines st) n of
           None \<Rightarrow> echo_error env run (''Invalid line number '' @ show_int n) st
         | Some (_, opts) \<Rightarrow> redraw_lines env run (st\<lparr>lines := (lines st)[nat n := (l, opts)]\<rparr>))"

text \<open>\<open>$.map\<close> drops \<open>undefined\<close> and \<open>null\<close> and flattens arrays; \<open>join\<close> writes nothing for the two.\<close>

fun map_values :: "jsval \<Rightarrow> jsval list" where
  "map_values JUndef = []"
| "map_values JNull = []"
| "map_values (JArr xs) = xs"
| "map_values v = [v]"

definition join_values :: "string \<Rightarrow> jsval list \<Rightarrow> string" where
  "join_values sep vs = join_with sep (map (\<lambda>v. if v = JUndef \<or> v = JNull then '''' else js_string v) vs)"

fun line_values :: "out_env \<Rightarrow> (line \<times> echo_opts) list \<Rightarrow> js_error + jsval list" where
  "line_values env [] = Inr []"
| "line_values env ((l, opts) # ls) =
     (case (case l of LineVal v \<Rightarrow> Inr v | LineFun k \<Rightarrow> call_line env k) of
        Inl e \<Rightarrow> Inl e
      | Inr v \<Rightarrow> (case line_values env ls of Inl e \<Rightarrow> Inl e | Inr vs \<Rightarrow> Inr (map_values v @ vs)))"

definition get_output :: "out_env \<Rightarrow> 'a out_scheme \<Rightarrow> js_error + string" where
  "get_output env st =
     (case line_values env (lines st) of Inl e \<Rightarrow> Inl e | Inr vs \<Rightarrow> Inr (join_values [CHR 0x0A] vs))"

definition display_object :: "out_env \<Rightarrow> (string \<Rightarrow> 'a out_scheme \<Rightarrow> 'a out_scheme) \<Rightarrow> jsval \<Rightarrow> 'a out_scheme \<Rightarrow> 'a out_scheme" where
  "display_object env run v st =
     (case v of
        JArr xs \<Rightarrow> echo env run (LineVal (JStr (join_with '' '' (map (\<lambda>x. json_stringify x 1) xs)))) (default_opts env) st
      | JObj ps \<Rightarrow> echo env run (LineVal (JStr (json_stringify v 1))) (default_opts env) st
      | JNull \<Rightarrow> echo env run (LineVal (JStr (json_stringify v 1))) (default_opts env) st
      | _ \<Rightarrow> echo env run (LineVal v) (default_opts env) st)"

text \<open>The command as it is echoed: masked, or escaped. A prompt function is known by the text it hands on.\<close>

definition command_echo :: "out_env \<Rightarrow> mask \<Rightarrow> string \<Rightarrow> string" where
  "command_echo env m txt =
     (case m of
        MaskStr t \<Rightarrow> masked (MaskStr t) txt
      | MaskBool True \<Rightarrow> masked (MaskStr (mask_char env)) txt
      | MaskBool False \<Rightarrow> escape_formatting txt)"

definition echo_command :: "out_env \<Rightarrow> (string \<Rightarrow> 'a out_scheme \<Rightarrow> 'a out_scheme) \<Rightarrow> cmd \<Rightarrow> nat \<Rightarrow> string \<Rightarrow> 'a out_scheme \<Rightarrow> 'a out_scheme" where
  "echo_command env run s add_class txt st =
     echo env run (LineVal (JStr (prompt_text (prompt s) @ command_echo env (mask s) txt)))
       ((default_opts env)\<lparr>lo_finalize := Some add_class\<rparr>) st"


section \<open>Text that executes nothing\<close>

lemma ms_Lit_none: "\<not> sublist w s \<Longrightarrow> ms (Lit w) s x = []"
proof (cases x)
  case (Pair i c)
  assume "\<not> sublist w s"
  moreover have "sublist (take (length w) (drop i s)) s"
    by (metis append_take_drop_id sublist_appendI)
  ultimately show ?thesis unfolding Pair ms_Lit by auto
qed

lemma ms_Seq_none2: "(\<And>y. ms b s y = []) \<Longrightarrow> ms (Seq a b) s x = []"
  by simp

lemma ms_exec_none: "\<not> sublist '']]'' s \<Longrightarrow> ms format_exec_re s x = []"
  unfolding format_exec_re_def by (intro ms_Grp_none ms_Seq_none2 ms_Lit_none)

lemma exec_split_none: "\<not> sublist '']]'' s \<Longrightarrow> exec_split s = [s]"
  unfolding exec_split_def by (subst split_re_none) (simp_all add: ms_exec_none)

lemma re_test_exec_none: "\<not> sublist '']]'' s \<Longrightarrow> \<not> re_test format_exec_re s"
  by (simp add: re_test_def search_None_iff ms_exec_none)

lemma exec_pieces_none: "\<not> sublist '']]'' s \<Longrightarrow> exec_pieces run skip (exec_split s) st = (s, st)"
  by (simp add: exec_split_none re_test_exec_none)

text \<open>A line without closing double brackets is painted in the same way whether or not commands are executed.\<close>

definition no_markup :: "out_env \<Rightarrow> line \<Rightarrow> bool" where
  "no_markup env l \<longleftrightarrow> (case line_text env l of Inl e \<Rightarrow> True | Inr s \<Rightarrow> \<not> sublist '']]'' s)"

lemma buffer_line_exec [simp]: "buffer_line env s (opts\<lparr>lo_exec := b\<rparr>) st = buffer_line env s opts st"
  by (auto simp: buffer_line_def Let_def split: prod.splits sum.splits)

lemma process_line_none:
  "no_markup env l \<Longrightarrow> process_line env run skip l opts st = process_line env run' skip' l (opts\<lparr>lo_exec := False\<rparr>) st"
  by (auto simp: process_line_def no_markup_def exec_pieces_none split: sum.splits)

lemma echo_run:
  assumes "no_markup env l"
  shows "echo env run l opts st = echo env run' l opts st"
proof -
  have "no_markup env (case l of LineVal v \<Rightarrow> if truthy v then l else LineVal (JStr '''') | LineFun k \<Rightarrow> l)"
    using assms by (auto simp: no_markup_def line_text_def split: line.splits)
  from process_line_none [OF this, of run "skip_call env" _ _ run' "skip_call env"]
    process_line_none [OF this, of run' "skip_call env" _ _ run' "skip_call env"] show ?thesis
    by (simp only: echo_def echo_with_def Let_def)
qed

lemma set_replace_first:
  assumes "c \<notin> set s" "\<And>m. c \<notin> set (f m)"
  shows "c \<notin> set (replace_first r f s)"
  using assms by (auto simp: replace_first_def split: option.splits dest: in_set_takeD in_set_dropD)

lemma sublist_close_snoc:
  assumes "CHR '']'' \<notin> set t" "t \<noteq> []"
  shows "\<not> sublist '']]'' (t @ '']'')"
proof
  assume "sublist '']]'' (t @ '']'')"
  then obtain u v where uv: "t @ '']'' = u @ '']]'' @ v" by (auto simp: sublist_def)
  show False
  proof (cases v rule: rev_cases)
    case Nil
    with uv have "t = u @ '']''" by simp
    with assms(1) show False by simp
  next
    case (snoc v' x)
    with uv have "t = u @ '']]'' @ v'" by simp
    with assms(1) show False by simp
  qed
qed

lemma sublist_append_close:
  assumes "CHR '']'' \<notin> set t" "sublist '']]'' (s @ t)"
  shows "sublist '']]'' s"
proof -
  from assms(2) obtain u v where uv: "s @ t = u @ '']]'' @ v" by (auto simp: sublist_def)
  then have "\<exists>v'. s = u @ '']]'' @ v'"
    using assms(1) by (auto simp: append_eq_append_conv2 append_eq_Cons_conv)
  then show ?thesis by (auto simp: sublist_def)
qed

lemma sublist_pre: "a \<noteq> b \<Longrightarrow> sublist (a # w) (b # s) \<longleftrightarrow> sublist (a # w) s"
  by (subst sublist_Cons_right) simp

lemma error_text_inert:
  assumes "msg \<noteq> ''''"
  shows "\<not> sublist '']]'' (error_text msg)"
proof -
  define t where "t = replace_first (Seq (Chr CHR 0x5C) Eol) (\<lambda>_. ''&#92;'') (escape_brackets msg)"
  have t1: "CHR '']'' \<notin> set t"
    unfolding t_def using escape_brackets_set(2) by (intro set_replace_first) simp_all
  have e: "escape_brackets msg \<noteq> []"
    using assms bracket_char_cases [of "hd msg"] by (cases msg) (auto simp: escape_brackets_eq)
  have t2: "t \<noteq> []"
  proof (cases "search (Seq (Chr CHR 0x5C) Eol) (escape_brackets msg) 0")
    case None
    then show ?thesis using e by (simp add: t_def replace_first_def)
  next
    case (Some m)
    then show ?thesis by (cases m) (simp add: t_def replace_first_def)
  qed
  obtain a u where u: "t = a # u" using t2 by (cases t) auto
  have "\<not> sublist '']]'' (t @ '']'')" using t1 t2 by (rule sublist_close_snoc)
  moreover have "a \<noteq> CHR '']''" using t1 u by (metis list.set_intros(1))
  ultimately have "\<not> sublist '']]'' (CHR '']'' # t @ '']'')"
    unfolding u by (subst sublist_Cons_right) simp
  then show ?thesis
    by (simp add: error_text_def t_def [symmetric] sublist_pre)
qed


definition plain_env :: out_env where
  "plain_env = \<lparr>convert_links = False, raw_default = False, output_limit = -1, formatters = [],
     no_referer_setting = JBool False, mask_char = ''*'', call_line = (\<lambda>_. Inr JUndef)\<rparr>"

definition empty_out :: out where
  "empty_out = \<lparr>lines = [], buffer = [], page_rows = [], finalized = [], alerts = [], cols = 80, rows = 24, prev = None\<rparr>"


text \<open>
  An error with an empty message executes a command: the markup of the error alone reads as an extended command.
\<close>

theorem empty_error_executes:
  assumes "prev st \<noteq> Some '';;;error''"
  shows "echo_error env run '''' st =
    flush env (let st = run '';;;error'' (st\<lparr>buffer := []\<rparr>)
               in st\<lparr>lines := lines st @ [(LineVal (JStr ''[[;;;error]]''), (default_opts env)\<lparr>lo_exec := False\<rparr>)]\<rparr>)"
proof -
  have t: "error_text '''' = ''[[;;;error]]''" "exec_split ''[[;;;error]]'' = ['''', ''[[;;;error]]'', '''']"
    "strip_exec ''[[;;;error]]'' = '';;;error''" "re_test format_exec_re ''[[;;;error]]''"
    "\<not> re_test format_exec_re ''''"
    by (code_simp)+
  show ?thesis
    using assms
    by (simp add: echo_error_def echo_def echo_with_def process_line_def line_text_def t default_opts_def Let_def)
qed

theorem empty_error_executes_witness:
  "rows (echo_error plain_env (\<lambda>c st. st\<lparr>rows := int (length c)\<rparr>) '''' empty_out) = 8"
proof -
  have "prev empty_out \<noteq> Some '';;;error''" by (simp add: empty_out_def)
  from empty_error_executes [OF this, of plain_env "\<lambda>c st. st\<lparr>rows := int (length c)\<rparr>"] show ?thesis
    by (simp add: empty_out_def plain_env_def flush_def limit_rows_def Let_def)
qed


section \<open>The page is the lines\<close>

text \<open>
  The rows of a line at a width, as the wrappers it adds to the page. A page is in order when no stored line
  executes anything, every line can be painted, and the rows of the page are those of the lines.
\<close>

definition painted :: "out_env \<Rightarrow> int \<Rightarrow> line \<times> echo_opts \<Rightarrow> js_error + string list list" where
  "painted env w = (\<lambda>(l, opts).
     (case line_text env l of
        Inl e \<Rightarrow> Inl e
      | Inr s \<Rightarrow>
          (if s = '''' then Inr []
           else case line_rows env w (lo_raw opts) (fst (line_source env (lo_raw opts) s)) of
                  Inl e \<Rightarrow> Inl e | Inr rs \<Rightarrow> Inr [rs])))"

definition paintable :: "out_env \<Rightarrow> int \<Rightarrow> line \<times> echo_opts \<Rightarrow> bool" where
  "paintable env w x \<longleftrightarrow> (case painted env w x of Inl e \<Rightarrow> False | Inr ws \<Rightarrow> True)"

definition wrappers :: "out_env \<Rightarrow> int \<Rightarrow> line \<times> echo_opts \<Rightarrow> string list list" where
  "wrappers env w x = (case painted env w x of Inl e \<Rightarrow> [] | Inr ws \<Rightarrow> ws)"

definition line_chunks :: "out_env \<Rightarrow> int \<Rightarrow> line \<times> echo_opts \<Rightarrow> chunk list" where
  "line_chunks env w x =
     concat (map (\<lambda>rs. NewLine # map Html rs @ [Finalize (lo_finalize (snd x))]) (wrappers env w x))"

definition page_ok :: "out_env \<Rightarrow> 'a out_scheme \<Rightarrow> bool" where
  "page_ok env st \<longleftrightarrow>
     (\<forall>x\<in>set (lines st). \<not> lo_exec (snd x) \<and> paintable env (cols st) x) \<and>
     page_rows st = concat (map (wrappers env (cols st)) (lines st))"

lemma painted_exec [simp]: "painted env w (l, opts\<lparr>lo_exec := b\<rparr>) = painted env w (l, opts)"
  by (auto simp: painted_def split: sum.splits)

lemma paintable_exec [simp]: "paintable env w (l, opts\<lparr>lo_exec := b\<rparr>) = paintable env w (l, opts)"
  by (simp add: paintable_def)

lemma wrappers_exec [simp]: "wrappers env w (l, opts\<lparr>lo_exec := b\<rparr>) = wrappers env w (l, opts)"
  by (simp add: wrappers_def)

text \<open>What \<open>process_line\<close> does with a line that can be painted: chunks in the buffer and reports of formatters.\<close>

lemma process_line_painted:
  assumes "paintable env (cols st) (l, opts)" "\<not> lo_exec opts"
  obtains es where "process_line env run skip l opts st =
    st\<lparr>alerts := alerts st @ es, buffer := buffer st @ line_chunks env (cols st) (l, opts)\<rparr>"
proof -
  obtain s where s: "line_text env l = Inr s"
    using assms(1) by (auto simp: paintable_def painted_def split: sum.splits)
  show ?thesis
  proof (cases "s = ''''")
    case True
    then show ?thesis
      using that [of "[]"] assms(2) s by (simp add: process_line_def line_chunks_def wrappers_def painted_def)
  next
    case False
    obtain t es where t: "line_source env (lo_raw opts) s = (t, es)" by force
    obtain rs where rs: "line_rows env (cols st) (lo_raw opts) t = Inr rs"
      using assms(1) False s t by (auto simp: paintable_def painted_def split: sum.splits)
    show ?thesis
      using that [of es] assms(2) False s t rs
      by (simp add: process_line_def line_chunks_def wrappers_def painted_def buffer_line_def caught_def)
  qed
qed

lemma flush_chunks_line:
  "flush_chunks (line_chunks env w x @ cs) v =
    (let (ws, fs) = flush_chunks cs (if wrappers env w x = [] then v else Some (last (wrappers env w x)))
     in (wrappers env w x @ ws, (case lo_finalize (snd x) of None \<Rightarrow> [] | Some k \<Rightarrow> replicate (length (wrappers env w x)) k) @ fs))"
proof -
  have one: "flush_chunks (map Html rs @ cs) (Some qs) = flush_chunks cs (Some (qs @ rs))" for rs cs qs
    by (induction rs arbitrary: qs) simp_all
  have "flush_chunks (concat (map (\<lambda>rs. NewLine # map Html rs @ [Finalize f]) ws) @ cs) v =
      (let (us, fs) = flush_chunks cs (if ws = [] then v else Some (last ws))
       in (ws @ us, (case f of None \<Rightarrow> [] | Some k \<Rightarrow> replicate (length ws) k) @ fs))" for ws f v
    by (induction ws arbitrary: v) (auto simp: one split: prod.splits option.splits)
  then show ?thesis by (simp add: line_chunks_def)
qed

lemma flush_chunks_lines:
  "fst (flush_chunks (concat (map (line_chunks env w) xs)) v) = concat (map (wrappers env w) xs)"
proof (induction xs arbitrary: v)
  case (Cons x xs)
  have "fst (flush_chunks (line_chunks env w x @ cs) v) =
      wrappers env w x @ fst (flush_chunks cs (if wrappers env w x = [] then v else Some (last (wrappers env w x))))" for cs
    by (simp add: flush_chunks_line split: prod.splits)
  with Cons.IH show ?case by simp
qed simp

lemma process_lines_painted:
  assumes "\<forall>x\<in>set xs. paintable env (cols st) x \<and> \<not> lo_exec (snd x)"
  shows "\<exists>es. fold (\<lambda>(l, opts). process_line env run skip l opts) xs st =
    st\<lparr>alerts := alerts st @ es, buffer := buffer st @ concat (map (line_chunks env (cols st)) xs)\<rparr>"
  using assms
proof (induction xs arbitrary: st)
  case Nil
  have "st = st\<lparr>alerts := alerts st @ [], buffer := buffer st @ []\<rparr>" by simp
  then show ?case by (metis concat.simps(1) fold_simps(1) list.map(1))
next
  case (Cons x xs)
  obtain l opts where x: "x = (l, opts)" by (cases x)
  have "paintable env (cols st) (l, opts)" "\<not> lo_exec opts" using Cons.prems x by auto
  then obtain es where es: "process_line env run skip l opts st =
      st\<lparr>alerts := alerts st @ es, buffer := buffer st @ line_chunks env (cols st) (l, opts)\<rparr>"
    by (rule process_line_painted)
  let ?st = "st\<lparr>alerts := alerts st @ es, buffer := buffer st @ line_chunks env (cols st) (l, opts)\<rparr>"
  have "\<forall>x\<in>set xs. paintable env (cols ?st) x \<and> \<not> lo_exec (snd x)" using Cons.prems by simp
  from Cons.IH [OF this] obtain es' where "fold (\<lambda>(l, opts). process_line env run skip l opts) xs ?st =
      ?st\<lparr>alerts := alerts ?st @ es', buffer := buffer ?st @ concat (map (line_chunks env (cols ?st)) xs)\<rparr>" by blast
  then show ?case by (intro exI [of _ "es @ es'"]) (simp add: x es)
qed

lemma flush_no_limit:
  "output_limit env < 0 \<Longrightarrow> buffer st = concat (map (line_chunks env w) xs) \<Longrightarrow>
   page_rows (flush env st) = page_rows st @ concat (map (wrappers env w) xs) \<and>
   lines (flush env st) = lines st \<and> cols (flush env st) = cols st"
  using flush_chunks_lines [of env w xs None]
  by (auto simp: flush_def limit_rows_def Let_def split: prod.splits)

lemma redraw_page_ok:
  assumes "output_limit env < 0" "\<forall>x\<in>set (lines st). \<not> lo_exec (snd x) \<and> paintable env (cols st) x"
  shows "page_ok env (redraw_lines env run st) \<and> lines (redraw_lines env run st) = lines st"
proof -
  let ?st = "st\<lparr>page_rows := [], buffer := []\<rparr>"
  have "\<forall>x\<in>set (lines st). paintable env (cols ?st) x \<and> \<not> lo_exec (snd x)" using assms(2) by simp
  from process_lines_painted [OF this] obtain es where
    p: "fold (\<lambda>(l, opts). process_line env run (skip_call env) l opts) (lines st) ?st =
      ?st\<lparr>alerts := alerts ?st @ es, buffer := buffer ?st @ concat (map (line_chunks env (cols ?st)) (lines st))\<rparr>" by blast
  have l: "lines_to_show env st = lines st" using assms(1) by (simp add: lines_to_show_def)
  show ?thesis
    using flush_no_limit [OF assms(1), of "?st\<lparr>alerts := alerts ?st @ es,
        buffer := buffer ?st @ concat (map (line_chunks env (cols ?st)) (lines st))\<rparr>" "cols st" "lines st"] assms(2)
    by (simp add: redraw_lines_def l p page_ok_def)
qed

text \<open>The line as \<open>echo\<close> stores it.\<close>

definition stored_line :: "line \<Rightarrow> line" where
  "stored_line l = (case l of LineVal v \<Rightarrow> (if truthy v then l else LineVal (JStr '''')) | LineFun k \<Rightarrow> l)"

lemma no_markup_stored: "no_markup env l \<Longrightarrow> no_markup env (stored_line l)"
  by (auto simp: no_markup_def line_text_def stored_line_def split: line.splits)

lemma echo_page_ok:
  assumes "output_limit env < 0" "page_ok env st" "no_markup env l" "lo_flush opts"
    and "paintable env (cols st) (stored_line l, opts)"
  shows "page_ok env (echo env run l opts st) \<and>
    lines (echo env run l opts st) = lines st @ [(stored_line l, opts\<lparr>lo_exec := False\<rparr>)]"
proof -
  let ?x = "(stored_line l, opts\<lparr>lo_exec := False\<rparr>)"
  have "paintable env (cols (st\<lparr>buffer := []\<rparr>)) ?x" "\<not> lo_exec (opts\<lparr>lo_exec := False\<rparr>)" using assms(5) by simp_all
  then obtain es where es: "process_line env run (skip_call env) (stored_line l) (opts\<lparr>lo_exec := False\<rparr>) (st\<lparr>buffer := []\<rparr>) =
      (st\<lparr>buffer := []\<rparr>)\<lparr>alerts := alerts (st\<lparr>buffer := []\<rparr>) @ es, buffer := buffer (st\<lparr>buffer := []\<rparr>) @ line_chunks env (cols (st\<lparr>buffer := []\<rparr>)) ?x\<rparr>"
    by (rule process_line_painted)
  have e: "echo env run l opts st = flush env (st\<lparr>alerts := alerts st @ es,
      buffer := concat (map (line_chunks env (cols st)) [?x]), lines := lines st @ [?x]\<rparr>)"
    using process_line_none [OF no_markup_stored [OF assms(3)], of run "skip_call env" opts "st\<lparr>buffer := []\<rparr>" run "skip_call env"]
      assms(4) es
    by (simp add: echo_def echo_with_def stored_line_def [symmetric] Let_def)
  show ?thesis
    unfolding e
    using flush_no_limit [OF assms(1), of "st\<lparr>alerts := alerts st @ es,
        buffer := concat (map (line_chunks env (cols st)) [?x]), lines := lines st @ [?x]\<rparr>" "cols st" "[?x]"]
      assms(2,5) by (auto simp: page_ok_def)
qed


text \<open>The operations on the output, and what they do to the list of lines.\<close>

datatype out_op = Echo line echo_opts | Clear | Update int line | Resize int int

fun out_apply :: "out_env \<Rightarrow> (string \<Rightarrow> 'a out_scheme \<Rightarrow> 'a out_scheme) \<Rightarrow> out_op \<Rightarrow> 'a out_scheme \<Rightarrow> 'a out_scheme" where
  "out_apply env run (Echo l opts) st = echo env run l opts st"
| "out_apply env run Clear st = clear_output st"
| "out_apply env run (Update n l) st = update_line env run n l st"
| "out_apply env run (Resize c r) st = resize_output env run c r st"

fun lines_apply :: "out_op \<Rightarrow> (line \<times> echo_opts) list \<Rightarrow> (line \<times> echo_opts) list" where
  "lines_apply (Echo l opts) ls = ls @ [(stored_line l, opts\<lparr>lo_exec := False\<rparr>)]"
| "lines_apply Clear ls = []"
| "lines_apply (Update n l) ls =
     (let k = nat (if n < 0 then int (length ls) + n else n) in ls[k := (l, snd (ls ! k))])"
| "lines_apply (Resize c r) ls = ls"

text \<open>
  When the operations are ordinary ones: what is echoed executes nothing and can be painted, a line that is
  updated exists, and after a change of the width all lines can be painted.
\<close>

fun op_ok :: "out_env \<Rightarrow> out_op \<Rightarrow> 'a out_scheme \<Rightarrow> bool" where
  "op_ok env (Echo l opts) st \<longleftrightarrow> no_markup env l \<and> lo_flush opts \<and> paintable env (cols st) (stored_line l, opts)"
| "op_ok env Clear st \<longleftrightarrow> True"
| "op_ok env (Update n l) st \<longleftrightarrow>
     (let n = (if n < 0 then int (length (lines st)) + n else n)
      in 0 \<le> n \<and> n < int (length (lines st)) \<and> paintable env (cols st) (l, snd (lines st ! nat n)))"
| "op_ok env (Resize c r) st \<longleftrightarrow> (\<forall>x\<in>set (lines st). paintable env c x)"

fun ops_ok :: "out_env \<Rightarrow> (string \<Rightarrow> 'a out_scheme \<Rightarrow> 'a out_scheme) \<Rightarrow> out_op list \<Rightarrow> 'a out_scheme \<Rightarrow> bool" where
  "ops_ok env run [] st \<longleftrightarrow> True"
| "ops_ok env run (x # xs) st \<longleftrightarrow> op_ok env x st \<and> ops_ok env run xs (out_apply env run x st)"

lemma op_page_ok:
  assumes "output_limit env < 0" "page_ok env st" "op_ok env x st"
  shows "page_ok env (out_apply env run x st) \<and> lines (out_apply env run x st) = lines_apply x (lines st)"
proof (cases x)
  case (Echo l opts)
  with assms show ?thesis using echo_page_ok [of env st l opts run] by simp
next
  case Clear
  then show ?thesis by (simp add: clear_output_def page_ok_def)
next
  case (Update n l)
  define k where "k = (if n < 0 then int (length (lines st)) + n else n)"
  have k: "0 \<le> k" "k < int (length (lines st))" "paintable env (cols st) (l, snd (lines st ! nat k))"
    using assms(3) by (simp_all add: Update k_def Let_def)
  let ?st = "st\<lparr>lines := (lines st)[nat k := (l, snd (lines st ! nat k))]\<rparr>"
  have "lines st ! nat k \<in> set (lines st)" using k by (intro nth_mem) simp
  then have "\<not> lo_exec (snd (lines st ! nat k))" using assms(2) by (simp add: page_ok_def)
  then have "\<forall>x\<in>set (lines ?st). \<not> lo_exec (snd x) \<and> paintable env (cols ?st) x"
    using assms(2) k(3) by (auto simp: page_ok_def dest!: set_update_subset_insert [THEN subsetD])
  from redraw_page_ok [OF assms(1) this, of run]
  have r: "page_ok env (redraw_lines env run ?st)" "lines (redraw_lines env run ?st) = lines ?st" by simp_all
  have "update_line env run n l st = redraw_lines env run ?st"
    using k by (simp add: update_line_def k_def [symmetric] at_in split: prod.splits)
  with r show ?thesis by (simp add: Update k_def [symmetric] Let_def)
next
  case (Resize c r)
  have "page_ok env (redraw_lines env run (st\<lparr>cols := c, rows := r\<rparr>)) \<and>
      lines (redraw_lines env run (st\<lparr>cols := c, rows := r\<rparr>)) = lines (st\<lparr>cols := c, rows := r\<rparr>)"
    using assms(2,3) by (intro redraw_page_ok [OF assms(1)]) (simp add: Resize page_ok_def)
  then show ?thesis using assms(2) by (simp add: Resize resize_output_def)
qed




section \<open>The output limit\<close>

lemma concat_drop_rows: "concat (drop_rows k ws) = drop k (concat ws)"
proof (induction k ws rule: drop_rows.induct)
  case (2 k w ws)
  then show ?case by auto
qed simp

text \<open>
  With an output limit the rows to remove are counted by all lines ever echoed. Once the page is full and
  there were nearly twice as many lines, the next line removes every row, itself included.
\<close>

theorem limit_empties_page:
  assumes "output_limit env = int n" "0 < n" "length (concat (page_rows st)) = n" "2 * n \<le> Suc (length (lines st))"
    and "no_markup env l" "painted env (cols st) (stored_line l, opts) = Inr [[r]]" "lo_flush opts"
  shows "concat (page_rows (echo env run l opts st)) = []"
proof -
  let ?x = "(stored_line l, opts\<lparr>lo_exec := False\<rparr>)"
  have w: "wrappers env (cols st) ?x = [[r]]" using assms(6) by (simp add: wrappers_def)
  have "paintable env (cols (st\<lparr>buffer := []\<rparr>)) ?x" "\<not> lo_exec (opts\<lparr>lo_exec := False\<rparr>)"
    using assms(6) by (simp_all add: paintable_def)
  then obtain es where es: "process_line env run (skip_call env) (stored_line l) (opts\<lparr>lo_exec := False\<rparr>) (st\<lparr>buffer := []\<rparr>) =
      (st\<lparr>buffer := []\<rparr>)\<lparr>alerts := alerts (st\<lparr>buffer := []\<rparr>) @ es, buffer := buffer (st\<lparr>buffer := []\<rparr>) @ line_chunks env (cols (st\<lparr>buffer := []\<rparr>)) ?x\<rparr>"
    by (rule process_line_painted)
  have e: "echo env run l opts st = flush env (st\<lparr>alerts := alerts st @ es,
      buffer := line_chunks env (cols st) ?x, lines := lines st @ [?x]\<rparr>)"
    using process_line_none [OF no_markup_stored [OF assms(5)], of run "skip_call env" opts "st\<lparr>buffer := []\<rparr>" run "skip_call env"]
      assms(7) es
    by (simp add: echo_def echo_with_def stored_line_def [symmetric] Let_def)
  obtain fs where c: "flush_chunks (line_chunks env (cols st) ?x) None = ([[r]], fs)"
    using flush_chunks_lines [of env "cols st" "[?x]" None] w
    by (cases "flush_chunks (line_chunks env (cols st) ?x) None") simp
  let ?shown = "concat (page_rows st) @ [r]"
  have k: "slice ?shown 0 (int (Suc (length (lines st))) - int n + 1) = ?shown"
    using assms(3,4) by (simp add: slice_prefix)
  have "concat (page_rows (echo env run l opts st)) = drop (length ?shown) ?shown"
    unfolding e flush_def using assms(1,2,3) k
    by (simp add: c limit_rows_def line_limit_def concat_drop_rows del: concat_eq_Nil_conv)
  then show ?thesis by simp
qed

definition limit_env :: "int \<Rightarrow> out_env" where
  "limit_env n = plain_env\<lparr>output_limit := n\<rparr>"

theorem limit_empties_page_witness:
  "concat (page_rows (echo (limit_env 1) (\<lambda>_ st. st) (LineVal (JStr ''b'')) (default_opts plain_env)
     (echo (limit_env 1) (\<lambda>_ st. st) (LineVal (JStr ''a'')) (default_opts plain_env) empty_out))) = []"
proof (rule limit_empties_page [of _ 1])
  let ?st = "echo (limit_env 1) (\<lambda>_ st. st) (LineVal (JStr ''a'')) (default_opts plain_env) empty_out"
  show "length (concat (page_rows ?st)) = 1" "2 * 1 \<le> Suc (length (lines ?st))" "no_markup (limit_env 1) (LineVal (JStr ''b''))"
    "painted (limit_env 1) (cols ?st) (stored_line (LineVal (JStr ''b'')), default_opts plain_env) = Inr [[''<span>b</span>'']]"
    by (code_simp)+
qed (simp_all add: limit_env_def plain_env_def default_opts_def)

text \<open>
  With an output limit and no more lines than the limit, a redraw shows \<open>n\<close> lines less the free ones: when
  the lines are just as many as the limit only the last one is shown again.
\<close>

theorem redraw_hides_lines:
  assumes "output_limit env = int n" "0 < n" "length (lines st) \<le> n"
  shows "lines_to_show env st = drop (2 * length (lines st) - Suc n) (lines st)"
proof -
  let ?m = "Suc n - length (lines st)"
  have eq: "int (length (lines st)) - int n - 1 = - int ?m" "0 < int ?m" using assms(3) by simp_all
  have lim: "line_limit env st = int n" "0 \<le> output_limit env" using assms(1,2) by (simp_all add: line_limit_def)
  have "lines_to_show env st = slice_from (lines st) (- int ?m)"
    by (simp only: lines_to_show_def lim if_True eq)
  also have "\<dots> = drop (length (lines st) - ?m) (lines st)"
    using slice_from_neg [OF eq(2), of "lines st"] by simp
  also have "length (lines st) - ?m = 2 * length (lines st) - Suc n" using assms(3) by simp
  finally show ?thesis .
qed

theorem redraw_hides_lines_witness:
  "lines_to_show (limit_env 2) (empty_out\<lparr>lines := [(LineFun 0, default_opts plain_env), (LineFun 1, default_opts plain_env)]\<rparr>)
     = [(LineFun 1, default_opts plain_env)]"
  using redraw_hides_lines [of "limit_env 2" 2
      "empty_out\<lparr>lines := [(LineFun 0, default_opts plain_env), (LineFun 1, default_opts plain_env)]\<rparr>"]
  by (simp add: limit_env_def plain_env_def)

end
