(* ===== verification/Term_Core.thy ===== *)
theory Term_Core
  imports Term_Output Containers
begin

text \<open>
  The nested interpreters of the terminal widget: \<open>push\<close>, \<open>pop\<close>, \<open>login\<close>, \<open>logout\<close>, the tokens in the storage
  and \<open>prepare_top_interpreter\<close>, which gives the command line the prompt and the history of the interpreter on
  top. The state is that of the output extended by the stack, the command line and the flags. A method gives
  the error it throws, if any, and the state it leaves.

  The functions of the page's author are known by numbers and found in the environment. The hooks \<open>onStart\<close>,
  \<open>onExit\<close> and the like may write to the output; what an interpreter function does is in the theory \<open>Term_Exec\<close>.
\<close>

section \<open>State\<close>

text \<open>\<open>success\<close> and \<open>error\<close> of a login: \<open>initialize\<close> or \<open>prepare_top_interpreter\<close>, and \<open>self.pop\<close> or nothing.\<close>

datatype success = NoSuccess | Initialize | Prepare

record login_call =
  auth :: nat
  infinite :: bool
  success :: success
  on_error_pop :: bool

text \<open>
  An interpreter function: one of the author's, the two closures that a login pushes, and the closure of \<open>read\<close>.
\<close>

datatype intrp_fun = UserFun nat | AskName login_call | AskPass login_call string | ReadText nat

record intrp =
  i_fun :: intrp_fun
  i_name :: "string option"
  i_prompt :: prompt
  i_mask :: "mask option"
  i_start :: "nat option"
  i_exit :: "nat option"

record terminal = out +
  interpreters :: "intrp stack"
  command_line :: cmd
  in_login :: bool
  paused :: bool
  t_enabled :: bool
  frozen :: bool
  prev_name :: "string option"
  autologin_handler :: "login_call option"
  delayed :: "(string \<times> bool \<times> nat) list"
  on_resume :: "(string \<times> nat option) list"   \<comment> \<open>commands that paused the terminal\<close>
  pending :: "(nat \<times> string \<times> int \<times> nat option) list" \<comment> \<open>commands that returned a promise\<close>
  resolved :: "nat list"
  next_promise :: nat

record t_env =
  t_out :: out_env
  cmd_opts :: options
  base_name :: string     \<comment> \<open>\<open>settings.name\<close>\<close>
  terminal_id :: nat
  login_setting :: "nat option"
  history_setting :: bool
  global_token :: bool
  exit_setting :: bool
  clear_setting :: bool
  greeting :: "string option"
  hook :: "nat \<Rightarrow> out \<Rightarrow> js_error option \<times> out"
  on_exit :: "nat option"
  on_init :: "nat option"
  on_clear :: "nat option"
  on_pause :: "nat option"
  after_resume :: "nat option"  \<comment> \<open>\<open>onResume\<close>\<close>
  on_before_logout :: "(out \<Rightarrow> (js_error + bool) \<times> out) option" \<comment> \<open>\<open>Inr False\<close>: it returned \<open>false\<close>\<close>
  on_after_logout :: "nat option"
  add_class :: nat       \<comment> \<open>the finalize function of an echoed command\<close>
  extended :: "string \<Rightarrow> terminal \<Rightarrow> terminal" \<comment> \<open>\<open>extended_command\<close>\<close>

section \<open>Errors on the page\<close>

type_synonym 'a meth = "'a \<Rightarrow> js_error option \<times> 'a"

definition and_then :: "js_error option \<times> 'a \<Rightarrow> 'a meth \<Rightarrow> js_error option \<times> 'a" where
  "and_then r f = (case r of (None, st) \<Rightarrow> f st | (Some e, st) \<Rightarrow> (Some e, st))"

lemma and_then_simps [simp]: "and_then (None, st) f = f st" "and_then (Some e, st) f = (Some e, st)"
  by (simp_all add: and_then_def)

definition out_of :: "terminal \<Rightarrow> out" where
  "out_of st = out.truncate st"

definition with_out :: "out \<Rightarrow> terminal \<Rightarrow> terminal" where
  "with_out o' st = st\<lparr>lines := lines o', buffer := buffer o', page_rows := page_rows o', finalized := finalized o',
     alerts := alerts o', cols := cols o', rows := rows o', prev := prev o'\<rparr>"

definition t_error :: "t_env \<Rightarrow> string \<Rightarrow> terminal \<Rightarrow> terminal" where
  "t_error env msg = echo_error (t_out env) (extended env) msg"

fun exception_message :: "js_error \<Rightarrow> string" where
  "exception_message (Throw s) = s"
| "exception_message TypeError = ''TypeError''"
| "exception_message SyntaxError = ''SyntaxError''"

definition exception_text :: "js_error \<Rightarrow> string \<Rightarrow> string" where
  "exception_text e label = ''&#91;'' @ label @ ''&#93;: '' @ exception_message e"

text \<open>\<open>display_exception\<close> without the author's handler; a stack trace is not shown.\<close>

definition display_exception :: "t_env \<Rightarrow> js_error \<Rightarrow> string \<Rightarrow> terminal \<Rightarrow> terminal" where
  "display_exception env e label = t_error env (exception_text e label)"

text \<open>The wrapper around every method but \<open>exec\<close> and \<open>resume\<close>.\<close>

definition guarded :: "t_env \<Rightarrow> terminal meth \<Rightarrow> terminal meth" where
  "guarded env m st = (case m st of (None, st) \<Rightarrow> (None, st) | (Some e, st) \<Rightarrow> (Some e, display_exception env e ''TERMINAL'' st))"

text \<open>A hook of the author: an exception is shown and thrown again.\<close>

definition run_hook :: "t_env \<Rightarrow> string \<Rightarrow> nat option \<Rightarrow> terminal meth" where
  "run_hook env label h st =
     (case h of
        None \<Rightarrow> (None, st)
      | Some k \<Rightarrow>
          (case hook env k (out_of st) of
             (None, o') \<Rightarrow> (None, with_out o' st)
           | (Some e, o') \<Rightarrow> (Some e, display_exception env e label (with_out o' st))))"

section \<open>Names, tokens and the storage\<close>

definition stack_list :: "terminal \<Rightarrow> intrp list" where
  "stack_list st = stack_data (interpreters st)"

text \<open>\<open>$.map\<close> drops the names that are \<open>undefined\<close>.\<close>

definition prefix_name :: "t_env \<Rightarrow> bool \<Rightarrow> terminal \<Rightarrow> string" where
  "prefix_name env local st =
     (let name = (if base_name env \<noteq> '''' then base_name env @ ''_'' else '''') @ show_nat (terminal_id env)
      in if local \<and> stack_size (interpreters st) > 1
         then name @ ''_'' @ join_with ''_'' (drop 1 (List.map_filter i_name (stack_list st)))
         else name)"

definition store_of :: "terminal \<Rightarrow> browser" where
  "store_of st = page (command_line st)"

definition with_store :: "browser \<Rightarrow> terminal \<Rightarrow> terminal" where
  "with_store b st = st\<lparr>command_line := (command_line st)\<lparr>page := b\<rparr>\<rparr>"

definition token :: "t_env \<Rightarrow> bool \<Rightarrow> terminal \<Rightarrow> string option" where
  "token env local st = storage_get (prefix_name env (local \<and> \<not> global_token env) st @ ''_token'') (store_of st)"

definition login_name :: "t_env \<Rightarrow> bool \<Rightarrow> terminal \<Rightarrow> string option" where
  "login_name env local st = storage_get (prefix_name env local st @ ''_login'') (store_of st)"

definition set_token :: "t_env \<Rightarrow> string option \<Rightarrow> bool \<Rightarrow> terminal \<Rightarrow> terminal" where
  "set_token env tok local st =
     (let name = prefix_name env local st @ ''_token''
      in case tok of
           None \<Rightarrow> with_store (storage_del name (store_of st)) st
         | Some t \<Rightarrow> with_store (storage_put name t (store_of st)) st)"

definition given :: "string option \<Rightarrow> bool" where \<comment> \<open>a truthy string\<close>
  "given t \<longleftrightarrow> (case t of None \<Rightarrow> False | Some s \<Rightarrow> s \<noteq> '''')"

definition clear_loging_storage :: "t_env \<Rightarrow> terminal \<Rightarrow> terminal" where
  "clear_loging_storage env st =
     (let name = prefix_name env True st @ ''_''
      in with_store (storage_del (name @ ''login'') (storage_del (name @ ''token'') (store_of st))) st)"

definition ghost :: "terminal \<Rightarrow> bool" where
  "ghost st \<longleftrightarrow> in_login st \<or> mask (command_line st) \<noteq> MaskBool False"

definition maybe_append_name :: "t_env \<Rightarrow> string \<Rightarrow> terminal meth" where
  "maybe_append_name env nm st =
     (let key = prefix_name env False st @ ''_interpreters'';
          add = (\<lambda>names. if nm \<in> set names then (None, st)
                         else (None, with_store (storage_put key (json_stringify (JArr (map JStr (names @ [nm]))) 1) (store_of st)) st))
      in if given (storage_get key (store_of st)) then
           (case parse_strings (the (storage_get key (store_of st))) of
              None \<Rightarrow> (Some SyntaxError, st) | Some names \<Rightarrow> add names)
         else add [])"


section \<open>The interpreter on top\<close>

definition run_raw :: "t_env \<Rightarrow> nat option \<Rightarrow> terminal meth" where
  "run_raw env h st =
     (case h of None \<Rightarrow> (None, st) | Some k \<Rightarrow> (let (e, o') = hook env k (out_of st) in (e, with_out o' st)))"

definition prepare_top :: "t_env \<Rightarrow> bool \<Rightarrow> terminal meth" where
  "prepare_top env silent st =
     (let nm = prefix_name env True st
      in and_then (if ghost st then (None, st) else maybe_append_name env nm st) (\<lambda>st.
         (let (e, c) = cmd_set_name (cmd_opts env) (JStr nm) (command_line st);
              st = st\<lparr>command_line := c\<rparr>
          in case e of
               Some e \<Rightarrow> (Some e, st)
             | None \<Rightarrow>
                 (case stack_top (interpreters st) of
                    None \<Rightarrow> (Some TypeError, st)
                  | Some i \<Rightarrow>
                      (let c = cmd_set (cmd_opts env) (Some '''') False (cmd_set_prompt (cmd_opts env) (i_prompt i) c);
                           st = st\<lparr>command_line := c\<rparr>
                       in if silent then (None, st) else run_raw env (i_start i) st)))))"

text \<open>\<open>set_mask(undefined)\<close> reads the mask and changes nothing.\<close>

definition set_mask :: "t_env \<Rightarrow> mask option \<Rightarrow> terminal \<Rightarrow> terminal" where
  "set_mask env m st =
     (case m of
        None \<Rightarrow> st
      | Some m \<Rightarrow> st\<lparr>command_line := cmd_set_mask (if m = MaskBool True then MaskStr (mask_char (t_out env)) else m) (command_line st)\<rparr>)"

definition echo_typed :: "t_env \<Rightarrow> string \<Rightarrow> terminal \<Rightarrow> terminal" where
  "echo_typed env cmd_text st = echo_command (t_out env) (extended env) (command_line st) (add_class env) cmd_text st"

section \<open>push\<close>

record push_opts =
  po_name :: "string option"
  po_prompt :: "prompt option"
  po_start :: "nat option"
  po_exit :: "nat option"
  po_login :: "nat option"

definition push_intrp :: "intrp_fun \<Rightarrow> push_opts \<Rightarrow> terminal \<Rightarrow> terminal" where
  "push_intrp f po st =
     (let nm = (if \<not> given (po_name po) \<and> prev_name st \<noteq> None then prev_name st else po_name po);
          p = (case po_prompt po of Some p \<Rightarrow> p
               | None \<Rightarrow> PromptStr ((case nm of Some n \<Rightarrow> n | None \<Rightarrow> ''undefined'') @ '' ''));
          data = stack_list st;
          data = (if data = [] then [] else data[length data - 1 := (last data)\<lparr>i_mask := Some (mask (command_line st))\<rparr>])
      in st\<lparr>interpreters := snd (stack_push \<lparr>i_fun = f, i_name = nm, i_prompt = p, i_mask = None, i_start = po_start po,
              i_exit = po_exit po\<rparr> ((interpreters st)\<lparr>stack_data := data\<rparr>))\<rparr>)"

text \<open>\<open>push\<close> for options without a login.\<close>

definition push_plain :: "t_env \<Rightarrow> intrp_fun \<Rightarrow> push_opts \<Rightarrow> terminal meth" where
  "push_plain env f po = guarded env (\<lambda>st. prepare_top env False (push_intrp f po st))"

definition prompt_only :: "string \<Rightarrow> push_opts" where
  "prompt_only p = \<lparr>po_name = None, po_prompt = Some (PromptStr p), po_start = None, po_exit = None, po_login = None\<rparr>"

section \<open>Pause, enable, initialize\<close>

definition enable :: "terminal \<Rightarrow> terminal" where
  "enable st =
     (if \<not> t_enabled st \<and> \<not> frozen st then st\<lparr>command_line := cmd_enable (command_line st), t_enabled := True\<rparr> else st)"

definition disable :: "terminal \<Rightarrow> terminal" where
  "disable st =
     (if t_enabled st \<and> \<not> frozen st then st\<lparr>t_enabled := False, command_line := cmd_disable (command_line st)\<rparr> else st)"

definition pause :: "t_env \<Rightarrow> terminal meth" where
  "pause env = guarded env (\<lambda>st. if \<not> paused st then run_raw env (on_pause env) (disable (st\<lparr>paused := True\<rparr>)) else (None, st))"

definition show_greetings :: "t_env \<Rightarrow> terminal \<Rightarrow> terminal" where
  "show_greetings env st =
     (case greeting env of
        None \<Rightarrow> st
      | Some g \<Rightarrow> (if g = '''' then st else echo (t_out env) (extended env) (LineVal (JStr g)) (default_opts (t_out env)) st))"

text \<open>
  \<open>initialize\<close>. \<open>onInit\<close> may call \<open>pause\<close> (\<open>init_pauses\<close>), otherwise the terminal is resumed: \<open>R\<close> is \<open>self.resume\<close>.
\<close>

definition initialize :: "t_env \<Rightarrow> bool \<Rightarrow> terminal meth \<Rightarrow> terminal meth" where
  "initialize env init_pauses R st =
     and_then (prepare_top env False st) (\<lambda>st.
       (let st = show_greetings env st;
            st = (case on_init env of
                    None \<Rightarrow> st
                  | Some k \<Rightarrow>
                      (case hook env k (out_of st) of
                         (None, o') \<Rightarrow> with_out o' st
                       | (Some e, o') \<Rightarrow> display_exception env e ''OnInit'' (with_out o' st)))
        in if init_pauses \<and> on_init env \<noteq> None then pause env st else R st))"


section \<open>login\<close>

definition run_success :: "t_env \<Rightarrow> bool \<Rightarrow> terminal meth \<Rightarrow> success \<Rightarrow> terminal meth" where
  "run_success env ip R s st =
     (case s of
        NoSuccess \<Rightarrow> (None, st)
      | Prepare \<Rightarrow> prepare_top env False st
      | Initialize \<Rightarrow> initialize env ip R st)"

definition login_text :: string where "login_text = ''login: ''"
definition password_text :: string where "password_text = ''password: ''"

definition set_history :: "(hist \<Rightarrow> hist) \<Rightarrow> terminal \<Rightarrow> terminal" where
  "set_history f st = st\<lparr>command_line := (command_line st)\<lparr>history := f (history (command_line st))\<rparr>\<rparr>"

definition login :: "t_env \<Rightarrow> bool \<Rightarrow> terminal meth \<Rightarrow> login_call \<Rightarrow> terminal meth" where
  "login env ip R lc = guarded env (\<lambda>st.
     (if in_login st then (Some (Throw ''You can't call `login' function while in login''), st)
      else if given (token env True st) \<and> given (login_name env True st) then run_success env ip R (success lc) st
      else
        (let st = (if history_setting env then set_history h_disable st else st);
             st = st\<lparr>in_login := True, autologin_handler := Some lc\<rparr>
         in push_plain env (AskName lc) (prompt_only login_text) st)))"

definition push :: "t_env \<Rightarrow> bool \<Rightarrow> terminal meth \<Rightarrow> intrp_fun \<Rightarrow> push_opts \<Rightarrow> terminal meth" where
  "push env ip R f po = guarded env (\<lambda>st.
     (let st = push_intrp f po st
      in case po_login po of
           None \<Rightarrow> prepare_top env False st
         | Some a \<Rightarrow> login env ip R \<lparr>auth = a, infinite = False, success = Prepare, on_error_pop = True\<rparr> st))"

section \<open>pop and logout\<close>

definition global_logout :: "t_env \<Rightarrow> bool \<Rightarrow> terminal meth \<Rightarrow> nat \<Rightarrow> terminal meth" where
  "global_logout env ip R a st =
     (let leave = (\<lambda>st. and_then (run_hook env ''onAfterlogout'' (on_after_logout env) (clear_loging_storage env st))
                     (login env ip R \<lparr>auth = a, infinite = True, success = Initialize, on_error_pop = False\<rparr>))
      in case on_before_logout env of
           None \<Rightarrow> leave st
         | Some f \<Rightarrow>
             (case f (out_of st) of
                (Inl e, o') \<Rightarrow> (Some e, display_exception env e ''onBeforeLogout'' (with_out o' st))
              | (Inr go, o') \<Rightarrow> (if go then leave (with_out o' st) else (None, with_out o' st))))"

text \<open>With more than one interpreter \<open>pop\<close> removes the top one, otherwise it logs out or complains.\<close>

definition pop_nested :: "t_env \<Rightarrow> terminal meth" where
  "pop_nested env st =
     (let st = (if given (token env True st) then clear_loging_storage env st else st);
          (cur, s) = stack_pop (interpreters st);
          st = st\<lparr>interpreters := s\<rparr>
      in and_then (prepare_top env False st) (\<lambda>st.
         (case cur of
            None \<Rightarrow> (Some TypeError, st)
          | Some c \<Rightarrow>
              and_then (run_hook env ''onExit'' (i_exit c) st) (\<lambda>st.
                (case stack_top (interpreters st) of
                   None \<Rightarrow> (Some TypeError, st)
                 | Some i \<Rightarrow> (None, set_mask env (i_mask i) st))))))"

definition pop :: "t_env \<Rightarrow> bool \<Rightarrow> terminal meth \<Rightarrow> string option \<Rightarrow> terminal meth" where
  "pop env ip R txt = guarded env (\<lambda>st.
     (let st = (case txt of None \<Rightarrow> st | Some t \<Rightarrow> echo_typed env t st)
      in if stack_size (interpreters st) = 1 then
           (case login_setting env of
              Some a \<Rightarrow> and_then (global_logout env ip R a st) (run_hook env ''onExit'' (on_exit env))
            | None \<Rightarrow> (None, t_error env ''You can't exit from main interpreter'' st))
         else pop_nested env st))"

text \<open>
  The loop of \<open>logout\<close> pops until \<open>pop\<close> gives something truthy; \<open>pop\<close> gives \<open>true\<close> or the terminal, so the loop
  ends after its first pass.
\<close>

definition logout :: "t_env \<Rightarrow> bool \<Rightarrow> terminal meth \<Rightarrow> bool \<Rightarrow> terminal meth" where
  "logout env ip R local = guarded env (\<lambda>st.
     (if local \<or> stack_size (interpreters st) > 0 then pop env ip R None st else (None, st)))"

text \<open>\<open>while (interpreters.size() > 1) self.pop();\<close> with the size as a bound of the passes: each removes one.\<close>

fun pop_to_one :: "t_env \<Rightarrow> bool \<Rightarrow> terminal meth \<Rightarrow> nat \<Rightarrow> terminal meth" where
  "pop_to_one env ip R 0 st = (None, st)"
| "pop_to_one env ip R (Suc n) st =
     (if stack_size (interpreters st) > 1 then and_then (pop env ip R None st) (pop_to_one env ip R n) else (None, st))"

text \<open>What the callback of a login does with the answer of the author's function.\<close>

definition store_login :: "t_env \<Rightarrow> string \<Rightarrow> string \<Rightarrow> terminal \<Rightarrow> terminal" where
  "store_login env user tok st =
     (let name = prefix_name env True st @ ''_''
      in with_store (storage_put (name @ ''login'') user (storage_put (name @ ''token'') tok (store_of st))) st)"

definition login_callback :: "t_env \<Rightarrow> bool \<Rightarrow> terminal meth \<Rightarrow> login_call \<Rightarrow> string \<Rightarrow> string option \<Rightarrow> bool \<Rightarrow> terminal meth" where
  "login_callback env ip R lc user tok silent st =
     and_then
       (if given tok then
          and_then (pop_to_one env ip R (stack_size (interpreters st)) st) (\<lambda>st.
            (let st = (if history_setting env then set_history h_enable st else st);
                 st = store_login env user (the tok) st
             in run_success env ip R (success lc) (st\<lparr>in_login := False\<rparr>)))
        else
          and_then
            (if infinite lc then
               (let st = (if \<not> silent then t_error env ''Wrong password try again!'' st else st)
                in and_then (pop env ip R None st) (\<lambda>st. (None, set_mask env (Some (MaskBool False)) st)))
             else
               (let st = st\<lparr>in_login := False\<rparr>;
                    st = (if \<not> silent then t_error env ''Wrong password!'' st else st)
                in and_then (pop env ip R None st) (pop env ip R None)))
            (\<lambda>st. if on_error_pop lc then pop env ip R None st else (None, st)))
       (\<lambda>st. (None, st\<lparr>autologin_handler := None\<rparr>))"

definition autologin :: "t_env \<Rightarrow> bool \<Rightarrow> terminal meth \<Rightarrow> string \<Rightarrow> string option \<Rightarrow> bool \<Rightarrow> terminal meth" where
  "autologin env ip R user tok silent = guarded env (\<lambda>st.
     (case autologin_handler st of None \<Rightarrow> (None, st) | Some lc \<Rightarrow> login_callback env ip R lc user tok silent st))"

text \<open>The closures that \<open>login\<close> pushes, called with what was typed.\<close>

definition ask_password :: "t_env \<Rightarrow> login_call \<Rightarrow> string \<Rightarrow> terminal meth" where
  "ask_password env lc user st =
     push_plain env (AskPass lc user) (prompt_only password_text)
       (set_mask env (Some (MaskStr (mask_char (t_out env)))) st)"

section \<open>Other methods\<close>

definition clear :: "t_env \<Rightarrow> terminal meth" where
  "clear env = guarded env (\<lambda>st.
     (let st = clear_output (st\<lparr>command_line := cmd_set (cmd_opts env) (Some '''') False (command_line st)\<rparr>)
      in run_hook env ''onClear'' (on_clear env) st))"

definition reset :: "t_env \<Rightarrow> bool \<Rightarrow> terminal meth \<Rightarrow> terminal meth" where
  "reset env ip R = guarded env (\<lambda>st.
     and_then (clear env st) (\<lambda>st.
       initialize env ip R
         (if stack_list st = [] then st else st\<lparr>interpreters := (interpreters st)\<lparr>stack_data := [hd (stack_list st)]\<rparr>\<rparr>)))"

text \<open>\<open>$.each(null)\<close> throws when nothing is stored.\<close>

definition purge :: "t_env \<Rightarrow> terminal meth" where
  "purge env = guarded env (\<lambda>st.
     (let pre = prefix_name env False st @ ''_''; key = pre @ ''interpreters''
      in if given (storage_get key (store_of st)) then
           (case parse_strings (the (storage_get key (store_of st))) of
              None \<Rightarrow> (Some SyntaxError, st)
            | Some names \<Rightarrow>
                (let st = with_store (fold (\<lambda>nm b. storage_del (nm @ ''_login'') (storage_del (nm @ ''_token'')
                            (storage_del (nm @ ''_commands'') b))) names (store_of st)) st;
                     st = st\<lparr>command_line := cmd_purge (command_line st)\<rparr>
                 in (None, with_store (storage_del key (store_of st)) st)))
         else (Some TypeError, st)))"

definition set_prompt :: "t_env \<Rightarrow> prompt \<Rightarrow> terminal meth" where
  "set_prompt env p = guarded env (\<lambda>st.
     (let st = st\<lparr>command_line := cmd_set_prompt (cmd_opts env) p (command_line st)\<rparr>; data = stack_list st
      in if data = [] then (Some TypeError, st)
         else (None, st\<lparr>interpreters := (interpreters st)\<lparr>stack_data := data[length data - 1 := (last data)\<lparr>i_prompt := p\<rparr>]\<rparr>\<rparr>)))"


section \<open>Frames\<close>

declare json_stringify.simps [simp del]

lemma stack_size_list: "stack_size (interpreters st) = length (stack_list st)"
  by (simp add: stack_size_def stack_list_def)

lemma stack_top_list: "stack_top (interpreters st) = (if stack_list st = [] then None else Some (last (stack_list st)))"
  by (simp add: stack_top_eq stack_list_def)

lemma prefix_name_not_Nil: "prefix_name env local st \<noteq> []"
proof -
  have "show_nat n \<noteq> []" for n by (subst show_nat.simps) simp
  then show ?thesis by (simp add: prefix_name_def Let_def)
qed

lemma cmd_set_fields [simp]:
  "mask (cmd_set opts t stay s) = mask s" "page (cmd_set opts t stay s) = page s"
  "history (cmd_set opts t stay s) = history s" "prompt (cmd_set opts t stay s) = prompt s"
  "enabled (cmd_set opts t stay s) = enabled s"
  by (simp_all add: cmd_set_def cmd_position_def Let_def split: option.split)

lemma cmd_set_prompt_sel [simp]:
  "mask (cmd_set_prompt opts p s) = mask s" "page (cmd_set_prompt opts p s) = page s"
  "history (cmd_set_prompt opts p s) = history s" "prompt (cmd_set_prompt opts p s) = p"
  "enabled (cmd_set_prompt opts p s) = enabled s" "command (cmd_set_prompt opts p s) = command s"
  by (simp_all add: cmd_set_prompt_def draw_prompt_def)

text \<open>A storage in which every list of the terminal can be read.\<close>

definition readable :: "browser \<Rightarrow> bool" where
  "readable b \<longleftrightarrow> has_ls b \<and>
     (\<forall>nm t. local_storage b (nm @ ''_commands'') = Some t \<longrightarrow> t = [] \<or> parse_strings t \<noteq> None) \<and>
     (\<forall>nm t. local_storage b (nm @ ''_interpreters'') = Some t \<longrightarrow>
        t = [] \<or> (\<exists>names. parse_strings t = Some names \<and> (\<forall>x\<in>set names. json_storable x)))"

lemma storage_ls: "has_ls b \<Longrightarrow> storage_get k b = local_storage b k"
  "has_ls b \<Longrightarrow> storage_del k b = b\<lparr>local_storage := (local_storage b)(k := None)\<rparr>"
  "has_ls b \<Longrightarrow> storage_put k v b = b\<lparr>local_storage := (local_storage b)(k \<mapsto> v)\<rparr>"
  by (simp_all add: storage_get_def storage_del_def storage_put_def storage_remove_def storage_set_def rls_def dls_def wls_def)

lemma readable_del: "readable b \<Longrightarrow> readable (storage_del k b)"
  by (auto simp: readable_def storage_ls)

lemma suffix_differ:
  "nm @ ''_commands'' \<noteq> nm' @ ''_token''" "nm @ ''_commands'' \<noteq> nm' @ ''_login''"
  "nm @ ''_interpreters'' \<noteq> nm' @ ''_token''" "nm @ ''_interpreters'' \<noteq> nm' @ ''_login''"
  "nm @ ''_token'' \<noteq> nm' @ ''_login''"  "nm @ ''_commands'' \<noteq> nm' @ ''_interpreters''"
  by (auto dest: arg_cong [where f = last])

lemma readable_put:
  assumes "readable b"
  shows "readable (storage_put (nm @ ''_token'') v b)" "readable (storage_put (nm @ ''_login'') v b)"
  using assms suffix_differ by (auto simp: readable_def storage_ls)

lemma readable_history:
  assumes "readable b" "nm \<noteq> []"
  shows "\<exists>h. new_history (JStr nm) sz b = Inr h \<and> h_enabled h"
proof -
  have k: "history_key (JStr nm) = nm @ ''_commands''" using assms(2) by (simp add: history_key_def)
  have "t = [] \<or> parse_strings t \<noteq> None" if "storage_get (nm @ ''_commands'') b = Some t" for t
    using assms(1) that by (simp add: readable_def storage_ls)
  then show ?thesis
    unfolding new_history_def k by (fastforce simp: Let_def split: option.splits)
qed

lemma cmd_set_name_readable:
  assumes "readable (page s)" "nm \<noteq> []"
  obtains h where "cmd_set_name opts (JStr nm) s = (None, s\<lparr>cmd_name := JStr nm, history := h\<rparr>)"
    "h_enabled h = h_enabled (history s)"
proof -
  obtain h where "new_history (JStr nm) (opt_history_size opts) (page s) = Inr h" "h_enabled h"
    using readable_history [OF assms] by blast
  then show ?thesis
    using that [of "if h_enabled (history s) then h else h_disable h"]
    by (simp add: cmd_set_name_def h_disable_def Let_def split: if_splits)
qed

lemma readable_put_names:
  assumes "readable b" "\<forall>x\<in>set names. json_storable x"
  shows "readable (storage_put (nm @ ''_interpreters'') (json_stringify (JArr (map JStr names)) 1) b)"
proof -
  have p: "parse_strings (json_stringify (JArr (map JStr names)) 1) = Some names"
    using stringify_strings [OF assms(2)] parse_strings_lits [OF assms(2)] by simp
  show ?thesis
    using assms suffix_differ(6) by (auto simp: readable_def storage_ls p [unfolded One_nat_def])
qed

lemma readable_names:
  "readable b \<Longrightarrow> storage_get (nm @ ''_interpreters'') b = Some t \<Longrightarrow> t \<noteq> [] \<Longrightarrow>
   \<exists>names. parse_strings t = Some names \<and> (\<forall>x\<in>set names. json_storable x)"
  unfolding readable_def by (metis storage_ls(1))

lemma maybe_append_ok:
  assumes "readable (store_of st)" "json_storable nm"
  obtains b where "maybe_append_name env nm st = (None, with_store b st)" "readable b"
    "\<And>k. k \<noteq> prefix_name env False st @ ''_interpreters'' \<Longrightarrow> local_storage b k = local_storage (store_of st) k"
proof -
  let ?key = "prefix_name env False st @ ''_interpreters''"
  let ?put = "\<lambda>names. storage_put ?key (json_stringify (JArr (map JStr names)) 1) (store_of st)"
  have ls: "has_ls (store_of st)" using assms(1) by (simp add: readable_def)
  have same: "with_store (store_of st) st = st" by (simp add: with_store_def store_of_def)
  have put: "\<And>k names. k \<noteq> ?key \<Longrightarrow> local_storage (?put names) k = local_storage (store_of st) k"
    using ls by (simp add: storage_ls)
  show ?thesis
  proof (cases "given (storage_get ?key (store_of st))")
    case False
    have "maybe_append_name env nm st = (None, with_store (?put ([] @ [nm])) st)"
      using False by (simp only: maybe_append_name_def Let_def if_False list.set empty_iff)
    then show ?thesis using that [of "?put ([] @ [nm])"] put readable_put_names [OF assms(1), of "[] @ [nm]"] assms(2)
      by (metis append_Nil empty_iff list.set(1) set_ConsD)
  next
    case True
    then obtain t where t: "storage_get ?key (store_of st) = Some t" "t \<noteq> []"
      by (auto simp: given_def split: option.splits)
    obtain names where n: "parse_strings t = Some names" "\<forall>x\<in>set names. json_storable x"
      using readable_names [OF assms(1) t] by blast
    show ?thesis
    proof (cases "nm \<in> set names")
      case mem: True
      then have "maybe_append_name env nm st = (None, with_store (store_of st) st)"
        using t n same by (simp add: maybe_append_name_def Let_def given_def)
      then show ?thesis using that [of "store_of st"] assms(1) by simp
    next
      case mem: False
      then have "maybe_append_name env nm st = (None, with_store (?put (names @ [nm])) st)"
        using t n by (simp add: maybe_append_name_def Let_def given_def)
      moreover have "readable (?put (names @ [nm]))"
        using readable_put_names [OF assms(1), of "names @ [nm]"] n assms(2) by simp
      ultimately show ?thesis using that put by blast
    qed
  qed
qed

text \<open>Preparing the top interpreter when nothing goes wrong: only the command line changes.\<close>

lemma prepare_ok:
  assumes "stack_list st \<noteq> []" "i_start (last (stack_list st)) = None" "readable (store_of st)"
    and "ghost st \<or> json_storable (prefix_name env True st)"
  obtains c where "prepare_top env silent st = (None, st\<lparr>command_line := c\<rparr>)" "mask c = mask (command_line st)"
    "h_enabled (history c) = h_enabled (history (command_line st))" "readable (page c)"
    "prompt c = i_prompt (last (stack_list st))"
    "\<And>k. k \<noteq> prefix_name env False st @ ''_interpreters'' \<or> ghost st \<Longrightarrow> local_storage (page c) k = local_storage (store_of st) k"
proof -
  obtain b where b: "(if ghost st then (None, st) else maybe_append_name env (prefix_name env True st) st) = (None, with_store b st)"
    "readable b" "\<And>k. k \<noteq> prefix_name env False st @ ''_interpreters'' \<or> ghost st \<Longrightarrow> local_storage b k = local_storage (store_of st) k"
  proof (cases "ghost st")
    case True
    then show ?thesis using that [of "store_of st"] assms(3) by (simp add: with_store_def store_of_def)
  next
    case False
    with assms(4) have "json_storable (prefix_name env True st)" by simp
    from maybe_append_ok [OF assms(3) this, of env] False show ?thesis using that by (metis (full_types))
  qed
  let ?s = "(command_line st)\<lparr>page := b\<rparr>"
  have s: "readable (page ?s)" using b(2) by simp
  obtain h where h: "cmd_set_name (cmd_opts env) (JStr (prefix_name env True st)) ?s =
      (None, ?s\<lparr>cmd_name := JStr (prefix_name env True st), history := h\<rparr>)" "h_enabled h = h_enabled (history ?s)"
    using cmd_set_name_readable [OF s prefix_name_not_Nil] by metis
  let ?c = "cmd_set (cmd_opts env) (Some '''') False (cmd_set_prompt (cmd_opts env) (i_prompt (last (stack_list st)))
      (?s\<lparr>cmd_name := JStr (prefix_name env True st), history := h\<rparr>))"
  have "prepare_top env silent st = (None, st\<lparr>command_line := ?c\<rparr>)"
    using assms(1,2) h b(1) by (simp add: prepare_top_def Let_def stack_top_list run_raw_def with_store_def stack_list_def)
  then show ?thesis using that [of ?c] b h by simp
qed


section \<open>Laws of push and pop\<close>

text \<open>The mask that \<open>set_mask\<close> leaves.\<close>

definition restored_mask :: "t_env \<Rightarrow> mask option \<Rightarrow> mask \<Rightarrow> mask" where
  "restored_mask env m old =
     (case m of None \<Rightarrow> old | Some m \<Rightarrow> (if m = MaskBool True then MaskStr (mask_char (t_out env)) else m))"

lemma set_mask_line:
  "set_mask env m st = st\<lparr>command_line := (command_line st)\<lparr>mask := restored_mask env m (mask (command_line st))\<rparr>\<rparr>"
  by (cases m) (simp_all add: set_mask_def restored_mask_def cmd_set_mask_def)

lemma guarded_None: "m st = (None, st') \<Longrightarrow> guarded env m st = (None, st')"
  by (simp add: guarded_def)

lemma stack_data_eq: "stack_data s = xs \<Longrightarrow> s = \<lparr>stack_data = xs\<rparr>"
  by simp

lemma stack_pop_list:
  "stack_list st = xs @ [k] \<Longrightarrow> stack_pop (interpreters st) = (Some k, \<lparr>stack_data = xs\<rparr>)"
  by (simp add: stack_pop_eq stack_list_def)

lemma prefix_name_cong: "interpreters st = interpreters st' \<Longrightarrow> prefix_name env local st = prefix_name env local st'"
  by (simp add: prefix_name_def stack_list_def Let_def)

lemma pop_ok:
  assumes "stack_list st = xs @ [j, k]" "i_start j = None" "i_exit k = None" "readable (store_of st)"
    and "ghost st \<or> json_storable (prefix_name env True (st\<lparr>interpreters := \<lparr>stack_data = xs @ [j]\<rparr>\<rparr>))"
  obtains c where "pop env ip R None st = (None, st\<lparr>interpreters := \<lparr>stack_data = xs @ [j]\<rparr>, command_line := c\<rparr>)"
    "mask c = restored_mask env (i_mask j) (mask (command_line st))"
    "h_enabled (history c) = h_enabled (history (command_line st))" "readable (page c)" "prompt c = i_prompt j"
proof -
  define s1 where "s1 = (if given (token env True st) then clear_loging_storage env st else st)"
  obtain b where s1: "s1 = with_store b st" "readable b"
  proof (cases "given (token env True st)")
    case True
    then show ?thesis using that assms(4)
      by (simp add: s1_def clear_loging_storage_def Let_def readable_del)
  next
    case False
    then show ?thesis using that [of "store_of st"] assms(4) by (simp add: s1_def with_store_def store_of_def)
  qed
  define s2 where "s2 = s1\<lparr>interpreters := \<lparr>stack_data = xs @ [j]\<rparr>\<rparr>"
  have pr: "prefix_name env True s2 = prefix_name env True (st\<lparr>interpreters := \<lparr>stack_data = xs @ [j]\<rparr>\<rparr>)"
    by (rule prefix_name_cong) (simp add: s2_def)
  have "ghost s2 = ghost st" by (simp add: ghost_def s2_def s1 with_store_def)
  then have g: "ghost s2 \<or> json_storable (prefix_name env True s2)" using assms(5) pr by simp
  have l: "stack_list s2 = xs @ [j]" by (simp add: s2_def stack_list_def)
  have r: "readable (store_of s2)" using s1 by (simp add: s2_def store_of_def with_store_def)
  obtain c where c: "prepare_top env False s2 = (None, s2\<lparr>command_line := c\<rparr>)" "mask c = mask (command_line s2)"
    "h_enabled (history c) = h_enabled (history (command_line s2))" "readable (page c)" "prompt c = i_prompt j"
    using prepare_ok [of s2 env False, OF _ _ r g] l assms(2) by (metis append_is_Nil_conv last_snoc list.distinct(1))
  have sz: "stack_size (interpreters st) \<noteq> 1" using assms(1) by (simp add: stack_size_list)
  have p: "stack_pop (interpreters s1) = (Some k, \<lparr>stack_data = xs @ [j]\<rparr>)"
    using assms(1) stack_pop_list [of s1 "xs @ [j]" k] by (simp add: s1 with_store_def stack_list_def)
  let ?c = "c\<lparr>mask := restored_mask env (i_mask j) (mask c)\<rparr>"
  have "pop_nested env st = (None, s2\<lparr>command_line := ?c\<rparr>)"
    using c(1) l assms(3)
    by (simp add: pop_nested_def Let_def s1_def [symmetric] p s2_def [symmetric] run_hook_def stack_top_list set_mask_line stack_list_def)
  then have "pop env ip R None st = (None, s2\<lparr>command_line := ?c\<rparr>)"
    using sz by (simp add: pop_def guarded_None Let_def)
  moreover have "s2\<lparr>command_line := ?c\<rparr> = st\<lparr>interpreters := \<lparr>stack_data = xs @ [j]\<rparr>, command_line := ?c\<rparr>"
    by (simp add: s2_def s1 with_store_def)
  moreover have "mask (command_line s2) = mask (command_line st)" "history (command_line s2) = history (command_line st)"
    by (simp_all add: s2_def s1 with_store_def)
  ultimately show ?thesis using that [of ?c] c by simp
qed

lemma push_intrp_list:
  "stack_list st = xs @ [i] \<Longrightarrow> po_name po = Some n \<Longrightarrow> n \<noteq> '''' \<Longrightarrow> po_prompt po = Some p \<Longrightarrow>
   push_intrp f po st = st\<lparr>interpreters := \<lparr>stack_data = xs @ [i\<lparr>i_mask := Some (mask (command_line st))\<rparr>,
     \<lparr>i_fun = f, i_name = Some n, i_prompt = p, i_mask = None, i_start = po_start po, i_exit = po_exit po\<rparr>]\<rparr>\<rparr>"
  by (simp add: push_intrp_def given_def stack_push_def stack_list_def Let_def list_update_append)

lemma prefix_name_masks:
  "map i_name xs = map i_name ys \<Longrightarrow> prefix_name env local (st\<lparr>interpreters := \<lparr>stack_data = xs\<rparr>\<rparr>) =
   prefix_name env local (st\<lparr>interpreters := \<lparr>stack_data = ys\<rparr>\<rparr>)"
proof -
  assume m: "map i_name xs = map i_name ys"
  then have len: "length xs = length ys" using map_eq_imp_length_eq by blast
  then have "List.map_filter i_name xs = List.map_filter i_name ys"
    using m by (induction xs ys rule: list_induct2) (auto simp: map_filter_simps split: option.split)
  with len show ?thesis by (simp add: prefix_name_def stack_size_def stack_list_def Let_def)
qed


text \<open>
  C20: a pushed interpreter has its prompt and its place on the stack; popping it brings back the interpreters
  below, the mask and the prompt, and nothing that was printed changes.
\<close>

theorem push_pop_roundtrip:
  assumes "stack_list st = xs @ [i]" "i_start i = None" "mask (command_line st) \<noteq> MaskBool True"
    and "po_name po = Some n" "n \<noteq> ''''" "po_prompt po = Some p" "po_start po = None" "po_exit po = None" "po_login po = None"
    and "readable (store_of st)" "json_storable (prefix_name env True st)"
    and "json_storable (prefix_name env True (push_intrp f po st))"
  shows "\<exists>st1 st2. push env ip R f po st = (None, st1) \<and> prompt (command_line st1) = p \<and>
    stack_size (interpreters st1) = stack_size (interpreters st) + 1 \<and>
    pop env ip R None st1 = (None, st2) \<and>
    stack_list st2 = xs @ [i\<lparr>i_mask := Some (mask (command_line st))\<rparr>] \<and>
    mask (command_line st2) = mask (command_line st) \<and> prompt (command_line st2) = i_prompt i \<and>
    h_enabled (history (command_line st2)) = h_enabled (history (command_line st)) \<and>
    out_of st2 = out_of st \<and> in_login st2 = in_login st \<and> paused st2 = paused st"
proof -
  let ?i = "i\<lparr>i_mask := Some (mask (command_line st))\<rparr>"
  let ?k = "\<lparr>i_fun = f, i_name = Some n, i_prompt = p, i_mask = None, i_start = None, i_exit = None\<rparr>"
  let ?s = "st\<lparr>interpreters := \<lparr>stack_data = xs @ [?i, ?k]\<rparr>\<rparr>"
  have s: "push_intrp f po st = ?s" using push_intrp_list [OF assms(1,4,5,6)] assms(7,8) by simp
  have l: "stack_list ?s = xs @ [?i, ?k]" by (simp add: stack_list_def)
  have "readable (store_of ?s)" using assms(10) by (simp add: store_of_def)
  moreover have "ghost ?s \<or> json_storable (prefix_name env True ?s)" using assms(12) s by simp
  ultimately obtain c where c: "prepare_top env False ?s = (None, ?s\<lparr>command_line := c\<rparr>)"
    "mask c = mask (command_line st)" "h_enabled (history c) = h_enabled (history (command_line st))" "readable (page c)" "prompt c = p"
    using prepare_ok [of ?s env False] l by auto
  let ?s1 = "?s\<lparr>command_line := c\<rparr>"
  have push: "push env ip R f po st = (None, ?s1)"
    unfolding push_def using c(1) assms(9) s by (intro guarded_None) (simp add: Let_def)
  have pn: "prefix_name env True (?s1\<lparr>interpreters := \<lparr>stack_data = xs @ [?i]\<rparr>\<rparr>) = prefix_name env True st"
  proof -
    have "prefix_name env True (?s1\<lparr>interpreters := \<lparr>stack_data = xs @ [?i]\<rparr>\<rparr>)
        = prefix_name env True (?s1\<lparr>interpreters := \<lparr>stack_data = xs @ [i]\<rparr>\<rparr>)"
      by (rule prefix_name_masks) simp
    also have "\<dots> = prefix_name env True st"
      using assms(1) by (intro prefix_name_cong) (simp add: stack_list_def)
    finally show ?thesis .
  qed
  have "stack_list ?s1 = xs @ [?i, ?k]" "readable (store_of ?s1)"
    using l c(4) by (simp_all add: stack_list_def store_of_def)
  then obtain c2 where c2: "pop env ip R None ?s1 = (None, ?s1\<lparr>interpreters := \<lparr>stack_data = xs @ [?i]\<rparr>, command_line := c2\<rparr>)"
    "mask c2 = restored_mask env (i_mask ?i) (mask (command_line ?s1))"
    "h_enabled (history c2) = h_enabled (history (command_line ?s1))" "prompt c2 = i_prompt ?i"
    using pop_ok [of ?s1 xs ?i ?k env ip R] assms(2,11) pn by auto
  have "mask c2 = mask (command_line st)" using c2(2) assms(3) by (simp add: restored_mask_def)
  then show ?thesis
    using push c c2 assms(1)
    by (intro exI [of _ ?s1] exI [of _ "?s1\<lparr>interpreters := \<lparr>stack_data = xs @ [?i]\<rparr>, command_line := c2\<rparr>"] conjI)
       (simp_all add: stack_list_def stack_size_def out_of_def out.truncate_def)
qed

text \<open>The environment and the state of a small terminal, for concrete runs.\<close>

definition small_env :: t_env where
  "small_env = \<lparr>t_out = plain_env, cmd_opts = plain_options, base_name = ''t'', terminal_id = 0, login_setting = None,
     history_setting = True, global_token = False, exit_setting = True, clear_setting = True, greeting = None,
     hook = (\<lambda>_ s. (None, s)), on_exit = None, on_init = None, on_clear = None, on_pause = None, after_resume = None, on_before_logout = None,
     on_after_logout = None, add_class = 0, extended = (\<lambda>_ st. st)\<rparr>"

definition empty_browser :: browser where
  "empty_browser = \<lparr>has_ls = True, local_storage = Map.empty, cookies = [], gmt_next_year = ''''\<rparr>"

definition small_cmd :: cmd where
  "small_cmd = snd (new_cmd plain_options (MaskBool False) (JStr ''t_0'') (PromptStr ''> '') True empty_browser)"

definition base_intrp :: intrp where
  "base_intrp = \<lparr>i_fun = UserFun 0, i_name = Some ''t'', i_prompt = PromptStr ''> '', i_mask = None, i_start = None, i_exit = None\<rparr>"

definition small_terminal :: terminal where
  "small_terminal = \<lparr>lines = [], buffer = [], page_rows = [], finalized = [], alerts = [], cols = 80, rows = 24, prev = None,
     interpreters = \<lparr>stack_data = [base_intrp]\<rparr>, command_line = small_cmd, in_login = False, paused = False,
     t_enabled = True, frozen = False, prev_name = None, autologin_handler = None, delayed = [], on_resume = [], pending = [],
     resolved = [], next_promise = 0\<rparr>"

definition nested_opts :: push_opts where
  "nested_opts = \<lparr>po_name = Some ''sql'', po_prompt = Some (PromptStr ''sql> ''), po_start = None, po_exit = None, po_login = None\<rparr>"

lemma small_store: "store_of small_terminal = empty_browser"
  by (simp add: store_of_def small_terminal_def small_cmd_def new_cmd_def cmd_set_name_def new_history_def
      cmd_enable_def draw_prompt_def Let_def split: prod.splits sum.splits option.splits)

lemma small_readable: "readable (store_of small_terminal)"
  unfolding small_store by (simp add: readable_def empty_browser_def)

theorem push_pop_roundtrip_witness:
  "\<exists>st1 st2. push small_env False (\<lambda>st. (None, st)) (UserFun 1) nested_opts small_terminal = (None, st1) \<and>
     prompt (command_line st1) = PromptStr ''sql> '' \<and> pop small_env False (\<lambda>st. (None, st)) None st1 = (None, st2) \<and>
     prompt (command_line st2) = PromptStr ''> ''"
proof -
  have "stack_list small_terminal = [] @ [base_intrp]" "i_start base_intrp = None"
    "mask (command_line small_terminal) \<noteq> MaskBool True" "i_prompt base_intrp = PromptStr ''> ''"
    by (code_simp)+
  moreover have "prefix_name small_env True small_terminal = ''t_0''"
    "prefix_name small_env True (push_intrp (UserFun 1) nested_opts small_terminal) = ''t_0_sql''"
    by (code_simp)+
  moreover have "json_storable ''t_0''" "json_storable ''t_0_sql''"
    by (code_simp)+
  ultimately show ?thesis
    using push_pop_roundtrip [of small_terminal "[]" base_intrp nested_opts "''sql''" "PromptStr ''sql> ''" small_env "UserFun 1"
        False "\<lambda>st. (None, st)"] small_readable by (auto simp: nested_opts_def)
qed

section \<open>Login\<close>

lemma pop_to_one_ok:
  "length (stack_list st) \<le> Suc n \<Longrightarrow> stack_list st = i # is \<Longrightarrow> \<forall>j\<in>set (i # is). i_start j = None \<and> i_exit j = None \<Longrightarrow>
   readable (store_of st) \<Longrightarrow> in_login st \<Longrightarrow>
   \<exists>c. pop_to_one env ip R n st = (None, st\<lparr>interpreters := \<lparr>stack_data = [i]\<rparr>, command_line := c\<rparr>) \<and> readable (page c) \<and>
     h_enabled (history c) = h_enabled (history (command_line st))"
proof (induction n arbitrary: st "is")
  case 0
  then have "is = []" by simp
  with 0 have "st = st\<lparr>interpreters := \<lparr>stack_data = [i]\<rparr>, command_line := command_line st\<rparr>"
    by (cases "interpreters st") (simp add: stack_list_def)
  then show ?case using 0 by (intro exI [of _ "command_line st"]) (simp add: store_of_def)
next
  case (Suc n)
  show ?case
  proof (cases "is" rule: rev_cases)
    case Nil
    with Suc.prems have "st = st\<lparr>interpreters := \<lparr>stack_data = [i]\<rparr>, command_line := command_line st\<rparr>"
      by (cases "interpreters st") (simp add: stack_list_def)
    then show ?thesis using Suc.prems Nil
      by (intro exI [of _ "command_line st"]) (simp add: store_of_def stack_size_list)
  next
    case (snoc ks k)
    obtain xs j where xs: "i # ks = xs @ [j]" by (metis append_butlast_last_id list.distinct(1))
    have st: "stack_list st = xs @ [j, k]" using Suc.prems(2) snoc xs by simp
    have "set (i # ks) = set (xs @ [j])" using xs by simp
    then have "j \<in> set (i # is)" "k \<in> set (i # is)" using snoc by auto
    then have jk: "i_start j = None" "i_exit k = None" using Suc.prems(3) by auto
    obtain c where c: "pop env ip R None st = (None, st\<lparr>interpreters := \<lparr>stack_data = xs @ [j]\<rparr>, command_line := c\<rparr>)"
      "h_enabled (history c) = h_enabled (history (command_line st))" "readable (page c)"
      using pop_ok [OF st jk Suc.prems(4), of env ip R] Suc.prems(5) by (metis ghost_def)
    let ?st = "st\<lparr>interpreters := \<lparr>stack_data = xs @ [j]\<rparr>, command_line := c\<rparr>"
    have l: "stack_list ?st = i # ks" using xs by (simp add: stack_list_def)
    have "\<exists>c'. pop_to_one env ip R n ?st = (None, ?st\<lparr>interpreters := \<lparr>stack_data = [i]\<rparr>, command_line := c'\<rparr>) \<and> readable (page c') \<and>
        h_enabled (history c') = h_enabled (history (command_line ?st))"
      using Suc.prems snoc c by (intro Suc.IH [OF _ l]) (simp_all add: l store_of_def)
    then show ?thesis using c st by (auto simp: stack_size_list)
  qed
qed

text \<open>
  C17: a successful login, at whatever depth, stores token and name under the name of the terminal, ends the login
  state and pops every interpreter but the main one, so an interpreter that was pushed with a login is gone when
  its login succeeds.
\<close>

theorem login_success_pops_all:
  assumes "stack_list st = i # is" "\<forall>j\<in>set (i # is). i_start j = None \<and> i_exit j = None"
    and "readable (store_of st)" "in_login st" "tok \<noteq> ''''" "success lc = Prepare" "json_storable (prefix_name env False st)"
  shows "\<exists>st'. login_callback env ip R lc user (Some tok) silent st = (None, st') \<and> stack_list st' = [i] \<and>
    \<not> in_login st' \<and> token env True st' = Some tok \<and> login_name env True st' = Some user \<and>
    (history_setting env \<longrightarrow> h_enabled (history (command_line st')))"
proof -
  let ?n = "stack_size (interpreters st)"
  obtain c where c: "pop_to_one env ip R ?n st = (None, st\<lparr>interpreters := \<lparr>stack_data = [i]\<rparr>, command_line := c\<rparr>)" "readable (page c)"
    using pop_to_one_ok [OF _ assms(1-4), of ?n env ip R] by (auto simp: stack_size_list)
  define s1 where "s1 = st\<lparr>interpreters := \<lparr>stack_data = [i]\<rparr>, command_line := c\<rparr>"
  define s2 where "s2 = (if history_setting env then set_history h_enable s1 else s1)"
  let ?p = "prefix_name env False st"
  have pn: "prefix_name env b s = ?p" if "interpreters s = \<lparr>stack_data = [i]\<rparr>" for s b
    using that by (simp add: prefix_name_def stack_size_def)
  have s2: "interpreters s2 = \<lparr>stack_data = [i]\<rparr>" "readable (store_of s2)" "history_setting env \<Longrightarrow> h_enabled (history (command_line s2))"
    using c(2) by (simp_all add: s2_def s1_def set_history_def store_of_def h_enable_def)
  define s3 where "s3 = (store_login env user tok s2)\<lparr>in_login := False\<rparr>"
  have t: "?p @ ''_'' @ ''token'' = ?p @ ''_token''" "?p @ ''_'' @ ''login'' = ?p @ ''_login''" by simp_all
  have store3: "store_of s3 = storage_put (?p @ ''_login'') user (storage_put (?p @ ''_token'') tok (store_of s2))"
    by (simp add: s3_def store_login_def Let_def pn [OF s2(1)] with_store_def store_of_def)
  have s3: "interpreters s3 = \<lparr>stack_data = [i]\<rparr>" "readable (store_of s3)" "\<not> in_login s3"
    "local_storage (store_of s3) (?p @ ''_token'') = Some tok" "local_storage (store_of s3) (?p @ ''_login'') = Some user"
    "history (command_line s3) = history (command_line s2)"
    using s2 readable_put suffix_differ(5) [of ?p ?p]
    by (simp_all add: store3) (simp_all add: s3_def store_login_def with_store_def Let_def readable_def storage_ls)
  have l: "stack_list s3 = [i]" using s3(1) by (simp add: stack_list_def)
  have pr: "stack_list s3 \<noteq> []" "i_start (last (stack_list s3)) = None" "ghost s3 \<or> json_storable (prefix_name env True s3)"
    using l assms(2,7) pn [OF s3(1)] by simp_all
  obtain c' where c': "prepare_top env False s3 = (None, s3\<lparr>command_line := c'\<rparr>)" "readable (page c')"
    "h_enabled (history c') = h_enabled (history (command_line s3))"
    "\<And>k. k \<noteq> prefix_name env False s3 @ ''_interpreters'' \<or> ghost s3 \<Longrightarrow> local_storage (page c') k = local_storage (store_of s3) k"
    using prepare_ok [OF pr(1,2) s3(2) pr(3), of False] by blast
  let ?s4 = "s3\<lparr>command_line := c', autologin_handler := None\<rparr>"
  have "login_callback env ip R lc user (Some tok) silent st = (None, ?s4)"
    using c(1) c'(1) assms(5,6)
    by (simp add: login_callback_def given_def s1_def [symmetric] s2_def [symmetric] s3_def [symmetric] Let_def run_success_def)
  moreover have "local_storage (page c') (?p @ ''_token'') = Some tok" "local_storage (page c') (?p @ ''_login'') = Some user"
    using c'(4) s3(4,5) pn [OF s3(1)] suffix_differ(3,4) by metis+
  moreover have "has_ls (page c')" using c'(2) by (simp add: readable_def)
  moreover have "prefix_name env b ?s4 = ?p" for b using pn [of ?s4] s3(1) by simp
  ultimately show ?thesis
    using l s3(3) s2(3) c'(3) s3(6)
    by (intro exI [of _ ?s4]) (simp add: token_def login_name_def storage_ls store_of_def stack_list_def)
qed


definition nested_intrp :: "intrp_fun \<Rightarrow> string \<Rightarrow> intrp" where
  "nested_intrp f n = \<lparr>i_fun = f, i_name = Some n, i_prompt = PromptStr ''? '', i_mask = Some (MaskBool False), i_start = None,
     i_exit = None\<rparr>"

definition nested_login :: login_call where
  "nested_login = \<lparr>auth = 0, infinite = False, success = Prepare, on_error_pop = True\<rparr>"

text \<open>The small terminal while it asks for the password of a nested interpreter.\<close>

definition asking_terminal :: terminal where
  "asking_terminal = small_terminal\<lparr>in_login := True, interpreters := \<lparr>stack_data =
     [base_intrp, nested_intrp (UserFun 1) ''sql'', nested_intrp (AskName nested_login) ''sql'',
      nested_intrp (AskPass nested_login ''ann'') ''sql'']\<rparr>\<rparr>"

lemma asking_list: "stack_list asking_terminal = [base_intrp, nested_intrp (UserFun 1) ''sql'', nested_intrp (AskName nested_login) ''sql'',
    nested_intrp (AskPass nested_login ''ann'') ''sql'']"
  by (simp add: asking_terminal_def stack_list_def)

lemma asking_store: "store_of asking_terminal = empty_browser"
  using small_store by (simp add: asking_terminal_def store_of_def)

lemma no_hooks: "i_start base_intrp = None" "i_exit base_intrp = None" "i_start (nested_intrp f n) = None" "i_exit (nested_intrp f n) = None"
  by (simp_all add: base_intrp_def nested_intrp_def)

theorem login_success_pops_all_witness:
  "\<exists>st'. login_callback small_env False (\<lambda>st. (None, st)) nested_login ''ann'' (Some ''tok'') False asking_terminal = (None, st') \<and>
     stack_list st' = [base_intrp] \<and> token small_env True st' = Some ''tok''"
proof -
  have "in_login asking_terminal" "success nested_login = Prepare"
    by (simp_all add: asking_terminal_def nested_login_def)
  moreover have "readable (store_of asking_terminal)" using small_readable by (simp add: asking_store small_store)
  moreover have "json_storable (prefix_name small_env False asking_terminal)" by code_simp
  ultimately show ?thesis
    using login_success_pops_all [OF asking_list, of "''tok''" nested_login small_env False "\<lambda>st. (None, st)" "''ann''" False]
    by (auto simp: no_hooks)
qed

text \<open>Printing a text that executes nothing leaves everything but the output alone.\<close>

lemma caught_more [simp]: "out.more (caught (e, st)) = out.more st"
  by (simp add: caught_def split: option.split)

lemma buffer_line_more [simp]: "out.more (snd (buffer_line env s opts st)) = out.more st"
  by (simp add: buffer_line_def Let_def split: prod.split sum.split)

lemma caught_buffer_line [simp]: "out.more (caught (buffer_line env s opts st)) = out.more st"
  by (metis buffer_line_more caught_more prod.collapse)

lemma process_line_more: "no_markup env l \<Longrightarrow> out.more (process_line env run skip l opts st) = out.more st"
  by (cases "line_text env l") (auto simp: process_line_def no_markup_def exec_pieces_none Let_def split: if_splits)

lemma limit_rows_more [simp]: "out.more (limit_rows env st) = out.more st"
  by (simp add: limit_rows_def Let_def)

lemma flush_more [simp]: "out.more (flush env st) = out.more st"
  by (simp add: flush_def Let_def split: prod.split)

lemma echo_more: "no_markup env l \<Longrightarrow> out.more (echo env run l opts st) = out.more st"
  using process_line_more [OF no_markup_stored, of env l run "skip_call env" opts "st\<lparr>buffer := []\<rparr>"]
  by (simp add: echo_def echo_with_def stored_line_def [symmetric] Let_def)

lemma t_error_more: "msg \<noteq> '''' \<Longrightarrow> out.more (t_error env msg st) = out.more st"
  unfolding t_error_def echo_error_def by (rule echo_more) (simp add: no_markup_def line_text_def error_text_inert)

lemma more_sel:
  "out.more st' = out.more st \<Longrightarrow> interpreters st' = interpreters st \<and> command_line st' = command_line st \<and>
   in_login st' = in_login st \<and> paused st' = paused st \<and> delayed st' = delayed st \<and> prev_name st' = prev_name st \<and>
   t_enabled st' = t_enabled st \<and> frozen st' = frozen st"
  by (cases st; cases st') simp

text \<open>
  When the login of a nested interpreter fails, its interpreters are popped and the login state ends, but
  the history, which \<open>login\<close> disabled, stays disabled for the commands that follow.
\<close>

theorem failed_login_keeps_history_off:
  assumes "stack_list st = xs @ [i, k, a, b]" "\<forall>j\<in>{i, k, a, b}. i_start j = None \<and> i_exit j = None"
    and "readable (store_of st)" "\<not> h_enabled (history (command_line st))" "\<not> infinite lc" "on_error_pop lc"
    and "\<forall>n. json_storable (prefix_name env True (st\<lparr>interpreters := \<lparr>stack_data = take n (stack_list st)\<rparr>\<rparr>))"
  shows "\<exists>st'. login_callback env ip R lc user None silent st = (None, st') \<and> stack_list st' = xs @ [i] \<and>
    \<not> in_login st' \<and> \<not> h_enabled (history (command_line st'))"
proof -
  define s1 where "s1 = (if \<not> silent then t_error env ''Wrong password!'' (st\<lparr>in_login := False\<rparr>) else st\<lparr>in_login := False\<rparr>)"
  have "out.more s1 = out.more (st\<lparr>in_login := False\<rparr>)" by (simp add: s1_def t_error_more)
  then have s1: "interpreters s1 = interpreters st" "command_line s1 = command_line st" "\<not> in_login s1"
    using more_sel [of s1 "st\<lparr>in_login := False\<rparr>"] by simp_all
  have names: "json_storable (prefix_name env True s)" if "interpreters s = \<lparr>stack_data = ys\<rparr>" "ys @ zs = stack_list st" for s ys zs
  proof -
    have "ys = take (length ys) (stack_list st)" using that(2) by (metis append_eq_conv_conj)
    then have "interpreters s = interpreters (st\<lparr>interpreters := \<lparr>stack_data = take (length ys) (stack_list st)\<rparr>\<rparr>)"
      using that(1) by simp
    then show ?thesis using assms(7) prefix_name_cong by metis
  qed
  have step: "\<exists>c. pop env ip R None s = (None, s\<lparr>interpreters := \<lparr>stack_data = ys @ [j]\<rparr>, command_line := c\<rparr>) \<and>
      readable (page c) \<and> h_enabled (history c) = h_enabled (history (command_line s))"
    if "stack_list s = ys @ [j, m]" "(ys @ [j]) @ zs = stack_list st" "i_start j = None" "i_exit m = None" "readable (store_of s)" for s ys j m zs
    using pop_ok [OF that(1,3,4,5), of env ip R] names [of "s\<lparr>interpreters := \<lparr>stack_data = ys @ [j]\<rparr>\<rparr>", OF _ that(2)] by auto
  have l1: "stack_list s1 = (xs @ [i, k]) @ [a, b]" using assms(1) s1 by (simp add: stack_list_def)
  obtain c1 where c1: "pop env ip R None s1 = (None, s1\<lparr>interpreters := \<lparr>stack_data = (xs @ [i, k]) @ [a]\<rparr>, command_line := c1\<rparr>)"
    "readable (page c1)" "h_enabled (history c1) = h_enabled (history (command_line s1))"
    using step [OF l1, of "[b]"] assms s1 by (auto simp: store_of_def)
  define s2 where "s2 = s1\<lparr>interpreters := \<lparr>stack_data = (xs @ [i, k]) @ [a]\<rparr>, command_line := c1\<rparr>"
  have l2: "stack_list s2 = (xs @ [i]) @ [k, a]" by (simp add: s2_def stack_list_def)
  obtain c2 where c2: "pop env ip R None s2 = (None, s2\<lparr>interpreters := \<lparr>stack_data = (xs @ [i]) @ [k]\<rparr>, command_line := c2\<rparr>)"
    "readable (page c2)" "h_enabled (history c2) = h_enabled (history (command_line s2))"
    using step [OF l2, of "[a, b]"] assms c1(2) by (auto simp: store_of_def s2_def)
  define s3 where "s3 = s2\<lparr>interpreters := \<lparr>stack_data = (xs @ [i]) @ [k]\<rparr>, command_line := c2\<rparr>"
  have l3: "stack_list s3 = xs @ [i, k]" by (simp add: s3_def stack_list_def)
  obtain c3 where c3: "pop env ip R None s3 = (None, s3\<lparr>interpreters := \<lparr>stack_data = xs @ [i]\<rparr>, command_line := c3\<rparr>)"
    "readable (page c3)" "h_enabled (history c3) = h_enabled (history (command_line s3))"
    using step [OF l3, of "[k, a, b]"] assms c2(2) by (auto simp: store_of_def s3_def)
  have "login_callback env ip R lc user None silent st =
      (None, s3\<lparr>interpreters := \<lparr>stack_data = xs @ [i]\<rparr>, command_line := c3, autologin_handler := None\<rparr>)"
    using assms(5,6) c3(1) c1(1) [folded s2_def] c2(1) [folded s3_def]
    by (simp add: login_callback_def given_def Let_def s1_def [symmetric])
  moreover have "\<not> h_enabled (history c3)" using c1(3) c2(3) c3(3) s1(2) assms(4) by (simp add: s2_def s3_def)
  ultimately show ?thesis using s1(3) by (simp add: stack_list_def s2_def s3_def)
qed


definition failing_terminal :: terminal where
  "failing_terminal = set_history h_disable asking_terminal"

lemma failing_list: "stack_list failing_terminal = [] @ [base_intrp, nested_intrp (UserFun 1) ''sql'',
    nested_intrp (AskName nested_login) ''sql'', nested_intrp (AskPass nested_login ''ann'') ''sql'']"
  using asking_list by (simp add: failing_terminal_def stack_list_def set_history_def)

lemma small_prefix:
  "prefix_name small_env True (st\<lparr>interpreters := \<lparr>stack_data = xs\<rparr>\<rparr>) =
     (if length xs > 1 then ''t_0_'' @ join_with ''_'' (drop 1 (List.map_filter i_name xs)) else ''t_0'')"
proof -
  have "show_nat 0 = ''0''" by code_simp
  then show ?thesis by (simp add: prefix_name_def small_env_def stack_size_def stack_list_def Let_def)
qed

lemma failing_names:
  "json_storable (prefix_name small_env True (failing_terminal\<lparr>interpreters := \<lparr>stack_data = take n (stack_list failing_terminal)\<rparr>\<rparr>))"
proof -
  have s: "json_storable ''t_0''" "json_storable ''t_0_sql''" "json_storable ''t_0_sql_sql''" "json_storable ''t_0_sql_sql_sql''"
    by code_simp+
  have "n = 0 \<or> n = 1 \<or> n = 2 \<or> n = 3 \<or> n \<ge> 4" by linarith
  then show ?thesis
    using s by (auto simp: small_prefix failing_list base_intrp_def nested_intrp_def map_filter_simps take_Cons' numeral_2_eq_2 numeral_3_eq_3)
qed

theorem failed_login_keeps_history_off_witness:
  "\<exists>st'. login_callback small_env False (\<lambda>st. (None, st)) nested_login ''ann'' None False failing_terminal = (None, st') \<and>
     stack_list st' = [base_intrp] \<and> \<not> h_enabled (history (command_line st'))"
proof -
  have "readable (store_of failing_terminal)" "\<not> h_enabled (history (command_line failing_terminal))"
    using small_readable
    by (simp_all add: failing_terminal_def set_history_def store_of_def asking_terminal_def h_disable_def)
  then show ?thesis
    using failed_login_keeps_history_off [OF failing_list, of nested_login small_env False "\<lambda>st. (None, st)" "''ann''" False] failing_names
    by (auto simp: no_hooks nested_login_def)
qed

end
