(* ===== verification/Term_Exec.thy ===== *)
theory Term_Exec
  imports Term_Core Arguments
begin

text \<open>
  Running commands: \<open>commands\<close>, \<open>exec\<close>, \<open>resume\<close> and the promises between them. A command given to \<open>exec\<close> while
  the terminal is paused waits in \<open>delayed\<close>; \<open>resume\<close> runs what waits. The promise of a delayed command is a
  number; \<open>resolved\<close> lists those that are resolved. A command that pauses the terminal goes on at the next
  \<open>resume\<close> (\<open>on_resume\<close>), one that returns a promise when that is resolved (\<open>pending\<close>).

  \<open>resume\<close> calls \<open>exec\<close>, which calls \<open>resume\<close> after an exception: the calls nest, and \<open>depth\<close> is the depth that
  the engine allows; beyond it the engine throws. The state in the address bar (\<open>historyState\<close>) is not part.
\<close>

section \<open>What the author supplies\<close>

text \<open>What an interpreter function returns: \<open>undefined\<close>, a value, a promise, or it throws.\<close>

datatype answer = Undefined | Value jsval | Later nat | Throws js_error

text \<open>What an authentication function does: it calls the callback as its last action, later, or throws.\<close>

datatype auth_answer = AuthLater | AuthCalls "string option" bool | AuthThrows js_error

record x_env =
  te :: t_env
  init_pauses :: bool
  user :: "nat \<Rightarrow> string \<Rightarrow> terminal \<Rightarrow> answer \<times> terminal"
  auth_fun :: "nat \<Rightarrow> string \<Rightarrow> string \<Rightarrow> terminal \<Rightarrow> auth_answer \<times> terminal"
  read_done :: "nat \<Rightarrow> string \<Rightarrow> terminal meth"
  history_filter :: "(string \<Rightarrow> bool) option"
  on_before_command :: "(string \<Rightarrow> out \<Rightarrow> (js_error + bool) \<times> out) option" \<comment> \<open>\<open>Inr False\<close>: it returned \<open>false\<close>\<close>
  on_after_command :: "(string \<Rightarrow> out \<Rightarrow> js_error option \<times> out) option"

section \<open>Words that the terminal handles\<close>

definition word_re :: "string \<Rightarrow> re" where \<comment> \<open>\<open>/^\s*w\s*$/i\<close>\<close>
  "word_re w = Seq Bol (Seq (Star (Cls blank)) (Seq (LitI w) (Seq (Star (Cls blank)) Eol)))"

definition is_word :: "string \<Rightarrow> string \<Rightarrow> bool" where
  "is_word w cmd_text \<longleftrightarrow> re_test (word_re w) cmd_text"

section \<open>The function of an interpreter\<close>

text \<open>The closure of \<open>read\<close>.\<close>

definition read_text :: "t_env \<Rightarrow> nat \<Rightarrow> string \<Rightarrow> terminal meth" where
  "read_text env k message = push_plain env (ReadText k) (prompt_only message)"

definition no_answer :: "js_error option \<times> terminal \<Rightarrow> answer \<times> terminal" where
  "no_answer r = (case r of (None, st) \<Rightarrow> (Undefined, st) | (Some e, st) \<Rightarrow> (Throws e, st))"

definition call_auth :: "x_env \<Rightarrow> terminal meth \<Rightarrow> login_call \<Rightarrow> string \<Rightarrow> string \<Rightarrow> terminal \<Rightarrow> terminal" where
  "call_auth x R lc name pass st =
     (let failed = (\<lambda>e st. display_exception (te x) e ''USER(authentication)'' st)
      in case auth_fun x (auth lc) name pass st of
           (AuthLater, st) \<Rightarrow> st
         | (AuthThrows e, st) \<Rightarrow> failed e st
         | (AuthCalls tok silent, st) \<Rightarrow>
             (case login_callback (te x) (init_pauses x) R lc name tok silent st of
                (None, st) \<Rightarrow> st | (Some e, st) \<Rightarrow> failed e st))"

definition call_fun :: "x_env \<Rightarrow> terminal meth \<Rightarrow> intrp_fun \<Rightarrow> string \<Rightarrow> terminal \<Rightarrow> answer \<times> terminal" where
  "call_fun x R f txt st =
     (case f of
        UserFun k \<Rightarrow> user x k txt st
      | AskName lc \<Rightarrow> no_answer (ask_password (te x) lc txt st)
      | AskPass lc name \<Rightarrow> (Undefined, call_auth x R lc name txt st)
      | ReadText k \<Rightarrow> no_answer (and_then (pop (te x) (init_pauses x) R None st) (read_done x k txt)))"

section \<open>After a command\<close>

definition resolve :: "nat option \<Rightarrow> terminal \<Rightarrow> terminal" where
  "resolve d st = (case d of None \<Rightarrow> st | Some k \<Rightarrow> st\<lparr>resolved := resolved st @ [k]\<rparr>)"

definition after_exec :: "x_env \<Rightarrow> string \<Rightarrow> terminal meth" where
  "after_exec x txt st =
     (case on_after_command x of
        None \<Rightarrow> (None, st)
      | Some f \<Rightarrow> (let (e, o') = f txt (out_of st) in (e, with_out o' st)))"

text \<open>The handlers of \<open>resume.command\<close>; each removes all of them when it is through.\<close>

fun run_handlers :: "x_env \<Rightarrow> (string \<times> nat option) list \<Rightarrow> terminal meth" where
  "run_handlers x [] st = (None, st)"
| "run_handlers x ((txt, d) # hs) st =
     and_then (after_exec x txt (resolve d st)) (\<lambda>st. run_handlers x hs (st\<lparr>on_resume := []\<rparr>))"

text \<open>When the value of a command is known: it is shown unless the command has printed something itself.\<close>

definition finish_command :: "x_env \<Rightarrow> terminal meth \<Rightarrow> string \<Rightarrow> int \<Rightarrow> jsval \<Rightarrow> terminal meth" where
  "finish_command x R txt pos v st =
     (let st = (if truthy v \<and> pos = int (length (lines st)) - 1
                then display_object (t_out (te x)) (extended (te x)) v st else st)
      in and_then (after_exec x txt st) R)"

definition promise_done :: "x_env \<Rightarrow> terminal meth \<Rightarrow> nat \<Rightarrow> jsval \<Rightarrow> terminal meth" where
  "promise_done x R k v st =
     (case map_of (pending st) k of
        None \<Rightarrow> (None, st)
      | Some (txt, pos, d) \<Rightarrow>
          and_then (finish_command x R txt pos v (st\<lparr>pending := filter (\<lambda>p. fst p \<noteq> k) (pending st)\<rparr>))
            (\<lambda>st. (None, resolve d st)))"

section \<open>commands\<close>

text \<open>What \<open>commands\<close> returns: \<open>undefined\<close>, a promise that is resolved, or one that is not.\<close>

datatype returned = NoPromise | Resolved | Unresolved

definition then_ret :: "returned \<Rightarrow> js_error option \<times> terminal \<Rightarrow> (js_error + returned) \<times> terminal" where
  "then_ret r p = (case p of (None, st) \<Rightarrow> (Inr r, st) | (Some e, st) \<Rightarrow> (Inl e, st))"

text \<open>The previous command, the history and the echo.\<close>

definition record_command :: "x_env \<Rightarrow> bool \<Rightarrow> string \<Rightarrow> terminal meth" where
  "record_command x typed txt st =
     and_then
       (if \<not> typed then (None, st)
        else (case split_command txt of
                Inl e \<Rightarrow> (Some e, st)
              | Inr p \<Rightarrow> (None, st\<lparr>prev_name := (case p_name p of ArgStr s \<Rightarrow> Some s | _ \<Rightarrow> None)\<rparr>)))
       (\<lambda>st. if \<not> ghost st \<and> (case history_filter x of None \<Rightarrow> True | Some f \<Rightarrow> \<not> typed \<and> f txt)
             then (let c = command_line st; (h, b) = h_append txt (history c, page c)
                   in (None, st\<lparr>command_line := c\<lparr>history := h, page := b\<rparr>\<rparr>))
             else (None, st))"

definition run_builtin :: "x_env \<Rightarrow> terminal meth \<Rightarrow> string \<Rightarrow> terminal meth" where
  "run_builtin x R txt st =
     and_then
       (if exit_setting (te x) \<and> is_word ''exit'' txt then
          (let n = stack_size (interpreters st)
           in if n = 1 \<and> given (token (te x) False st) \<or> n > 1 then pop (te x) (init_pauses x) R None st else (None, st))
        else if clear_setting (te x) \<and> is_word ''clear'' txt then clear (te x) st
        else (None, st))
       (after_exec x txt)"

definition run_interpreter :: "x_env \<Rightarrow> terminal meth \<Rightarrow> intrp option \<Rightarrow> nat option \<Rightarrow> string \<Rightarrow> terminal \<Rightarrow> (js_error + returned) \<times> terminal" where
  "run_interpreter x R topmost d txt st =
     (case topmost of
        None \<Rightarrow> (Inl TypeError, st)
      | Some i \<Rightarrow>
          (let pos = int (length (lines st)) - 1
           in case call_fun x R (i_fun i) txt st of
                (Throws e, st) \<Rightarrow> (Inl e, st)
              | (Undefined, st) \<Rightarrow>
                  (if paused st then (Inr Unresolved, st\<lparr>on_resume := on_resume st @ [(txt, d)]\<rparr>)
                   else then_ret Resolved (after_exec x txt st))
              | (Value v, st) \<Rightarrow> then_ret Resolved (and_then (pause (te x) st) (finish_command x R txt pos v))
              | (Later k, st) \<Rightarrow>
                  then_ret Unresolved (and_then (pause (te x) st) (\<lambda>st. (None, st\<lparr>pending := pending st @ [(k, txt, pos, d)]\<rparr>)))))"

text \<open>\<open>topmost\<close> is the interpreter on top before the command is echoed.\<close>

definition dispatch :: "x_env \<Rightarrow> terminal meth \<Rightarrow> intrp option \<Rightarrow> nat option \<Rightarrow> string \<Rightarrow> terminal \<Rightarrow> (js_error + returned) \<times> terminal" where
  "dispatch x R topmost d txt st =
     (if is_word ''login'' txt \<and> login_setting (te x) \<noteq> None \<and> stack_size (interpreters st) = 1 then
        then_ret NoPromise (logout (te x) (init_pauses x) R False st)
      else if (is_word ''exit'' txt \<or> is_word ''clear'' txt) \<and> \<not> in_login st then
        then_ret NoPromise (run_builtin x R txt st)
      else run_interpreter x R topmost d txt st)"

definition record_and_run :: "x_env \<Rightarrow> terminal meth \<Rightarrow> bool \<Rightarrow> bool \<Rightarrow> nat option \<Rightarrow> string \<Rightarrow> terminal \<Rightarrow> (js_error + returned) \<times> terminal" where
  "record_and_run x R typed silent d txt st =
     (case record_command x typed txt st of
        (Some e, st) \<Rightarrow> (Inl e, st)
      | (None, st) \<Rightarrow> dispatch x R (stack_top (interpreters st)) d txt (if silent then st else echo_typed (te x) txt st))"

definition commands_body :: "x_env \<Rightarrow> terminal meth \<Rightarrow> bool \<Rightarrow> bool \<Rightarrow> nat option \<Rightarrow> string \<Rightarrow> terminal \<Rightarrow> (js_error + returned) \<times> terminal" where
  "commands_body x R typed silent d txt st =
     (case on_before_command x of
        None \<Rightarrow> record_and_run x R typed silent d txt st
      | Some f \<Rightarrow>
          (case f txt (out_of st) of
             (Inl e, o') \<Rightarrow> (Inl e, with_out o' st)
           | (Inr b, o') \<Rightarrow>
               (if b then record_and_run x R typed silent d txt (with_out o' st) else (Inr NoPromise, with_out o' st))))"

text \<open>
  An exception is shown, the terminal goes on, and the exception, or the one of \<open>resume\<close>, is thrown. What the setting
  \<open>historyState\<close> adds, views that are saved and the hash of the address, is in the theory Hash\_Commands.
\<close>

definition commands :: "x_env \<Rightarrow> terminal meth \<Rightarrow> bool \<Rightarrow> bool \<Rightarrow> nat option \<Rightarrow> string \<Rightarrow> terminal \<Rightarrow> (js_error + returned) \<times> terminal" where
  "commands x R typed silent d txt st =
     (case commands_body x R typed silent d txt st of
        (Inr r, st) \<Rightarrow> (Inr r, st)
      | (Inl e, st) \<Rightarrow>
          (case R (display_exception (te x) e ''USER'' st) of
             (None, st) \<Rightarrow> (Inl e, st) | (Some e', st) \<Rightarrow> (Inl e', st)))"

section \<open>exec and resume\<close>

text \<open>\<open>exec\<close> calls \<open>then\<close> on what \<open>commands\<close> returns, which throws for \<open>undefined\<close>.\<close>

definition exec :: "x_env \<Rightarrow> terminal meth \<Rightarrow> bool \<Rightarrow> nat option \<Rightarrow> string \<Rightarrow> terminal meth" where
  "exec x R silent d txt st =
     (if paused st then
        (case d of
           Some k \<Rightarrow> (None, st\<lparr>delayed := delayed st @ [(txt, silent, k)]\<rparr>)
         | None \<Rightarrow> (None, st\<lparr>delayed := delayed st @ [(txt, silent, next_promise st)], next_promise := next_promise st + 1\<rparr>))
      else
        (case commands x R False silent d txt st of
           (Inl e, st) \<Rightarrow> (Some e, st)
         | (Inr NoPromise, st) \<Rightarrow> (Some TypeError, st)
         | (Inr Resolved, st) \<Rightarrow> (None, resolve d st)
         | (Inr Unresolved, st) \<Rightarrow> (None, st)))"

fun exec_all :: "x_env \<Rightarrow> terminal meth \<Rightarrow> (string \<times> bool \<times> nat) list \<Rightarrow> terminal meth" where
  "exec_all x R [] st = (None, st)"
| "exec_all x R ((txt, silent, d) # ds) st = and_then (exec x R silent (Some d) txt st) (exec_all x R ds)"

definition too_deep :: js_error where
  "too_deep = Throw ''Maximum call stack size exceeded''"

fun resume :: "x_env \<Rightarrow> nat \<Rightarrow> terminal meth" where
  "resume x 0 st = (Some too_deep, st)"
| "resume x (Suc depth) st =
     (if paused st then
        (let st = enable (st\<lparr>paused := False\<rparr>); original = delayed st; st = st\<lparr>delayed := []\<rparr>
         in and_then (exec_all x (resume x depth) original st) (\<lambda>st.
              and_then (run_handlers x (on_resume st) st) (run_raw (te x) (after_resume (te x)))))
      else (None, st))"

text \<open>\<open>commands\<close> as the command line calls it, \<open>exec\<close> as the page calls it, with one command or an array of them.\<close>

definition type_command :: "x_env \<Rightarrow> nat \<Rightarrow> string \<Rightarrow> terminal meth" where
  "type_command x depth txt st =
     (case commands x (resume x depth) True False None txt st of (Inl e, st) \<Rightarrow> (Some e, st) | (Inr _, st) \<Rightarrow> (None, st))"

fun exec_array :: "x_env \<Rightarrow> nat \<Rightarrow> bool \<Rightarrow> string list \<Rightarrow> terminal meth" where
  "exec_array x depth silent [] st = (None, st)"
| "exec_array x depth silent (t # ts) st = and_then (exec x (resume x depth) silent None t st) (exec_array x depth silent ts)"


section \<open>What printing leaves alone\<close>

text \<open>
  A part of the state that neither the output holds nor an extended command touches survives every printing.
\<close>

definition keeps :: "t_env \<Rightarrow> (terminal \<Rightarrow> 'b) \<Rightarrow> bool" where
  "keeps env f \<longleftrightarrow> (\<forall>st st'. out.more st = out.more st' \<longrightarrow> f st = f st') \<and> (\<forall>s st. f (extended env s st) = f st)"

lemma keeps_more: "keeps env f \<Longrightarrow> out.more st = out.more st' \<Longrightarrow> f st = f st'"
  unfolding keeps_def by blast

lemma keeps_run: "keeps env f \<Longrightarrow> f (extended env s st) = f st"
  unfolding keeps_def by blast

lemma no_markup_error: "no_markup env (LineVal (JStr (error_text ''Recursive call detected, skip'')))"
  by (simp add: no_markup_def line_text_def error_text_inert)

lemma skip_call_more: "out.more (skip_call env st) = out.more st"
  using process_line_more [OF no_markup_error, of env "\<lambda>_ st. st" "\<lambda>st. st" "default_opts env" "st\<lparr>buffer := []\<rparr>"]
  by (simp add: skip_call_def echo_with_def Let_def error_text_def)

lemma exec_pieces_keeps:
  assumes "keeps env f"
  shows "f (snd (exec_pieces (extended env) (skip_call oe) ps st)) = f st"
proof (induction ps arbitrary: st)
  case (Cons p ps)
  then show ?case
    using keeps_run [OF assms] keeps_more [OF assms, OF skip_call_more] by (simp add: Let_def split: prod.split) (metis snd_conv)
qed simp

lemma process_line_keeps:
  assumes "keeps env f"
  shows "f (process_line oe (extended env) (skip_call oe) l opts st) = f st"
proof (cases "line_text oe l")
  case (Inl e)
  then show ?thesis using keeps_more [OF assms, of "caught (Some e, st)" st] by (simp add: process_line_def)
next
  case (Inr s)
  obtain t st1 where p: "exec_pieces (extended env) (skip_call oe) (exec_split s) st = (t, st1)" by fastforce
  have "f st1 = f st" using exec_pieces_keeps [OF assms, of oe "exec_split s" st] p by simp
  moreover have "f (caught (buffer_line oe s' opts st')) = f st'" for s' st'
    by (rule keeps_more [OF assms]) simp
  ultimately show ?thesis using Inr p by (simp add: process_line_def)
qed

lemma echo_keeps:
  assumes "keeps env f"
  shows "f (echo oe (extended env) l opts st) = f st"
proof -
  let ?l = "case l of LineVal v \<Rightarrow> if truthy v then l else LineVal (JStr '''') | LineFun k \<Rightarrow> l"
  let ?s = "process_line oe (extended env) (skip_call oe) ?l opts (st\<lparr>buffer := []\<rparr>)"
  let ?t = "?s\<lparr>lines := lines ?s @ [(?l, opts\<lparr>lo_exec := False\<rparr>)]\<rparr>"
  have "f ?t = f ?s" "f (flush oe ?t) = f ?t" "f (st\<lparr>buffer := []\<rparr>) = f st"
    by (rule keeps_more [OF assms], simp)+
  then show ?thesis
    using process_line_keeps [OF assms, of oe ?l opts "st\<lparr>buffer := []\<rparr>"]
    by (simp add: echo_def echo_with_def Let_def)
qed

lemma printing_keeps:
  assumes "keeps env f"
  shows "f (t_error env msg st) = f st" "f (display_exception env e label st) = f st" "f (echo_typed env txt st) = f st"
    "f (display_object (t_out env) (extended env) v st) = f st"
  using echo_keeps [OF assms]
  by (simp_all add: t_error_def echo_error_def display_exception_def echo_typed_def echo_command_def display_object_def
      split: jsval.split)

lemma with_out_more: "out.more (with_out o' st) = out.more st"
  by (simp add: with_out_def)

lemma with_out_keeps: "keeps env f \<Longrightarrow> f (with_out o' st) = f st"
  by (rule keeps_more [OF _ with_out_more])

section \<open>Built-in commands\<close>

lemma record_command_exec: "\<exists>c. record_command x False txt st = (None, st\<lparr>command_line := c\<rparr>)"
proof (cases "\<not> ghost st \<and> (case history_filter x of None \<Rightarrow> True | Some f \<Rightarrow> \<not> False \<and> f txt)")
  case True
  then show ?thesis unfolding record_command_def by (auto simp: Let_def split: prod.split option.splits)
next
  case False
  then have "record_command x False txt st = (None, st\<lparr>command_line := command_line st\<rparr>)"
    unfolding record_command_def by auto
  then show ?thesis by blast
qed

lemma then_ret_NoPromise: "\<exists>e st'. then_ret NoPromise p = (Inl e, st') \<or> then_ret NoPromise p = (Inr NoPromise, st')"
  by (auto simp: then_ret_def split: prod.split option.split)

definition unanswered :: "(js_error + returned) \<times> terminal \<Rightarrow> bool" where
  "unanswered r \<longleftrightarrow> (case fst r of Inl e \<Rightarrow> True | Inr a \<Rightarrow> a = NoPromise)"

lemma builtin_unanswered:
  assumes "is_word ''exit'' txt \<or> is_word ''clear'' txt" "\<not> in_login st"
  shows "unanswered (dispatch x R topmost d txt st)"
proof -
  have "unanswered (then_ret NoPromise p)" for p
    using then_ret_NoPromise [of p] by (auto simp: unanswered_def)
  then show ?thesis using assms by (auto simp: dispatch_def)
qed

lemma in_login_more: "out.more st = out.more st' \<Longrightarrow> in_login st = in_login st'"
  using more_sel by metis

lemma builtin_body:
  assumes "is_word ''exit'' txt \<or> is_word ''clear'' txt" "\<not> in_login st" "keeps (te x) in_login"
  shows "unanswered (commands_body x R False silent d txt st)"
proof -
  have go: "unanswered (record_and_run x R False silent d txt s)" if "\<not> in_login s" for s
  proof -
    obtain c where "record_command x False txt s = (None, s\<lparr>command_line := c\<rparr>)" using record_command_exec by blast
    then show ?thesis
      using builtin_unanswered [OF assms(1), of "if silent then s\<lparr>command_line := c\<rparr> else echo_typed (te x) txt (s\<lparr>command_line := c\<rparr>)"]
        that printing_keeps(3) [OF assms(3)] by (simp add: record_and_run_def)
  qed
  have go2: "unanswered (record_and_run x R False silent d txt (with_out o' st))" for o'
    using go [of "with_out o' st"] assms(2) with_out_keeps [OF assms(3)] by simp
  have i: "unanswered (Inl e, s)" "unanswered (Inr NoPromise, s)" for e s by (simp_all add: unanswered_def)
  show ?thesis
    using go [OF assms(2)] go2 i by (simp add: commands_body_def split: option.split prod.split sum.split)
qed

lemma builtin_throws:
  assumes "is_word ''exit'' txt \<or> is_word ''clear'' txt" "\<not> in_login st" "keeps (te x) in_login" "\<not> paused st"
  shows "fst (exec x R silent d txt st) \<noteq> None"
  using builtin_body [OF assms(1-3), of R silent d] assms(4)
  by (auto simp: exec_def commands_def unanswered_def split: prod.splits sum.splits option.splits returned.splits)

text \<open>
  C24: the built-in commands \<open>exit\<close> and \<open>clear\<close> return no promise, so \<open>exec\<close> always throws after running one, and
  when it was waiting for \<open>resume\<close> the commands that wait behind it are lost: they make no difference to what
  \<open>resume\<close> does.
\<close>

theorem builtin_loses_delayed:
  assumes "is_word ''exit'' txt \<or> is_word ''clear'' txt" "\<not> in_login st" "keeps (te x) in_login" "paused st"
    and "delayed st = (txt, silent, d) # ds"
  shows "fst (resume x (Suc n) st) \<noteq> None \<and> resume x (Suc n) st = resume x (Suc n) (st\<lparr>delayed := [(txt, silent, d)]\<rparr>)"
proof -
  let ?s = "(enable (st\<lparr>paused := False\<rparr>))\<lparr>delayed := []\<rparr>"
  have en: "\<not> paused (enable (st\<lparr>paused := False\<rparr>))" "in_login (enable (st\<lparr>paused := False\<rparr>)) = in_login st"
    "delayed (enable (st\<lparr>paused := False\<rparr>)) = delayed st"
    by (simp_all add: enable_def)
  obtain e s' where x: "exec x (resume x n) silent (Some d) txt ?s = (Some e, s')"
    using builtin_throws [OF assms(1) _ assms(3), of ?s "resume x n" silent "Some d"] en assms(2)
    by (cases "exec x (resume x n) silent (Some d) txt ?s") auto
  have eq: "(enable (st\<lparr>delayed := [(txt, silent, d)], paused := False\<rparr>))\<lparr>delayed := []\<rparr> = ?s"
    by (simp add: enable_def)
  have d1: "delayed (enable (st\<lparr>delayed := [(txt, silent, d)], paused := False\<rparr>)) = [(txt, silent, d)]"
    by (simp add: enable_def)
  show ?thesis using assms(4,5) x en(3) by (simp add: Let_def eq d1)
qed

definition small_x :: x_env where
  "small_x = \<lparr>te = small_env, init_pauses = False, user = (\<lambda>_ _ st. (Undefined, st)), auth_fun = (\<lambda>_ _ _ st. (AuthLater, st)),
     read_done = (\<lambda>_ _ st. (None, st)), history_filter = None, on_before_command = None, on_after_command = None\<rparr>"

lemma keeps_in_login: "(\<And>s st. in_login (extended env s st) = in_login st) \<Longrightarrow> keeps env in_login"
  unfolding keeps_def using in_login_more by blast

theorem builtin_loses_delayed_witness:
  "let st = small_terminal\<lparr>paused := True, delayed := [('' clear '', False, 0), (''ls'', False, 1)]\<rparr>
   in resume small_x 2 st = resume small_x 2 (small_terminal\<lparr>paused := True, delayed := [('' clear '', False, 0)]\<rparr>)"
proof -
  have "is_word ''clear'' '' clear ''" by code_simp
  moreover have "keeps (te small_x) in_login" by (rule keeps_in_login) (simp add: small_x_def small_env_def)
  moreover have "\<not> in_login small_terminal" by (simp add: small_terminal_def)
  ultimately show ?thesis
    using builtin_loses_delayed [of "'' clear ''" "small_terminal\<lparr>paused := True, delayed := [('' clear '', False, 0), (''ls'', False, 1)]\<rparr>"
      small_x False 0 "[(''ls'', False, 1)]" 1] by (simp add: numeral_2_eq_2)
qed


section \<open>The order of delayed commands\<close>

text \<open>What printing must not touch: the queue, the promises, the login and the interpreters.\<close>

definition core :: "terminal \<Rightarrow> (string \<times> bool \<times> nat) list \<times> nat list \<times> (string \<times> nat option) list \<times> bool \<times> intrp stack" where
  "core st = (delayed st, resolved st, on_resume st, in_login st, interpreters st)"

text \<open>Interpreter functions that may print, pause and resume nothing, and return \<open>undefined\<close>; no callbacks.\<close>

definition tame :: "x_env \<Rightarrow> bool" where
  "tame x \<longleftrightarrow> keeps (te x) core \<and> on_before_command x = None \<and> on_after_command x = None \<and> after_resume (te x) = None \<and>
     (\<forall>k s st. fst (user x k s st) = Undefined \<and> core (snd (user x k s st)) = core st)"

definition ordinary :: "x_env \<Rightarrow> string \<Rightarrow> bool" where
  "ordinary x txt \<longleftrightarrow> \<not> is_word ''exit'' txt \<and> \<not> is_word ''clear'' txt \<and> (is_word ''login'' txt \<longrightarrow> login_setting (te x) = None)"

definition user_top :: "terminal \<Rightarrow> bool" where
  "user_top st \<longleftrightarrow> (case stack_top (interpreters st) of None \<Rightarrow> False | Some i \<Rightarrow> (case i_fun i of UserFun k \<Rightarrow> True | _ \<Rightarrow> False))"

lemma user_top_cong: "core st = core st' \<Longrightarrow> user_top st = user_top st'"
  by (simp add: user_top_def core_def)

text \<open>Nothing pauses the terminal either.\<close>

definition steady :: "x_env \<Rightarrow> bool" where
  "steady x \<longleftrightarrow> keeps (te x) paused \<and> (\<forall>k s st. paused (snd (user x k s st)) = paused st)"

lemma record_command_ok:
  assumes "typed \<Longrightarrow> \<exists>p. split_command txt = Inr p"
  obtains st' where "record_command x typed txt st = (None, st')" "core st' = core st" "paused st' = paused st"
proof -
  obtain s1 where s1: "(if \<not> typed then (None, st)
        else (case split_command txt of
                Inl e \<Rightarrow> (Some e, st)
              | Inr p \<Rightarrow> (None, st\<lparr>prev_name := (case p_name p of ArgStr s \<Rightarrow> Some s | _ \<Rightarrow> None)\<rparr>))) = (None, s1)"
    "core s1 = core st" "paused s1 = paused st"
  proof (cases typed)
    case True
    then obtain p where p: "split_command txt = Inr p" using assms by blast
    show thesis
      by (rule that [of "st\<lparr>prev_name := (case p_name p of ArgStr s \<Rightarrow> Some s | _ \<Rightarrow> None)\<rparr>"]) (simp_all add: True p core_def)
  next
    case False
    show thesis by (rule that [of st]) (simp_all add: False)
  qed
  define c where "c = (if \<not> ghost s1 \<and> (case history_filter x of None \<Rightarrow> True | Some f \<Rightarrow> \<not> typed \<and> f txt)
     then (command_line s1)\<lparr>history := fst (h_append txt (history (command_line s1), page (command_line s1))),
                             page := snd (h_append txt (history (command_line s1), page (command_line s1)))\<rparr>
     else command_line s1)"
  have "record_command x typed txt st = (None, s1\<lparr>command_line := c\<rparr>)"
    unfolding record_command_def s1(1) and_then_simps c_def by (simp add: Let_def split_beta)
  then show ?thesis using that [of "s1\<lparr>command_line := c\<rparr>"] s1(2,3) by (simp add: core_def)
qed

lemma commands_tame:
  assumes "tame x" "ordinary x txt" "user_top st" "typed \<Longrightarrow> \<exists>p. split_command txt = Inr p"
  obtains s2 where "commands x R typed silent d txt st =
      (if paused s2 then (Inr Unresolved, s2\<lparr>on_resume := on_resume s2 @ [(txt, d)]\<rparr>) else (Inr Resolved, s2))"
    "core s2 = core st" "steady x \<Longrightarrow> paused s2 = paused st"
proof -
  have kc: "keeps (te x) core" and cb: "on_before_command x = None" "on_after_command x = None"
    and u: "\<And>k s st. fst (user x k s st) = Undefined" "\<And>k s st. core (snd (user x k s st)) = core st"
    using assms(1) by (auto simp: tame_def)
  obtain s0 where c: "record_command x typed txt st = (None, s0)" "core s0 = core st" "paused s0 = paused st"
    using record_command_ok [OF assms(4)] by metis
  define s1 where "s1 = (if silent then s0 else echo_typed (te x) txt s0)"
  have s1: "core s1 = core st" using printing_keeps(3) [OF kc] c(2) by (simp add: s1_def)
  have p1: "paused s1 = paused st" if "steady x"
    using printing_keeps(3) [of "te x" paused] that c(3) by (simp add: s1_def steady_def)
  obtain i k where i: "stack_top (interpreters st) = Some i" "i_fun i = UserFun k"
    using assms(3) by (auto simp: user_top_def split: option.splits intrp_fun.splits)
  have i0: "stack_top (interpreters s0) = Some i" using i(1) c(2) by (simp add: core_def)
  obtain s2 where s2: "user x k txt s1 = (Undefined, s2)" "core s2 = core s1"
    using u [of k "txt" s1] by (metis prod.collapse snd_conv)
  have di: "dispatch x R topmost d txt s1 = run_interpreter x R topmost d txt s1" for topmost
    using assms(2) by (auto simp: dispatch_def ordinary_def)
  have "commands x R typed silent d txt st =
      (if paused s2 then (Inr Unresolved, s2\<lparr>on_resume := on_resume s2 @ [(txt, d)]\<rparr>) else (Inr Resolved, s2))"
    using c(1) i0 i(2) s2 cb
    by (simp add: commands_def commands_body_def record_and_run_def s1_def [symmetric] di
        run_interpreter_def call_fun_def after_exec_def then_ret_def Let_def)
  moreover have "paused s2 = paused st" if "steady x" using that p1 s2(1) by (metis snd_conv steady_def)
  ultimately show ?thesis using that s1 s2(2) by simp
qed

lemma exec_tame:
  assumes "tame x" "ordinary x txt" "\<not> paused st" "user_top st"
  obtains st' where "exec x R silent d txt st = (None, st')"
    "core st' = core (if paused st' then st\<lparr>on_resume := on_resume st @ [(txt, d)]\<rparr> else resolve d st)"
proof -
  obtain s2 where s2: "commands x R False silent d txt st =
      (if paused s2 then (Inr Unresolved, s2\<lparr>on_resume := on_resume s2 @ [(txt, d)]\<rparr>) else (Inr Resolved, s2))" "core s2 = core st"
    using commands_tame [OF assms(1,2,4), of False] by metis
  then have "exec x R silent d txt st =
      (None, if paused s2 then s2\<lparr>on_resume := on_resume s2 @ [(txt, d)]\<rparr> else resolve d s2)"
    using assms(3) by (simp add: exec_def)
  then show ?thesis
    using that s2(2) by (auto simp: core_def resolve_def split: option.splits)
qed

lemma exec_all_paused:
  "paused st \<Longrightarrow> exec_all x R ds st = (None, st\<lparr>delayed := delayed st @ ds\<rparr>)"
proof (induction ds arbitrary: st)
  case (Cons p ds)
  obtain t s d where "p = (t, s, d)" by (cases p) auto
  then show ?case using Cons by (simp add: exec_def)
qed simp

abbreviation promise_of :: "string \<times> bool \<times> nat \<Rightarrow> nat" where
  "promise_of p \<equiv> snd (snd p)"

lemma exec_all_tame:
  assumes "tame x" "\<forall>p\<in>set ds. ordinary x (fst p)" "\<not> paused st" "user_top st"
  shows "\<exists>k st'. exec_all x R ds st = (None, st') \<and> k \<le> length ds \<and> resolved st' = resolved st @ map promise_of (take k ds) \<and>
    delayed st' = delayed st @ drop (Suc k) ds \<and>
    on_resume st' = on_resume st @ map (\<lambda>p. (fst p, Some (promise_of p))) (take 1 (drop k ds)) \<and>
    (paused st' \<longleftrightarrow> k < length ds)"
  using assms(2-4)
proof (induction ds arbitrary: st)
  case Nil
  then show ?case by (intro exI [of _ 0] exI [of _ st]) simp
next
  case (Cons p ds)
  obtain t s d where p: "p = (t, s, d)" by (cases p) auto
  obtain s1 where s1: "exec x R s (Some d) t st = (None, s1)"
    "core s1 = core (if paused s1 then st\<lparr>on_resume := on_resume st @ [(t, Some d)]\<rparr> else resolve (Some d) st)"
    using exec_tame [OF assms(1), of t st R s "Some d"] Cons.prems p by auto
  show ?case
  proof (cases "paused s1")
    case True
    have "exec_all x R (p # ds) st = (None, s1\<lparr>delayed := delayed s1 @ ds\<rparr>)"
      using s1(1) exec_all_paused [OF True] by (simp add: p)
    then show ?thesis using s1(2) True
      by (intro exI [of _ 0] exI [of _ "s1\<lparr>delayed := delayed s1 @ ds\<rparr>"]) (simp add: p core_def)
  next
    case False
    have "user_top s1" using Cons.prems(3) s1(2) False by (simp add: user_top_def core_def resolve_def)
    then obtain k st' where IH: "exec_all x R ds s1 = (None, st')" "k \<le> length ds"
      "resolved st' = resolved s1 @ map promise_of (take k ds)" "delayed st' = delayed s1 @ drop (Suc k) ds"
      "on_resume st' = on_resume s1 @ map (\<lambda>p. (fst p, Some (promise_of p))) (take 1 (drop k ds))" "paused st' \<longleftrightarrow> k < length ds"
      using Cons.IH [of s1] Cons.prems False by auto
    then show ?thesis using s1 False p
      by (intro exI [of _ "Suc k"] exI [of _ st']) (simp add: core_def resolve_def)
  qed
qed

lemma run_handlers_quiet:
  assumes "on_after_command x = None"
  shows "run_handlers x hs st =
    (None, st\<lparr>resolved := resolved st @ List.map_filter snd hs, on_resume := (if hs = [] then on_resume st else [])\<rparr>)"
proof (induction hs arbitrary: st)
  case (Cons h hs)
  then show ?case
    using assms by (cases h) (simp add: after_exec_def resolve_def map_filter_simps split: option.split)
qed (simp add: map_filter_simps)


lemma keeps_core: "(\<And>s st. core (extended env s st) = core st) \<Longrightarrow> keeps env core"
proof -
  have "out.more st = out.more st' \<Longrightarrow> core st = core st'" for st st'
    by (cases st; cases st') (simp add: core_def)
  then show "(\<And>s st. core (extended env s st) = core st) \<Longrightarrow> keeps env core"
    unfolding keeps_def by blast
qed

text \<open>The interpreter pauses the terminal for the command \<open>wait\<close>.\<close>

definition waiting_x :: x_env where
  "waiting_x = small_x\<lparr>user := (\<lambda>_ s st. (Undefined, if s = ''wait'' then st\<lparr>paused := True\<rparr> else st))\<rparr>"

lemma waiting_tame: "tame waiting_x"
  unfolding tame_def
  by (intro conjI keeps_core) (simp_all add: waiting_x_def small_x_def small_env_def core_def)

definition queued :: "(string \<times> bool \<times> nat) list \<Rightarrow> terminal" where
  "queued ds = small_terminal\<lparr>paused := True, delayed := ds, on_resume := [(''first'', Some 7)]\<rparr>"



section \<open>What is typed during a login\<close>

lemma masked_star:
  "CHR 0x0A \<notin> set t \<Longrightarrow> CHR 0x0D \<notin> set t \<Longrightarrow> masked (MaskStr ''*'') t = replicate (length t) CHR ''*''"
proof -
  assume t: "CHR 0x0A \<notin> set t" "CHR 0x0D \<notin> set t"
  have "masked (MaskStr ''*'') t = concat (map (\<lambda>c. if c \<notin> set [CHR 0x0A, CHR 0x0D] then ''*'' else [c]) t)"
    unfolding masked_def re_dot_def none_of_def mask.case by (rule replace_all_Cls) simp
  also have "\<dots> = concat (map (\<lambda>c. ''*'') t)"
    using t by (intro arg_cong [where f = concat] map_cong) auto
  also have "\<dots> = replicate (length t) CHR ''*''" by (induction t) simp_all
  finally show ?thesis .
qed

text \<open>A command line that has just been prepared for a question of the login.\<close>

definition asks :: "terminal \<Rightarrow> bool" where
  "asks st \<longleftrightarrow> in_login st \<and> \<not> h_enabled (history (command_line st)) \<and> readable (store_of st)"

lemma push_asks:
  assumes "asks st"
  obtains st' where "push_plain env f (prompt_only p) st = (None, st')" "asks st'"
    "mask (command_line st') = mask (command_line st)" "prompt (command_line st') = PromptStr p"
    "\<exists>i. stack_top (interpreters st') = Some i \<and> i_fun i = f"
proof -
  define s where "s = push_intrp f (prompt_only p) st"
  have s: "command_line s = command_line st" "in_login s" "stack_list s \<noteq> []" "i_start (last (stack_list s)) = None"
    "i_prompt (last (stack_list s)) = PromptStr p" "i_fun (last (stack_list s)) = f" "ghost s"
    using assms by (simp_all add: s_def push_intrp_def prompt_only_def Let_def asks_def stack_list_def stack_push_def ghost_def)
  have "readable (store_of s)" using s(1) assms by (simp add: store_of_def asks_def)
  then obtain c where c: "prepare_top env False s = (None, s\<lparr>command_line := c\<rparr>)" "mask c = mask (command_line s)"
    "h_enabled (history c) = h_enabled (history (command_line s))" "readable (page c)" "prompt c = PromptStr p"
    using prepare_ok [OF s(3,4) _ disjI1 [OF s(7)], of env False] s(5) by metis
  let ?t = "s\<lparr>command_line := c\<rparr>"
  have "push_plain env f (prompt_only p) st = (None, ?t)"
    unfolding push_plain_def by (rule guarded_None) (simp add: c(1) s_def [symmetric])
  moreover have "stack_top (interpreters ?t) = Some (last (stack_list s))" using s(3) by (simp add: stack_top_list)
  ultimately show ?thesis using that [of ?t] c s assms by (simp add: asks_def store_of_def)
qed

lemma asks_record:
  assumes "asks st"
  shows "command_line (snd (record_command x typed t st)) = command_line st"
    "page (enter opts ((command_line st)\<lparr>command := t\<rparr>)) = store_of st"
    "h_data (history (enter opts ((command_line st)\<lparr>command := t\<rparr>))) = h_data (history (command_line st))"
proof -
  have g: "ghost (st\<lparr>prev_name := nm\<rparr>)" "ghost st" for nm using assms by (simp_all add: ghost_def asks_def)
  show "command_line (snd (record_command x typed t st)) = command_line st"
    using g by (simp add: record_command_def split: sum.split)
  have "(history (enter opts ((command_line st)\<lparr>command := t\<rparr>)), page (enter opts ((command_line st)\<lparr>command := t\<rparr>)))
      = (h_reset (history (command_line st)), page (command_line st))"
    unfolding enter_history using assms by (simp add: h_append_def asks_def)
  then show "page (enter opts ((command_line st)\<lparr>command := t\<rparr>)) = store_of st"
    "h_data (history (enter opts ((command_line st)\<lparr>command := t\<rparr>))) = h_data (history (command_line st))"
    by (simp_all add: store_of_def h_reset_def)
qed

text \<open>
  C18: with the setting \<open>history\<close> a login keeps what is typed to itself. \<open>login\<close> asks for the name, and the answer
  leads to the question for the password; at the second question ENTER and \<open>commands\<close> put the typed password neither
  into the history nor into the storage, and with the usual mask the echo shows stars only.
\<close>

theorem login_keeps_password:
  assumes "history_setting env" "\<not> in_login st" "\<not> (given (token env True st) \<and> given (login_name env True st))"
    and "readable (store_of st)" "mask_char (t_out env) = ''*''"
    and "CHR 0x0A \<notin> set pass" "CHR 0x0D \<notin> set pass"
  shows "\<exists>st1 st2. login env ip R lc st = (None, st1) \<and> in_login st1 \<and> ask_password env lc nm st1 = (None, st2) \<and>
    prompt (command_line st2) = PromptStr ''password: '' \<and>
    (let c = enter opts ((command_line st2)\<lparr>command := pass\<rparr>)
     in page c = store_of st2 \<and> h_data (history c) = h_data (history (command_line st2))) \<and>
    command_line (snd (record_command x typed pass st2)) = command_line st2 \<and>
    command_echo (t_out env) (mask (command_line st2)) pass = replicate (length pass) CHR ''*''"
proof -
  let ?s = "(set_history h_disable st)\<lparr>in_login := True, autologin_handler := Some lc\<rparr>"
  have "asks ?s" using assms(4) by (simp add: asks_def set_history_def h_disable_def store_of_def)
  then obtain st1 where st1: "push_plain env (AskName lc) (prompt_only login_text) ?s = (None, st1)" "asks st1"
    using push_asks by metis
  have l: "login env ip R lc st = (None, st1)"
    unfolding login_def using assms(1-3) st1(1) by (intro guarded_None) (auto simp: Let_def)
  let ?t = "set_mask env (Some (MaskStr (mask_char (t_out env)))) st1"
  have "asks ?t" "mask (command_line ?t) = MaskStr ''*''"
    using st1(2) assms(5) by (simp_all add: asks_def set_mask_line restored_mask_def store_of_def)
  then obtain st2 where st2: "push_plain env (AskPass lc nm) (prompt_only password_text) ?t = (None, st2)" "asks st2"
    "mask (command_line st2) = MaskStr ''*''" "prompt (command_line st2) = PromptStr password_text"
    using push_asks [of ?t env "AskPass lc nm" password_text] by metis
  have "command_echo (t_out env) (mask (command_line st2)) pass = replicate (length pass) CHR ''*''"
    using masked_star [OF assms(6,7)] st2(3) by (simp add: command_echo_def)
  then show ?thesis
    using l st1(2) st2 asks_record [OF st2(2)]
    by (intro exI [of _ st1] exI [of _ st2]) (simp add: ask_password_def asks_def password_text_def Let_def)
qed

theorem login_keeps_password_witness:
  "\<exists>st1 st2. login small_env False (\<lambda>st. (None, st)) nested_login small_terminal = (None, st1) \<and>
     ask_password small_env nested_login ''ann'' st1 = (None, st2) \<and>
     command_echo (t_out small_env) (mask (command_line st2)) ''secret'' = ''******''"
proof -
  have "token small_env True small_terminal = None"
    using small_store by (simp add: token_def storage_get_def rls_def empty_browser_def)
  moreover have "history_setting small_env" "\<not> in_login small_terminal" "mask_char (t_out small_env) = ''*''"
    by (simp_all add: small_env_def small_terminal_def plain_env_def)
  ultimately show ?thesis
    using login_keeps_password [of small_env small_terminal "''secret''" False "\<lambda>st. (None, st)" nested_login "''ann''" plain_options small_x True]
      small_readable
    by (auto simp: given_def numeral_eq_Suc)
qed

end
