(* ===== verification/Interp_Make.thy ===== *)
theory Interp_Make
  imports Term_Exec
begin

text \<open>
  Interpreters made from what the page's author gives: \<open>make_interpreter\<close> on a function, an object, the URL of a
  JSON-RPC service, or an array of these, and the functions it makes. A made interpreter is a decision: it turns a
  command and the token into one action. What a service answers, and what a method of the author does, are
  parameters.
\<close>

section \<open>Objects of the author\<close>

text \<open>A member of an object: a function with its arity (\<open>length\<close>), an object, a text, anything else.\<close>

datatype member =
    MFun nat nat
  | MRpc string string "nat option"  \<comment> \<open>a procedure of a service with the number of its parameters, if known\<close>
  | MObj "(string \<times> member) list"
  | MStr string
  | MOther

type_synonym object = "(string \<times> member) list"

text \<open>\<open>Object.prototype\<close>: its functions get numbers from 900 on.\<close>

definition proto_members :: object where
  "proto_members =
     [(''constructor'', MFun 900 1), (''toString'', MFun 901 0), (''toLocaleString'', MFun 902 0), (''valueOf'', MFun 903 0),
      (''hasOwnProperty'', MFun 904 1), (''isPrototypeOf'', MFun 905 1), (''propertyIsEnumerable'', MFun 906 1),
      (''__proto__'', MObj [])]"

text \<open>\<open>object[name]\<close>, and \<open>$.extend(object, other)\<close>, which keeps the place of a key that is there.\<close>

definition member_of :: "object \<Rightarrow> string \<Rightarrow> member option" where
  "member_of obj name = (case map_of obj name of Some m \<Rightarrow> Some m | None \<Rightarrow> map_of proto_members name)"

fun set_member :: "string \<times> member \<Rightarrow> object \<Rightarrow> object" where
  "set_member (k, m) [] = [(k, m)]"
| "set_member (k, m) (p # ps) = (if fst p = k then (k, m) # ps else p # set_member (k, m) ps)"

definition extend_obj :: "object \<Rightarrow> object \<Rightarrow> object" where
  "extend_obj obj other = fold set_member other obj"

fun arity :: "member \<Rightarrow> nat" where
  "arity (MFun _ n) = n"
| "arity _ = 0"

section \<open>Settings\<close>

datatype processing = ByFunction "string \<Rightarrow> js_error + arg list" | Parse | Split

record i_env =
  process_arguments :: processing
  regexp_ok :: "string \<Rightarrow> string \<Rightarrow> bool"
  check_arity :: bool
  arity_option :: bool       \<comment> \<open>\<open>settings.arity\<close>, which no default sets\<close>
  login_given :: bool        \<comment> \<open>\<open>settings.login\<close>\<close>
  not_found_given :: bool    \<comment> \<open>\<open>onCommandNotFound\<close>\<close>
  ignore_describe :: bool

definition get_processed_command :: "i_env \<Rightarrow> string \<Rightarrow> js_error + parsed" where
  "get_processed_command env s =
     (case process_arguments env of
        ByFunction f \<Rightarrow> process_command s f
      | Parse \<Rightarrow> parse_command (regexp_ok env) s
      | Split \<Rightarrow> split_command s)"

section \<open>Messages\<close>

fun arg_text :: "arg \<Rightarrow> string" where
  "arg_text (ArgStr s) = s"
| "arg_text (ArgRegex p f) = ''/'' @ p @ ''/'' @ f"
| "arg_text (ArgInt n) = show_int n"
| "arg_text (ArgFloat s) = s"

definition wrong_arity :: "string \<Rightarrow> nat \<Rightarrow> nat \<Rightarrow> string" where
  "wrong_arity name expected got =
     ''&#91;Arity&#93; Wrong number of arguments. Function '' @ [sq] @ name @ [sq] @ '' expects '' @ show_nat expected @
     '' got '' @ show_nat got @ ''!''"

definition no_token :: string where
  "no_token = ''&#91;AUTH&#93; Access denied (no token)''"

definition not_found :: "string \<Rightarrow> string" where
  "not_found name = ''Command '' @ [sq] @ name @ [sq] @ '' Not Found!''"

section \<open>The interpreter of an object\<close>

text \<open>What an interpreter does with a command. A nested object keeps whether its arity is checked and the login.\<close>

datatype action =
    Nothing
  | ShowError string
  | ProcessError js_error            \<comment> \<open>\<open>error(e.toString())\<close>\<close>
  | CallMember member "arg list"
  | PushObject string object bool bool
  | PushUrl string string
  | Fallback string
  | NotFound string

definition lookup_command :: "i_env \<Rightarrow> object \<Rightarrow> bool \<Rightarrow> bool \<Rightarrow> bool \<Rightarrow> string \<Rightarrow> arg \<Rightarrow> arg list \<Rightarrow> action" where
  "lookup_command env obj check auth_on fallback text_given name args =
     (case member_of obj (arg_text name) of
        Some (MFun k n) \<Rightarrow>
          (if check \<and> n \<noteq> length args then ShowError (wrong_arity (arg_text name) n (length args)) else CallMember (MFun k n) args)
      | Some (MRpc url p n) \<Rightarrow>
          (if check \<and> length args \<noteq> 0 then ShowError (wrong_arity (arg_text name) 0 (length args)) else CallMember (MRpc url p n) args)
      | Some (MObj o') \<Rightarrow> PushObject (arg_text name) o' (arity_option env) auth_on
      | Some (MStr url) \<Rightarrow> PushUrl (arg_text name) url
      | _ \<Rightarrow>
          (if fallback then Fallback text_given
           else if not_found_given env then NotFound text_given
           else ShowError (not_found (arg_text name))))"

definition object_command :: "i_env \<Rightarrow> object \<Rightarrow> bool \<Rightarrow> bool \<Rightarrow> bool \<Rightarrow> string option \<Rightarrow> string \<Rightarrow> action" where
  "object_command env obj check auth_on fallback tok s =
     (if s = '''' then Nothing
      else
        (case get_processed_command env s of
           Inl e \<Rightarrow> ProcessError e
         | Inr p \<Rightarrow>
             (if auth_on then
                (if given tok then lookup_command env obj check auth_on fallback s (p_name p) (ArgStr (the tok) # p_args p)
                 else ShowError no_token)
              else lookup_command env obj check auth_on fallback s (p_name p) (p_args p))))"

section \<open>JSON-RPC\<close>

text \<open>The number of a request counts for each URL. The third component is the text that is sent.\<close>

definition jrpc :: "(string \<Rightarrow> nat) \<Rightarrow> string \<Rightarrow> string \<Rightarrow> jsval list \<Rightarrow> (string \<Rightarrow> nat) \<times> string" where
  "jrpc ids url method params =
     (let n = ids url + 1
      in (ids(url := n),
          json_stringify (JObj [(''jsonrpc'', JStr ''2.0''), (''method'', JStr method), (''params'', JArr params),
            (''id'', JNum (int n))]) 1))"

text \<open>
  What becomes of the answer: \<open>content_type\<close> is the header, \<open>parse\<close> is \<open>$.parseJSON\<close>, \<open>console\<close> whether the browser
  has one.
\<close>

datatype 'j rpc_answer = Success 'j | ErrorCallback string | Raises js_error

definition json_type_re :: re where
  "json_type_re = Lit ''application/json''"

definition jrpc_answer :: "bool \<Rightarrow> bool \<Rightarrow> (string \<Rightarrow> 'j option) \<Rightarrow> string option \<Rightarrow> string \<Rightarrow> 'j rpc_answer" where
  "jrpc_answer console error_given parse content_type text_sent =
     (case content_type of
        None \<Rightarrow> Raises TypeError
      | Some ct \<Rightarrow>
          (if \<not> re_test json_type_re ct \<and> \<not> console then
             Raises (Throw ''WARN: Response Content-Type is not application/json'')
           else
             (case parse text_sent of
                None \<Rightarrow> (if error_given then ErrorCallback ''Invalid JSON'' else Raises (Throw ''Invalid JSON''))
              | Some j \<Rightarrow> Success j)))"

text \<open>The function that \<open>make_json_rpc_object\<close> makes for a procedure: an error, or a request while the terminal is paused,
  with what is put in front of the arguments.\<close>

datatype rpc_call = RpcError string | RpcRequest string string "string option list" "arg list"

definition rpc_method :: "i_env \<Rightarrow> string option \<Rightarrow> string \<Rightarrow> string \<Rightarrow> nat option \<Rightarrow> arg list \<Rightarrow> rpc_call" where
  "rpc_method env tok url name params args =
     (let append = login_given env \<and> name \<noteq> ''help'';
          args_len = length args + (if append then 1 else 0)
      in if check_arity env \<and> params \<noteq> None \<and> the params \<noteq> args_len then RpcError (wrong_arity name (the params) args_len)
         else RpcRequest url name (if append then [tok] else []) args)"

text \<open>The interpreter of a service without \<open>system.describe\<close>.\<close>

datatype basic_action = BasicNothing | BasicError string | BasicFailure js_error | BasicRequest string string "arg list"

definition basic_command :: "i_env \<Rightarrow> string option \<Rightarrow> string \<Rightarrow> string \<Rightarrow> basic_action" where
  "basic_command env tok url s =
     (if s = '''' then BasicNothing
      else
        (case get_processed_command env s of
           Inl e \<Rightarrow> BasicFailure e
         | Inr p \<Rightarrow>
             (if \<not> login_given env \<or> p_name p = ArgStr ''help'' then BasicRequest url (arg_text (p_name p)) (p_args p)
              else if given tok then BasicRequest url (arg_text (p_name p)) (ArgStr (the tok) # p_args p)
              else BasicError no_token)))"

text \<open>The authentication function of a service: what the callback gets for the answer.\<close>

definition rpc_login_token :: "bool \<Rightarrow> string option \<Rightarrow> string option" where
  "rpc_login_token error res = (if \<not> error \<and> given res then res else None)"

section \<open>make_interpreter\<close>

datatype user_intrp = UiFun nat | UiObj object | UiUrl string | UiOther string  \<comment> \<open>the last with its \<open>$.type\<close>\<close>

datatype fn_intrp = FnUser nat | FnBasic string

text \<open>What the making shows and does to the terminal on its way.\<close>

datatype making = Pauses | Resumes | Shows string

datatype made = MadeObject object bool bool "fn_intrp option" | MadeUser nat | MadeBasic string | MadeNoop

definition procs_object :: "string \<Rightarrow> (string \<times> nat option) list \<Rightarrow> object" where
  "procs_object url procs = fold (\<lambda>(n, ps) obj. set_member (n, MRpc url n ps) obj) procs []"

definition one_rpc :: string where
  "one_rpc = ''You can use only one rpc with ignoreSystemDescribe''"

definition one_function :: string where
  "one_function = ''You can't use more than one function (rpcwith ignoreSystemDescribe counts as one)''"

text \<open>
  \<open>recur\<close> over an array. \<open>describe\<close> is what the services answer to \<open>system.describe\<close>, \<^const>\<open>None\<close> when there is no
  description. A function and anything that is no text, function or object ends the recursion without success:
  the second component is then \<^const>\<open>None\<close>.
\<close>

fun recur :: "i_env \<Rightarrow> (string \<Rightarrow> (string \<times> nat option) list option) \<Rightarrow> user_intrp list \<Rightarrow> object \<Rightarrow> fn_intrp option \<Rightarrow> nat \<Rightarrow>
    making list \<times> (object \<times> fn_intrp option) option" where
  "recur env describe [] obj fn n = ([], Some (obj, fn))"
| "recur env describe (UiUrl url # rest) obj fn n =
     (if ignore_describe env then
        (if n = 0 then (let (l, r) = recur env describe rest obj (Some (FnBasic url)) 1 in (Pauses # l, r))
         else (let (l, r) = recur env describe rest obj fn (n + 1) in (Pauses # Shows one_rpc # l, r)))
      else
        (let obj = (case describe url of None \<Rightarrow> obj | Some procs \<Rightarrow> extend_obj obj (procs_object url procs));
             (l, r) = recur env describe rest obj fn (n + 1)
         in (Pauses # Resumes # l, r)))"
| "recur env describe (UiFun k # rest) obj fn n = ((if fn \<noteq> None then [Shows one_function] else []), None)"
| "recur env describe (UiObj o' # rest) obj fn n = recur env describe rest (extend_obj obj o') fn n"
| "recur env describe (UiOther ty # rest) obj fn n = ([], None)"

text \<open>\<open>finalize\<close> is called with the second component, or never.\<close>

definition make_array :: "i_env \<Rightarrow> (string \<Rightarrow> (string \<times> nat option) list option) \<Rightarrow> bool \<Rightarrow> user_intrp list \<Rightarrow>
    making list \<times> made option" where
  "make_array env describe auth_on us =
     (case recur env describe us [] None 0 of
        (l, None) \<Rightarrow> (l, None)
      | (l, Some (obj, fn)) \<Rightarrow> (l, Some (MadeObject obj False auth_on fn)))"

datatype intrp_arg = Single user_intrp | Several "user_intrp list" | NoIntrp

definition make_interpreter :: "i_env \<Rightarrow> (string \<Rightarrow> (string \<times> nat option) list option) \<Rightarrow> bool \<Rightarrow> intrp_arg \<Rightarrow>
    making list \<times> (js_error + made option)" where
  "make_interpreter env describe auth_on u =
     (case u of
        Several us \<Rightarrow> (let (l, m) = make_array env describe auth_on us in (l, Inr m))
      | Single (UiUrl url) \<Rightarrow>
          (if ignore_describe env then ([], Inr (Some (MadeBasic url)))
           else ([Pauses, Resumes], Inr (Some (case describe url of
                   None \<Rightarrow> MadeBasic url | Some procs \<Rightarrow> MadeObject (procs_object url procs) False auth_on None))))
      | Single (UiObj obj) \<Rightarrow> ([], Inr (Some (MadeObject obj (check_arity env) False None)))
      | Single (UiFun k) \<Rightarrow> ([], Inr (Some (MadeUser k)))
      | Single (UiOther ty) \<Rightarrow> ([], Inl (Throw (ty @ '' is invalid interpreter value'')))
      | NoIntrp \<Rightarrow> ([], Inr (Some MadeNoop)))"



section \<open>Objects put together\<close>

lemma map_of_set_member: "map_of (set_member p obj) = (map_of obj)(fst p \<mapsto> snd p)"
  by (cases p, induction obj) (auto simp: fun_eq_iff)

lemma map_of_extend: "map_of (extend_obj obj other) = map_of obj ++ map_of (rev other)"
  unfolding extend_obj_def
proof (induction other arbitrary: obj)
  case (Cons p other)
  then show ?case by (cases p) (auto simp: map_of_set_member map_add_def fun_eq_iff split: option.split)
qed simp

definition proc_members :: "string \<Rightarrow> (string \<times> nat option) list \<Rightarrow> object" where
  "proc_members url procs = map (\<lambda>(n, ps). (n, MRpc url n ps)) procs"

lemma procs_object_extend: "procs_object url procs = extend_obj [] (proc_members url procs)"
proof -
  have "fold (\<lambda>(n, ps). set_member (n, MRpc url n ps)) procs obj = fold set_member (proc_members url procs) obj" for obj
    by (induction procs arbitrary: obj) (auto simp: proc_members_def)
  then show ?thesis by (simp add: procs_object_def extend_obj_def)
qed

lemma set_member_keys: "distinct (map fst obj) \<Longrightarrow> distinct (map fst (set_member p obj)) \<and>
    fst ` set (set_member p obj) = insert (fst p) (fst ` set obj)"
  by (cases p, induction obj) auto

lemma extend_distinct: "distinct (map fst obj) \<Longrightarrow> distinct (map fst (extend_obj obj other))"
  unfolding extend_obj_def by (induction other arbitrary: obj) (simp_all add: set_member_keys)

lemma map_of_rev_distinct: "distinct (map fst xs) \<Longrightarrow> map_of (rev xs) = map_of xs"
  by (rule map_of_eqI) (auto simp: rev_map [symmetric] map_of_eq_None_iff dest: map_of_SomeD intro: map_of_is_SomeI)

lemma map_of_procs: "map_of (rev (procs_object url procs)) = map_of (rev (proc_members url procs))"
  using extend_distinct [of "[]"] by (simp add: procs_object_extend map_of_rev_distinct map_of_extend)

section \<open>Arrays of interpreters\<close>

text \<open>The members that an element of the array contributes; the last one with a name counts.\<close>

fun contribution :: "i_env \<Rightarrow> (string \<Rightarrow> (string \<times> nat option) list option) \<Rightarrow> user_intrp \<Rightarrow> string \<Rightarrow> member option" where
  "contribution env describe (UiObj o') = map_of (rev o')"
| "contribution env describe (UiUrl url) =
     (if ignore_describe env then Map.empty
      else case describe url of None \<Rightarrow> Map.empty | Some procs \<Rightarrow> map_of (rev (proc_members url procs)))"
| "contribution env describe _ = Map.empty"

fun mergeable :: "user_intrp \<Rightarrow> bool" where
  "mergeable (UiFun k) = False"
| "mergeable (UiOther ty) = False"
| "mergeable _ = True"

lemma recur_finalizes: "snd (recur env describe us obj fn n) = None \<longleftrightarrow> \<not> list_all mergeable us"
proof (induction us arbitrary: obj fn n)
  case (Cons u us)
  then show ?case by (cases u) (simp_all add: Let_def case_prod_unfold)
qed simp

lemma recur_object:
  "snd (recur env describe us obj fn n) = Some (obj', fn') \<Longrightarrow>
   map_of obj' = foldl (\<lambda>m u. m ++ contribution env describe u) (map_of obj) us"
proof (induction us arbitrary: obj fn n)
  case (Cons u us)
  then show ?case
    by (cases u) (auto simp: Let_def case_prod_unfold map_of_extend map_of_procs split: option.splits if_splits)
qed simp


text \<open>With \<open>ignoreSystemDescribe\<close> every service of the array pauses the terminal and nothing resumes it.\<close>

fun pause_level :: "making list \<Rightarrow> int" where
  "pause_level [] = 0"
| "pause_level (Pauses # l) = 1 + pause_level l"
| "pause_level (Resumes # l) = pause_level l - 1"
| "pause_level (Shows s # l) = pause_level l"

fun urls :: "user_intrp list \<Rightarrow> nat" where
  "urls [] = 0"
| "urls (UiUrl url # us) = Suc (urls us)"
| "urls (UiObj obj # us) = urls us"
| "urls (_ # us) = 0"

lemma recur_pauses:
  "pause_level (fst (recur env describe us obj fn n)) = (if ignore_describe env then int (urls us) else 0)"
proof (induction us arbitrary: obj fn n)
  case (Cons u us)
  then show ?case by (cases u) (simp_all add: Let_def case_prod_unfold)
qed simp

text \<open>
  Making an interpreter from an array resumes the terminal as often as it pauses it, except with
  \<open>ignoreSystemDescribe\<close>: then it pauses once for every service in front of the first function and never resumes.
\<close>

theorem make_array_pauses:
  "pause_level (fst (make_array env describe auth_on us)) = (if ignore_describe env then int (urls us) else 0)"
  using recur_pauses [of env describe us "[]" None 0] by (auto simp: make_array_def split: prod.splits option.splits)

section \<open>Tokens and arities\<close>


text \<open>
  With the check of arities a method is called with as many arguments as it declares. The objects inside an
  object are checked only when the undocumented option \<open>arity\<close> is set, whatever \<open>checkArity\<close> says.
\<close>

theorem arity_checked:
  "(case object_command env obj True auth_on fallback tok s of
      CallMember m args \<Rightarrow> length args = arity m
    | PushObject n o' c l \<Rightarrow> c = arity_option env
    | _ \<Rightarrow> True)"
  by (auto simp: object_command_def lookup_command_def split: sum.split option.split member.split)

text \<open>
  On a terminal with a login a procedure of a service gets the token twice: the interpreter of the service puts it in
  front of the arguments, and so does the function made for the procedure. When the service declares its parameters
  and these are the token and the typed arguments, the check of the arity refuses the call.
\<close>

theorem token_sent_twice:
  assumes "login_given env" "given tok" "split_command s = Inr p" "process_arguments env = Split" "s \<noteq> ''''"
    and "map_of obj (arg_text (p_name p)) = Some (MRpc url nm params)" "nm \<noteq> ''help''"
  shows "object_command env obj False True fallback tok s = CallMember (MRpc url nm params) (ArgStr (the tok) # p_args p) \<and>
    rpc_method env tok url nm params (ArgStr (the tok) # p_args p) =
      (if check_arity env \<and> params \<noteq> None \<and> the params \<noteq> length (p_args p) + 2
       then RpcError (wrong_arity nm (the params) (length (p_args p) + 2))
       else RpcRequest url nm [tok] (ArgStr (the tok) # p_args p))"
  using assms by (simp add: object_command_def get_processed_command_def lookup_command_def member_of_def rpc_method_def Let_def)

definition split_env :: i_env where
  "split_env = \<lparr>process_arguments = Split, regexp_ok = (\<lambda>_ _. True), check_arity = True, arity_option = False, login_given = True,
     not_found_given = False, ignore_describe = False\<rparr>"

theorem token_sent_twice_witness:
  "rpc_method split_env (Some ''tok'') ''/rpc'' ''echo'' (Some 2) [ArgStr ''tok'', ArgStr ''a''] =
     RpcError (wrong_arity ''echo'' 2 3)"
proof -
  have s: "split_command ''echo a'' = Inr \<lparr>p_command = ''echo a'', p_name = ArgStr ''echo'', p_args = [ArgStr ''a''], p_rest = ''a''\<rparr>"
    by code_simp
  show ?thesis
    using token_sent_twice [of split_env "Some ''tok''" "''echo a''" "\<lparr>p_command = ''echo a'', p_name = ArgStr ''echo'', p_args = [ArgStr ''a''], p_rest = ''a''\<rparr>"
      "[(''echo'', MRpc ''/rpc'' ''echo'' (Some 2))]" "''/rpc''" "''echo''" "Some 2" False] s
    by (simp add: split_env_def given_def numeral_eq_Suc)
qed


section \<open>The actions on the terminal\<close>

fun error_string :: "js_error \<Rightarrow> string" where
  "error_string (Throw s) = ''Error: '' @ s"
| "error_string TypeError = ''TypeError''"
| "error_string SyntaxError = ''SyntaxError''"

definition nested_push :: "t_env \<Rightarrow> nat \<Rightarrow> string \<Rightarrow> terminal meth" where
  "nested_push env k name = push_plain env (UserFun k)
     \<lparr>po_name = Some name, po_prompt = Some (PromptStr (name @ ''> '')), po_start = None, po_exit = None, po_login = None\<rparr>"

text \<open>
  \<open>call\<close> runs what the author supplied, a method, the fallback or \<open>onCommandNotFound\<close>; \<open>number\<close> is the number under
  which a nested interpreter is known to the terminal.
\<close>

definition perform :: "t_env \<Rightarrow> (action \<Rightarrow> terminal \<Rightarrow> answer \<times> terminal) \<Rightarrow> (action \<Rightarrow> nat) \<Rightarrow> action \<Rightarrow> terminal \<Rightarrow> answer \<times> terminal" where
  "perform env call number a st =
     (case a of
        Nothing \<Rightarrow> (Undefined, st)
      | ShowError msg \<Rightarrow> (Undefined, t_error env msg st)
      | ProcessError e \<Rightarrow> (Undefined, t_error env (error_string e) st)
      | PushObject n _ _ _ \<Rightarrow> no_answer (nested_push env (number a) n st)
      | PushUrl n _ \<Rightarrow> no_answer (nested_push env (number a) n st)
      | _ \<Rightarrow> call a st)"

text \<open>The interpreter of an object as an interpreter function of the terminal.\<close>

definition object_user :: "i_env \<Rightarrow> t_env \<Rightarrow> (action \<Rightarrow> terminal \<Rightarrow> answer \<times> terminal) \<Rightarrow> (action \<Rightarrow> nat) \<Rightarrow>
    object \<Rightarrow> bool \<Rightarrow> bool \<Rightarrow> bool \<Rightarrow> string \<Rightarrow> terminal \<Rightarrow> answer \<times> terminal" where
  "object_user env tenv call number obj check auth_on fallback s st =
     perform tenv call number (object_command env obj check auth_on fallback (token tenv True st) s) st"



end
