(* ===== verification/Term_Keys.thy ===== *)
theory Term_Keys
  imports Term_Exec
begin

text \<open>
  The keys that the terminal handles before the command line sees them: \<open>key_down\<close> with the completion of the word
  before the cursor. The completion arrays belong to the author or to an interpreter, and \<open>complete_helper\<close> writes
  into them, so they are part of the state.
\<close>

section \<open>State\<close>

text \<open>A falsy completion, a boolean, a function of the author, an array, any other value.\<close>

datatype completion = CompFalsy | CompTrue | CompFun nat | CompArray "string list" | CompOther

text \<open>A request that is under way: whether it has finished, and whether \<open>abort\<close> throws.\<close>

record request =
  finished :: bool
  abort_throws :: bool

record keys =
  kterm :: terminal
  tab_count :: nat
  settings_completion :: completion
  top_completion :: completion
  requests :: "request list"

text \<open>
  \<open>completion_fun\<close> is what a completion function hands to its callback at once, if it does; a later call is
  \<open>complete_helper\<close> on its own. \<open>focus_next\<close> is \<open>self.focus(false)\<close>.
\<close>

record k_env =
  kx :: x_env
  depth :: nat
  top_keydown :: "(key \<Rightarrow> terminal \<Rightarrow> bool option \<times> terminal) option"
  settings_keydown :: "(key \<Rightarrow> terminal \<Rightarrow> bool option \<times> terminal) option"
  completion_fun :: "nat \<Rightarrow> string \<Rightarrow> string list option"
  terminal_count :: nat
  focus_next :: "terminal meth"

abbreviation k_te :: "k_env \<Rightarrow> t_env" where
  "k_te env \<equiv> te (kx env)"

section \<open>The word before the cursor\<close>

text \<open>From the last piece to the left: a piece that ends with a backslash keeps the space behind it.\<close>

fun join_escaped :: "string list \<Rightarrow> string \<Rightarrow> string" where
  "join_escaped [] w = w"
| "join_escaped (p # ps) w =
     (if at p (int (length p) - 1) = Some bsl then join_escaped ps (p @ '' '' @ w) else w)"

definition word_before :: "string \<Rightarrow> string" where
  "word_before cmd_text =
     (let pieces = rev (split_char CHR '' '' cmd_text) in join_escaped (tl pieces) (hd pieces))"

definition before_cursor :: "terminal \<Rightarrow> string" where
  "before_cursor st = substring (command (command_line st)) 0 (position (command_line st))"

section \<open>complete_helper\<close>

text \<open>The regular expression \<open>^\<close> with the escaped word; \<open>escape_regex\<close> leaves literal characters only.\<close>

definition word_prefix_re :: "string \<Rightarrow> re" where
  "word_prefix_re w = Seq Bol (Lit (the (literal_text (escape_regex w))))"

definition matching :: "string \<Rightarrow> string list \<Rightarrow> string list" where
  "matching w cs = rev (filter (re_test (word_prefix_re w)) cs)"

definition rest_of :: "string \<Rightarrow> string \<Rightarrow> string" where
  "rest_of w s = replace_first (word_prefix_re w) (\<lambda>_. '''') s"

text \<open>The loop over \<open>j\<close>: the end of the common part of all matches, and whether it went on at all.\<close>

fun same_char :: "nat \<Rightarrow> string \<Rightarrow> string list \<Rightarrow> bool" where
  "same_char j m [] = True"
| "same_char j m (x # xs) = (at m (int j) = at x (int j) \<and> same_char j m xs)"

function common_end :: "nat \<Rightarrow> string \<Rightarrow> string list \<Rightarrow> bool \<Rightarrow> nat \<times> bool" where
  "common_end j m others found =
     (if j < length m \<and> same_char j m others then common_end (Suc j) m others True else (j, found))"
  by auto
termination by (relation "measure (\<lambda>(j, m, others, found). length m - j)") auto

declare common_end.simps [simp del]

definition built_in :: "t_env \<Rightarrow> string list" where
  "built_in env = (if clear_setting env then [''clear''] else []) @ (if exit_setting env then [''exit''] else [])"

definition insert_text :: "t_env \<Rightarrow> string \<Rightarrow> terminal \<Rightarrow> terminal" where
  "insert_text env s st = st\<lparr>command_line := cmd_insert (cmd_opts env) s False (command_line st)\<rparr>"

definition complete_matched :: "t_env \<Rightarrow> string \<Rightarrow> string \<Rightarrow> string list \<Rightarrow> keys \<Rightarrow> keys" where
  "complete_matched env cmd_text w matched s =
     (case matched of
        [] \<Rightarrow> s
      | [m] \<Rightarrow> s\<lparr>kterm := insert_text env (rest_of w m) (kterm s)\<rparr>
      | m # others \<Rightarrow>
          (if tab_count s \<ge> 2 then
             s\<lparr>kterm := echo (t_out env) (extended env) (LineVal (JStr (join_with [CHR 0x09] matched))) (default_opts (t_out env))
                          (echo_typed env cmd_text (kterm s)),
               tab_count := 0\<rparr>
           else
             (let (j, found) = common_end (length w) m others False
              in if found then s\<lparr>kterm := insert_text env (rest_of w (take j m)) (kterm s)\<rparr> else s)))"

text \<open>The second component is the array afterwards: the built-in commands are appended to it in place.\<close>

definition complete_helper :: "t_env \<Rightarrow> string \<Rightarrow> string \<Rightarrow> string list \<Rightarrow> keys \<Rightarrow> keys \<times> string list" where
  "complete_helper env cmd_text w cs s =
     (let cs = cs @ built_in env
      in if before_cursor (kterm s) \<noteq> cmd_text then (s, cs)
         else (complete_matched env cmd_text w (matching w cs) s, cs))"

section \<open>key\_down\<close>

type_synonym key_result = "(js_error + bool option) \<times> keys"

definition lift_method :: "js_error option \<times> terminal \<Rightarrow> bool option \<Rightarrow> keys \<Rightarrow> key_result" where
  "lift_method r b s = (case r of (None, st) \<Rightarrow> (Inr b, s\<lparr>kterm := st\<rparr>) | (Some e, st) \<Rightarrow> (Inl e, s\<lparr>kterm := st\<rparr>))"

text \<open>CTRL+D. \<open>settings.login\<close> is \<open>null\<close> by default, which is not \<open>undefined\<close>: the empty line always pops.\<close>

definition ctrl_d :: "k_env \<Rightarrow> keys \<Rightarrow> key_result" where
  "ctrl_d env s =
     (let st = kterm s
      in if in_login st then (Inr (Some False), s)
         else if command (command_line st) = '''' then
           lift_method (pop (k_te env) (init_pauses (kx env)) (resume (kx env) (depth env)) (Some '''') st) (Some False) s
         else (Inr (Some False), s\<lparr>kterm := st\<lparr>command_line := cmd_set (cmd_opts (k_te env)) (Some '''') False (command_line st)\<rparr>\<rparr>))"

text \<open>Which completion is used, and the state after it has been written to.\<close>

definition uses_settings :: "keys \<Rightarrow> bool" where
  "uses_settings s \<longleftrightarrow> settings_completion s \<notin> {CompFalsy, CompTrue} \<and> top_completion s = CompFalsy"

definition chosen :: "keys \<Rightarrow> completion" where
  "chosen s = (if uses_settings s then settings_completion s else top_completion s)"

definition write_array :: "bool \<Rightarrow> string list \<Rightarrow> keys \<Rightarrow> keys" where
  "write_array from_settings cs s =
     (if from_settings then s\<lparr>settings_completion := CompArray cs\<rparr> else s\<lparr>top_completion := CompArray cs\<rparr>)"

definition press_tab :: "k_env \<Rightarrow> bool \<Rightarrow> completion \<Rightarrow> keys \<Rightarrow> key_result" where
  "press_tab env from_settings compl s =
     (let s = s\<lparr>tab_count := tab_count s + 1\<rparr>;
          cmd_text = before_cursor (kterm s);
          w = word_before cmd_text
      in case compl of
           CompFun k \<Rightarrow>
             (case completion_fun env k w of
                None \<Rightarrow> (Inr (Some False), s)
              | Some cs \<Rightarrow> (Inr (Some False), fst (complete_helper (k_te env) cmd_text w cs s)))
         | CompArray cs \<Rightarrow>
             (let (s, cs) = complete_helper (k_te env) cmd_text w cs s in (Inr (Some False), write_array from_settings cs s))
         | _ \<Rightarrow> (Inl (Throw ''''), s))"

definition active_keys :: "k_env \<Rightarrow> key \<Rightarrow> bool \<Rightarrow> completion \<Rightarrow> keys \<Rightarrow> key_result" where
  "active_keys env e from_settings compl s =
     (let s = (if which e \<noteq> 9 then s\<lparr>tab_count := 0\<rparr> else s)
      in if which e = 68 \<and> ctrl e then ctrl_d env s
         else if which e = 76 \<and> ctrl e then lift_method (clear (k_te env) (kterm s)) None s
         else if compl \<noteq> CompFalsy \<and> which e = 9 then press_tab env from_settings compl s
         else if which e = 9 \<and> ctrl e then
           (if terminal_count env > 1 then lift_method (focus_next env (kterm s)) (Some False) s else (Inr None, s))
         else (Inr None, s))"

text \<open>
  CTRL+D on a paused terminal: the requests are aborted, the last first. The handler of an exception reads
  \<open>strings\<close>, which is a local variable of the function and still \<open>undefined\<close>.
\<close>

fun abort_all :: "request list \<Rightarrow> js_error option" where
  "abort_all [] = None"
| "abort_all (r # rs) = (if \<not> finished r \<and> abort_throws r then Some TypeError else abort_all rs)"

definition paused_keys :: "k_env \<Rightarrow> key \<Rightarrow> keys \<Rightarrow> key_result" where
  "paused_keys env e s =
     (if which e = 68 \<and> ctrl e then
        (if requests s = [] then (Inr (Some False), s)
         else
           (case abort_all (rev (requests s)) of
              Some err \<Rightarrow> (Inl err, s)
            | None \<Rightarrow> lift_method (resume (kx env) (depth env) (kterm s)) (Some False) (s\<lparr>requests := []\<rparr>)))
      else (Inr None, s))"

definition ask_handler :: "(key \<Rightarrow> terminal \<Rightarrow> bool option \<times> terminal) option \<Rightarrow> key \<Rightarrow> keys \<Rightarrow> bool option \<times> keys" where
  "ask_handler h e s =
     (case h of None \<Rightarrow> (None, s) | Some f \<Rightarrow> (let (b, st) = f e (kterm s) in (b, s\<lparr>kterm := st\<rparr>)))"

definition key_down :: "k_env \<Rightarrow> key \<Rightarrow> keys \<Rightarrow> key_result" where
  "key_down env e s =
     (if \<not> paused (kterm s) \<and> t_enabled (kterm s) then
        (case ask_handler (top_keydown env) e s of
           (Some b, s) \<Rightarrow> (Inr (Some b), s)
         | (None, s) \<Rightarrow>
             (let from_settings = uses_settings s; compl = chosen s
              in case ask_handler (settings_keydown env) e s of
                   (Some b, s) \<Rightarrow> (Inr (Some b), s)
                 | (None, s) \<Rightarrow> active_keys env e from_settings compl s))
      else paused_keys env e s)"


section \<open>The longest common prefix\<close>

lemma word_prefix_re_eq: "word_prefix_re w = Seq Bol (Lit w)"
  by (simp add: word_prefix_re_def literal_escape)

lemma re_test_prefix: "re_test (word_prefix_re w) s \<longleftrightarrow> prefix w s"
proof -
  have "re_test (word_prefix_re w) s \<longleftrightarrow> (\<exists>k\<le>length s. ms (word_prefix_re w) s (k, []) \<noteq> [])"
    unfolding re_test_def using search_None_iff [of "word_prefix_re w" s 0] by auto
  also have "\<dots> \<longleftrightarrow> take (length w) s = w"
    by (auto simp: word_prefix_re_eq ms_Lit split: if_splits)
  also have "\<dots> \<longleftrightarrow> prefix w s"
    by (metis append_eq_conv_conj prefix_def append_take_drop_id)
  finally show ?thesis .
qed

lemma rest_of_prefix: "rest_of w (w @ t) = t"
proof -
  have m: "ms (word_prefix_re w) (w @ t) (0, []) = [(length w, [])]"
    by (simp add: word_prefix_re_eq ms_Lit)
  then have "search (word_prefix_re w) (w @ t) 0 = Some (0, length w, [])"
    using search_here [of 0 "w @ t" "word_prefix_re w" "(length w, [])" "[]"] by simp
  then show ?thesis by (simp add: rest_of_def replace_first_def)
qed

lemma matching_prefix: "m \<in> set (matching w cs) \<longleftrightarrow> m \<in> set cs \<and> prefix w m"
  by (simp add: matching_def re_test_prefix)

lemma same_char_iff: "same_char j m others \<longleftrightarrow> (\<forall>x\<in>set others. at m (int j) = at x (int j))"
  by (induction j m others rule: same_char.induct) auto

text \<open>Where the loop stops: all agree before, and it cannot go on.\<close>

lemma common_end_stop:
  assumes "k \<le> length m" "common_end k m others found = (j, found')"
  shows "k \<le> j \<and> j \<le> length m \<and> (\<forall>i. k \<le> i \<and> i < j \<longrightarrow> same_char i m others) \<and> (j = length m \<or> \<not> same_char j m others) \<and>
    found' = (found \<or> k < j)"
  using assms
proof (induction k m others found rule: common_end.induct)
  case (1 k m others found)
  show ?case
  proof (cases "k < length m \<and> same_char k m others")
    case True
    then have "common_end (Suc k) m others True = (j, found')" using 1(3) common_end.simps [of k] by simp
    then have "Suc k \<le> j \<and> j \<le> length m \<and> (\<forall>i. Suc k \<le> i \<and> i < j \<longrightarrow> same_char i m others) \<and>
        (j = length m \<or> \<not> same_char j m others) \<and> found' = (True \<or> Suc k < j)"
      using 1(1) True by simp
    moreover from this have "\<forall>i. k \<le> i \<and> i < j \<longrightarrow> same_char i m others"
      using True by (metis Suc_leI le_neq_implies_less)
    ultimately show ?thesis by auto
  next
    case False
    then have "j = k" "found' = found" using 1(3) common_end.simps [of k] by auto
    then show ?thesis using False 1(2) by auto
  qed
qed

lemma prefix_take_iff: "prefix (take j m) x \<longleftrightarrow> (\<forall>i<j. i < length m \<longrightarrow> at m (int i) = at x (int i))"
proof
  assume "prefix (take j m) x"
  then obtain r where "x = take j m @ r" by (auto simp: prefix_def)
  then show "\<forall>i<j. i < length m \<longrightarrow> at m (int i) = at x (int i)" by (auto simp: at_def nth_append)
next
  assume a: "\<forall>i<j. i < length m \<longrightarrow> at m (int i) = at x (int i)"
  show "prefix (take j m) x"
  proof (rule prefixI [of _ _ "drop (length (take j m)) x"])
    have i: "i < length x \<and> x ! i = m ! i" if "i < j" "i < length m" for i
      using a that by (auto simp: at_def split: if_splits)
    have "length (take j m) \<le> length x"
    proof (cases "length (take j m)")
      case (Suc n)
      then show ?thesis using i [of n] by (auto simp: min_def split: if_splits)
    qed simp
    moreover have "take (length (take j m)) x = take j m"
      using i calculation by (intro nth_equalityI) auto
    ultimately show "x = take j m @ drop (length (take j m)) x" by (metis append_take_drop_id)
  qed
qed

lemma common_end_lcp:
  assumes "\<forall>x\<in>set (m # others). prefix w x" "common_end (length w) m others False = (j, found)"
  shows "take j m = Longest_common_prefix (set (m # others))" "found \<longleftrightarrow> length w < j" "prefix w (take j m)"
proof -
  have wm: "prefix w m" "length w \<le> length m" using assms(1) prefix_length_le by auto
  have st: "length w \<le> j" "j \<le> length m" "\<And>i. length w \<le> i \<Longrightarrow> i < j \<Longrightarrow> same_char i m others"
    "j = length m \<or> \<not> same_char j m others" "found \<longleftrightarrow> length w < j"
    using common_end_stop [OF wm(2) assms(2)] by auto
  have below: "at m (int i) = at x (int i)" if "i < length w" "x \<in> set others" for i x
  proof -
    have "prefix w x" using assms(1) that(2) by simp
    then show ?thesis using that(1) wm(1) by (auto simp: prefix_def at_def nth_append)
  qed
  have agree: "prefix (take j m) x" if "x \<in> set others" for x
    unfolding prefix_take_iff using below st(3) that by (metis not_le_imp_less same_char_iff)
  show "take j m = Longest_common_prefix (set (m # others))"
  proof (rule Longest_common_prefix_eq [symmetric])
    show "set (m # others) \<noteq> {}" by simp
    show "\<forall>xs\<in>set (m # others). prefix (take j m) xs" using agree by (auto simp: take_is_prefix)
    show "\<forall>qs. (\<forall>xs\<in>set (m # others). prefix qs xs) \<longrightarrow> length qs \<le> length (take j m)"
    proof (intro allI impI, rule ccontr)
      fix qs assume q: "\<forall>xs\<in>set (m # others). prefix qs xs" and "\<not> length qs \<le> length (take j m)"
      then have l: "j < length qs" using st(2) by simp
      have "prefix qs m" using q by simp
      then have "j < length m" using l prefix_length_le by fastforce
      moreover have "at m (int j) = at x (int j)" if "x \<in> set others" for x
        using q l that by (auto simp: prefix_def at_def nth_append)
      ultimately show False using st(4) same_char_iff by blast
    qed
  qed
  show "found \<longleftrightarrow> length w < j" by (rule st(5))
  show "prefix w (take j m)" using wm(1) st(1) by (metis prefix_def take_is_prefix append_eq_conv_conj min.absorb1 take_take)
qed


section \<open>TAB\<close>

lemma join_last_two: "join_with sep (xs @ [p, w]) = join_with sep (xs @ [p @ sep @ w])"
  by (induction sep xs rule: join_with.induct) (auto simp: neq_Nil_conv)

lemma join_escaped_suffix: "\<exists>p. join_with '' '' (rev ps @ [w]) = p @ join_escaped ps w"
proof (induction ps w rule: join_escaped.induct)
  case (1 w)
  then show ?case by simp
next
  case (2 p ps w)
  show ?case
  proof (cases "at p (int (length p) - 1) = Some bsl")
    case True
    then show ?thesis using 2 join_last_two [of "'' ''" "rev ps" p w] by auto
  next
    case False
    have "\<exists>q. join_with '' '' (xs @ [w]) = q @ w" for xs
      by (induction "'' ''" xs rule: join_with.induct) (auto simp: neq_Nil_conv)
    from this [of "rev ps @ [p]"] show ?thesis using False by simp
  qed
qed

lemma word_before_suffix: "\<exists>p. s = p @ word_before s"
proof -
  let ?ps = "rev (split_char CHR '' '' s)"
  have "?ps \<noteq> []" by simp
  then have "rev (tl ?ps) @ [hd ?ps] = split_char CHR '' '' s"
    by (metis list.collapse rev.simps(2) rev_rev_ident)
  then show ?thesis
    using join_escaped_suffix [of "tl ?ps" "hd ?ps"] join_split_char [of "CHR '' ''" s] by (simp add: word_before_def Let_def)
qed

lemma before_cursor_ok: "cursor_ok (command_line st) \<Longrightarrow>
  before_cursor st = take (nat (position (command_line st))) (command (command_line st))"
  by (simp add: before_cursor_def cursor_ok_def substring_prefix)

lemma insert_text_cursor:
  assumes "cursor_ok (command_line st)"
  shows "before_cursor (insert_text env t st) = before_cursor st @ t"
    "substring_from (command (command_line (insert_text env t st))) (position (command_line (insert_text env t st))) =
     substring_from (command (command_line st)) (position (command_line st))"
proof -
  let ?c = "command_line st"
  let ?c' = "cmd_insert (cmd_opts env) t False ?c"
  have t: "command ?c' = take (nat (position ?c)) (command ?c) @ t @ drop (nat (position ?c)) (command ?c)"
    "position ?c' = position ?c + int (length t)" "cursor_ok ?c'"
    using cmd_insert_text [OF assms] by simp_all
  have p: "nat (position ?c') = nat (position ?c) + length t" "nat (position ?c) \<le> length (command ?c)"
    using assms t(2) by (auto simp: cursor_ok_def)
  show "before_cursor (insert_text env t st) = before_cursor st @ t"
    using before_cursor_ok [of "insert_text env t st"] before_cursor_ok [OF assms] t p by (simp add: insert_text_def)
  show "substring_from (command (command_line (insert_text env t st))) (position (command_line (insert_text env t st))) =
     substring_from (command ?c) (position ?c)"
    using t p assms by (simp add: insert_text_def substring_from_def cursor_ok_def clamp_in)
qed

text \<open>The first TAB, on an array of completions.\<close>

lemma tab_inserts:
  assumes "cursor_ok (command_line (kterm s))" "tab_count s = 0" "before_cursor (kterm s) = p @ w"
    and "matching w cs \<noteq> []"
  shows "before_cursor (kterm (complete_matched env c w (matching w cs) (s\<lparr>tab_count := 1\<rparr>))) =
      p @ Longest_common_prefix (set (matching w cs))"
    "substring_from (command (command_line (kterm (complete_matched env c w (matching w cs) (s\<lparr>tab_count := 1\<rparr>)))))
       (position (command_line (kterm (complete_matched env c w (matching w cs) (s\<lparr>tab_count := 1\<rparr>))))) =
     substring_from (command (command_line (kterm s))) (position (command_line (kterm s)))"
proof -
  obtain m others where m: "matching w cs = m # others" using assms(4) by (cases "matching w cs") auto
  have pre: "\<forall>x\<in>set (m # others). prefix w x" using matching_prefix [of _ w cs] m by auto
  obtain j found where j: "common_end (length w) m others False = (j, found)" by fastforce
  note lcp = common_end_lcp [OF pre j]
  obtain t where t: "take j m = w @ t" using lcp(3) by (auto simp: prefix_def)
  have single: "take j m = m" if "others = []"
  proof -
    have "Longest_common_prefix {m} = m" by (rule Longest_common_prefix_eq) (auto simp: prefix_length_le)
    then show ?thesis using lcp(1) that by simp
  qed
  have e: "t = []" if "\<not> found"
    proof -
    have "length (take j m) \<le> length w" using that lcp(2) by simp
    then have "length (w @ t) \<le> length w" by (simp only: t)
    then show ?thesis by simp
  qed
  have "kterm (complete_matched env c w (matching w cs) (s\<lparr>tab_count := 1\<rparr>)) = (if others = [] \<or> found then insert_text env t (kterm s) else kterm s)"
    using single t j by (auto simp: m complete_matched_def rest_of_prefix split: list.split)
  then show "before_cursor (kterm (complete_matched env c w (matching w cs) (s\<lparr>tab_count := 1\<rparr>))) =
      p @ Longest_common_prefix (set (matching w cs))"
    "substring_from (command (command_line (kterm (complete_matched env c w (matching w cs) (s\<lparr>tab_count := 1\<rparr>)))))
       (position (command_line (kterm (complete_matched env c w (matching w cs) (s\<lparr>tab_count := 1\<rparr>))))) =
     substring_from (command (command_line (kterm s))) (position (command_line (kterm s)))"
    using insert_text_cursor [OF assms(1), of env t] assms(3) lcp(1) t e m by auto
qed


text \<open>
  C9: the first TAB completes the word before the cursor to the longest common prefix of the completions that begin
  with it, the built-in commands among them; the text after the cursor stays. When nothing begins with the word,
  nothing changes. The completion array itself grows by the built-in commands.
\<close>

theorem tab_completes:
  assumes "\<not> paused (kterm s)" "t_enabled (kterm s)" "top_keydown env = None" "settings_keydown env = None"
    and "chosen s = CompArray cs" "tab_count s = 0" "cursor_ok (command_line (kterm s))"
  shows "\<exists>s' p. key_down env (plain_key 9) s = (Inr (Some False), s') \<and>
    before_cursor (kterm s) = p @ word_before (before_cursor (kterm s)) \<and>
    (let w = word_before (before_cursor (kterm s)); found = {c \<in> set cs \<union> set (built_in (k_te env)). prefix w c}
     in before_cursor (kterm s') = p @ (if found = {} then w else Longest_common_prefix found)) \<and>
    substring_from (command (command_line (kterm s'))) (position (command_line (kterm s'))) =
      substring_from (command (command_line (kterm s))) (position (command_line (kterm s))) \<and>
    chosen s' = CompArray (cs @ built_in (k_te env))"
proof -
  let ?c = "before_cursor (kterm s)"
  let ?w = "word_before ?c"
  let ?all = "cs @ built_in (k_te env)"
  let ?s1 = "complete_matched (k_te env) ?c ?w (matching ?w ?all) (s\<lparr>tab_count := 1\<rparr>)"
  let ?s' = "write_array (uses_settings s) ?all ?s1"
  obtain p where p: "?c = p @ ?w" using word_before_suffix by blast
  have found: "{c \<in> set cs \<union> set (built_in (k_te env)). prefix ?w c} = set (matching ?w ?all)"
    using matching_prefix [of _ ?w ?all] by auto
  have k: "key_down env (plain_key 9) s = (Inr (Some False), ?s')"
    using assms(1-6)
    by (simp add: key_down_def ask_handler_def Let_def active_keys_def plain_key_def press_tab_def complete_helper_def before_cursor_def)
  have c: "settings_completion ?s1 = settings_completion s" "top_completion ?s1 = top_completion s"
    by (auto simp: complete_matched_def Let_def split: list.split prod.split)
  have ch: "chosen ?s' = CompArray ?all"
    using assms(5) c by (auto simp: chosen_def uses_settings_def write_array_def split: if_splits)
  have w: "kterm ?s' = kterm ?s1" by (simp add: write_array_def)
  have "before_cursor (kterm ?s') = p @ (if set (matching ?w ?all) = {} then ?w else Longest_common_prefix (set (matching ?w ?all))) \<and>
      substring_from (command (command_line (kterm ?s'))) (position (command_line (kterm ?s'))) =
      substring_from (command (command_line (kterm s))) (position (command_line (kterm s)))"
  proof (cases "matching ?w ?all = []")
    case True
    then have "kterm ?s' = kterm s" unfolding w by (simp add: complete_matched_def)
    then show ?thesis using p True by simp
  next
    case False
    with tab_inserts [OF assms(7,6) p False, of "k_te env" ?c] show ?thesis unfolding w by simp
  qed
  then show ?thesis
    using k p ch unfolding found [symmetric] Let_def by blast
qed

definition tab_env :: k_env where
  "tab_env = \<lparr>kx = small_x, depth = 1, top_keydown = None, settings_keydown = None, completion_fun = (\<lambda>_ _. None),
     terminal_count = 1, focus_next = (\<lambda>st. (None, st))\<rparr>"

definition tab_state :: keys where
  "tab_state = \<lparr>kterm = small_terminal\<lparr>command_line := cmd_insert plain_options ''cl'' False small_cmd\<rparr>, tab_count = 0,
     settings_completion = CompFalsy, top_completion = CompArray [''clone''], requests = []\<rparr>"

theorem tab_completes_witness:
  "chosen (snd (key_down tab_env (plain_key 9) tab_state)) = CompArray [''clone'', ''clear'', ''exit'']"
proof -
  have "cursor_ok (command_line (kterm tab_state))" unfolding cursor_ok_def by (code_simp)
  moreover have "\<not> paused (kterm tab_state)" "t_enabled (kterm tab_state)" "chosen tab_state = CompArray [''clone'']" "tab_count tab_state = 0"
    by (simp_all add: tab_state_def small_terminal_def chosen_def uses_settings_def)
  moreover have "top_keydown tab_env = None" "settings_keydown tab_env = None" "built_in (k_te tab_env) = [''clear'', ''exit'']"
    by (simp_all add: tab_env_def built_in_def small_x_def small_env_def)
  ultimately show ?thesis
    using tab_completes [of tab_state tab_env "[''clone'']"] by auto
qed

text \<open>
  CTRL+D on an empty line of a terminal without a login and with nothing pushed is meant to print an empty
  line. The test for a login compares with \<open>undefined\<close>, which the default \<open>null\<close> is not, so the terminal pops its
  main interpreter and shows the error about that.
\<close>

theorem ctrl_d_reports:
  assumes "\<not> in_login (kterm s)" "command (command_line (kterm s)) = ''''" "login_setting (k_te env) = None"
    and "stack_list (kterm s) = [i]" "keeps (k_te env) interpreters"
  shows "ctrl_d env s =
    (Inr (Some False), s\<lparr>kterm := t_error (k_te env) ''You can't exit from main interpreter'' (echo_typed (k_te env) '''' (kterm s))\<rparr>)"
proof -
  have "interpreters (echo_typed (k_te env) '''' (kterm s)) = interpreters (kterm s)"
    using printing_keeps(3) [OF assms(5)] .
  then have "stack_size (interpreters (echo_typed (k_te env) '''' (kterm s))) = 1"
    using assms(4) by (simp add: stack_size_list stack_list_def)
  then show ?thesis
    using assms(1-3) by (simp add: ctrl_d_def Let_def lift_method_def pop_def guarded_def)
qed

theorem ctrl_d_reports_witness:
  "ctrl_d tab_env (tab_state\<lparr>kterm := small_terminal\<rparr>) =
    (Inr (Some False), tab_state\<lparr>kterm := t_error small_env ''You can't exit from main interpreter'' (echo_typed small_env '''' small_terminal)\<rparr>)"
proof -
  have "keeps (k_te tab_env) interpreters"
    unfolding keeps_def using more_sel by (auto simp: tab_env_def small_x_def small_env_def)
  moreover have "command (command_line small_terminal) = ''''" by code_simp
  ultimately show ?thesis
    using ctrl_d_reports [of "tab_state\<lparr>kterm := small_terminal\<rparr>" tab_env base_intrp]
    by (simp add: tab_env_def small_x_def small_env_def small_terminal_def stack_list_def tab_state_def)
qed

text \<open>
  On a paused terminal CTRL+D aborts the requests and resumes. When one of them cannot be aborted, the handler
  of that exception throws a TypeError itself: the requests stay, and the terminal is not resumed.
\<close>

theorem abort_failure_stays_paused:
  assumes "paused (kterm s)" "r \<in> set (requests s)" "\<not> finished r" "abort_throws r"
  shows "key_down env (ctrl_key 68) s = (Inl TypeError, s)"
proof -
  have "r \<in> set rs \<Longrightarrow> abort_all rs = Some TypeError" for rs
    using assms(3,4) by (induction rs) auto
  then have "abort_all (rev (requests s)) = Some TypeError" using assms(2) by simp
  then show ?thesis using assms(1,2) by (auto simp: key_down_def paused_keys_def ctrl_key_def plain_key_def)
qed

theorem abort_failure_stays_paused_witness:
  "let s = tab_state\<lparr>kterm := small_terminal\<lparr>paused := True\<rparr>, requests := [\<lparr>finished = False, abort_throws = True\<rparr>]\<rparr>
   in key_down tab_env (ctrl_key 68) s = (Inl TypeError, s)"
  unfolding Let_def by (rule abort_failure_stays_paused [where r = "\<lparr>finished = False, abort_throws = True\<rparr>"]) simp_all

end
