(* ===== verification/Terminals.thy ===== *)
theory Terminals
  imports Term_Exec
begin

text \<open>
  The terminals of one page. They share the variable \<open>terminals\<close>, a \<open>Cycle\<close> with the one in front; \<open>focus\<close>,
  \<open>next\<close>, \<open>freeze\<close>, \<open>enable\<close> and \<open>disable\<close> and the handlers of the page pass the keyboard from one to another. A
  terminal is known by the number of its creation, as an object by its address; its state is that of \<open>Term_Core\<close>
  with what its closure holds beside it.
\<close>

section \<open>State\<close>

record widget =
  w_term :: terminal
  w_id :: nat            \<comment> \<open>\<open>terminal_id\<close>\<close>
  made :: bool           \<comment> \<open>\<open>command_line\<close> is there\<close>
  sized :: bool          \<comment> \<open>\<open>num_chars\<close> is there\<close>
  resize_waits :: bool   \<comment> \<open>the timer \<open>resize\<close> runs\<close>
  old_enabled :: bool

record site =
  terminals :: "nat cycle"
  widgets :: "nat \<Rightarrow> widget"
  created :: nat
  document_bound :: "nat list"   \<comment> \<open>terminals with a handler for clicks on the document\<close>
  window_bound :: "nat list"     \<comment> \<open>terminals with handlers for the focus of the window\<close>

text \<open>
  The page at one moment and the hooks of its author. A hook gets the terminal; \<^term>\<open>Inr False\<close> says that it
  returned \<open>false\<close>.
\<close>

record site_env =
  t_of :: "nat \<Rightarrow> t_env"
  touch :: bool
  visible :: "nat \<Rightarrow> bool"
  in_view :: "nat \<Rightarrow> bool"
  measured :: "nat \<Rightarrow> int \<times> int"
  on_resize :: "nat \<Rightarrow> nat option"
  on_focus :: "nat \<Rightarrow> site \<Rightarrow> (js_error + bool) \<times> site"
  on_blur :: "nat \<Rightarrow> site \<Rightarrow> (js_error + bool) \<times> site"
  on_change :: "nat \<Rightarrow> site \<Rightarrow> (js_error + bool) \<times> site"

definition term_at :: "site \<Rightarrow> nat \<Rightarrow> terminal" where
  "term_at p t = w_term (widgets p t)"

definition upd_widget :: "nat \<Rightarrow> (widget \<Rightarrow> widget) \<Rightarrow> site \<Rightarrow> site" where
  "upd_widget t f p = p\<lparr>widgets := (widgets p)(t := f (widgets p t))\<rparr>"

definition put_term :: "nat \<Rightarrow> terminal \<Rightarrow> site \<Rightarrow> site" where
  "put_term t st = upd_widget t (\<lambda>w. w\<lparr>w_term := st\<rparr>)"

definition on_term :: "nat \<Rightarrow> terminal meth \<Rightarrow> site meth" where
  "on_term t m p = (let (e, st) = m (term_at p t) in (e, put_term t st p))"

text \<open>An exception is shown on the terminal and thrown again, by the wrapper around every method with the label \<open>TERMINAL\<close>.\<close>

definition labelled :: "site_env \<Rightarrow> nat \<Rightarrow> string \<Rightarrow> site meth \<Rightarrow> site meth" where
  "labelled env t label m p =
     (case m p of
        (None, p) \<Rightarrow> (None, p)
      | (Some e, p) \<Rightarrow> (Some e, put_term t (display_exception (t_of env t) e label (term_at p t)) p))"

text \<open>A hook, and what follows unless it returned \<open>false\<close>.\<close>

definition ask_hook :: "(site \<Rightarrow> (js_error + bool) \<times> site) \<Rightarrow> site meth \<Rightarrow> site meth" where
  "ask_hook h m p = (case h p of (Inl e, p) \<Rightarrow> (Some e, p) | (Inr b, p) \<Rightarrow> (if b then m p else (None, p)))"

definition call_hook :: "(site \<Rightarrow> (js_error + bool) \<times> site) \<Rightarrow> site meth" where
  "call_hook h p = (case h p of (Inl e, p) \<Rightarrow> (Some e, p) | (Inr b, p) \<Rightarrow> (None, p))"


section \<open>Methods\<close>

text \<open>\<open>resize()\<close>. Without a command line the redraw stops in the middle, with an alert.\<close>

definition half_redraw :: "t_env \<Rightarrow> terminal \<Rightarrow> terminal" where
  "half_redraw e st =
     (let oe = t_out e;
          st = fold (\<lambda>(l, opts). process_line oe (extended e) (skip_call oe) l opts) (lines_to_show oe st) (st\<lparr>page_rows := [], buffer := []\<rparr>)
      in st\<lparr>alerts := alerts st @ [TypeError]\<rparr>)"

definition term_resize :: "site_env \<Rightarrow> nat \<Rightarrow> site meth" where
  "term_resize env t = labelled env t ''TERMINAL'' (\<lambda>p.
     (if \<not> visible env t then (None, upd_widget t (\<lambda>w. w\<lparr>resize_waits := True\<rparr>) p)
      else
        (let (c, r) = measured env t; w = widgets p t; st = w_term w; e = t_of env t
         in if \<not> sized w \<or> c \<noteq> cols st \<or> r \<noteq> rows st then
              (let st = st\<lparr>cols := c, rows := r\<rparr>;
                   st = (if made w then redraw_lines (t_out e) (extended e) st else half_redraw e st)
               in on_term t (run_raw e (on_resize env t)) (upd_widget t (\<lambda>w. w\<lparr>w_term := st, sized := True\<rparr>) p))
            else (None, p))))"

text \<open>\<open>lit\<close> is the inner part of \<open>enable\<close>, for a terminal that is neither enabled nor frozen.\<close>

definition lit :: "nat \<Rightarrow> site \<Rightarrow> site" where
  "lit t p = (if made (widgets p t) then put_term t (enable (term_at p t)) p else p)"

definition term_enable :: "site_env \<Rightarrow> nat \<Rightarrow> site meth" where
  "term_enable env t = labelled env t ''TERMINAL'' (\<lambda>p.
     (if \<not> t_enabled (term_at p t) \<and> \<not> frozen (term_at p t) then
        and_then (if sized (widgets p t) then (None, p) else term_resize env t p) (\<lambda>p. (None, lit t p))
      else (None, p)))"

definition term_disable :: "nat \<Rightarrow> site \<Rightarrow> site" where
  "term_disable t p = (if made (widgets p t) then put_term t (disable (term_at p t)) p else p)"

definition freeze :: "site_env \<Rightarrow> bool \<Rightarrow> nat \<Rightarrow> site meth" where
  "freeze env b t = labelled env t ''TERMINAL'' (\<lambda>p.
     (if b then
        (let p = term_disable t p in (None, put_term t ((term_at p t)\<lparr>frozen := True\<rparr>) p))
      else term_enable env t (put_term t ((term_at p t)\<lparr>frozen := False\<rparr>) p)))"

text \<open>\<open>next\<close>; the animation of the page is left out, and so is the terminal that it returns.\<close>

definition next_terminal :: "site_env \<Rightarrow> nat \<Rightarrow> site meth" where
  "next_terminal env t = labelled env t ''TERMINAL'' (\<lambda>p.
     (if cycle_length (terminals p) = 1 then (None, p)
      else if \<not> in_view env t then term_enable env t p
      else
        (case cycle_front (terminals p) of
           None \<Rightarrow> (Some TypeError, p)
         | Some f \<Rightarrow>
             (let p = term_disable f p;
                  (x, c) = cycle_rotate (terminals p);
                  p = p\<lparr>terminals := c\<rparr>
              in case x of
                   None \<Rightarrow> (Some TypeError, p)
                 | Some x \<Rightarrow> and_then (term_enable env x p) (labelled env t ''onTerminalChange'' (call_hook (on_change env x)))))))"

text \<open>\<open>focus\<close>; \<open>off\<close> says that the first argument is \<open>false\<close>. The timer it starts does nothing.\<close>

definition focus :: "site_env \<Rightarrow> bool \<Rightarrow> bool \<Rightarrow> nat \<Rightarrow> site meth" where
  "focus env off silent t = labelled env t ''TERMINAL'' (\<lambda>p.
     (if cycle_length (terminals p) = 1 then
        (if off then
           labelled env t ''onBlur'' (\<lambda>p.
             if silent then (None, term_disable t p) else ask_hook (on_blur env t) (\<lambda>p. (None, term_disable t p)) p) p
         else
           labelled env t ''onFocus'' (\<lambda>p.
             if silent then term_enable env t p else ask_hook (on_focus env t) (term_enable env t) p) p)
      else if off then next_terminal env t p
      else
        (let enter_it = (\<lambda>p. term_enable env t (p\<lparr>terminals := cycle_set t (terminals p)\<rparr>))
         in case cycle_front (terminals p) of
              None \<Rightarrow> (Some TypeError, p)
            | Some f \<Rightarrow>
                (if f \<noteq> t then
                   (let p = term_disable f p
                    in if silent then enter_it p
                       else and_then (labelled env t ''onTerminalChange'' (call_hook (on_change env t)) p) enter_it)
                 else enter_it p))))"

text \<open>\<open>destroy\<close>, as far as the other terminals see it: it unbinds the handlers in the name space of all terminals.\<close>

definition destroy :: "nat \<Rightarrow> site \<Rightarrow> site" where
  "destroy t p = p\<lparr>document_bound := [], terminals := cycle_remove (int (w_id (widgets p t))) (terminals p)\<rparr>"


section \<open>Making a terminal and the handlers\<close>

text \<open>The plugin up to \<open>make_interpreter\<close>, which may have to ask a server first, and the callback given to it.\<close>

definition new_terminal :: "terminal \<Rightarrow> site \<Rightarrow> site" where
  "new_terminal st p =
     p\<lparr>widgets := (widgets p)(created p := \<lparr>w_term = st, w_id = cycle_length (terminals p), made = False, sized = False,
         resize_waits = False, old_enabled = False\<rparr>),
       terminals := cycle_append (created p) (terminals p), created := created p + 1\<rparr>"

definition start_terminal :: "site_env \<Rightarrow> nat \<Rightarrow> site meth" where
  "start_terminal env t p =
     (let st = term_at p t;
          c = (command_line st)\<lparr>enabled := t_enabled st \<and> \<not> touch env\<rparr>;
          p = upd_widget t (\<lambda>w. w\<lparr>w_term := st\<lparr>command_line := c\<rparr>, made := True\<rparr>) p
      in and_then
           (if t_enabled st \<and> visible env t \<and> \<not> touch env then focus env False True t p else (None, term_disable t p)) (\<lambda>p.
         (let p = (if touch env then p else p\<lparr>window_bound := window_bound p @ [t]\<rparr>)
          in (None, if visible env t then
                      (let (c, r) = measured env t
                       in upd_widget t (\<lambda>w. w\<lparr>w_term := (w_term w)\<lparr>cols := c, rows := r\<rparr>, sized := True\<rparr>) p)
                    else p))))"

definition bind_document :: "nat \<Rightarrow> site \<Rightarrow> site" where
  "bind_document t p = p\<lparr>document_bound := document_bound p @ [t]\<rparr>"

text \<open>An event runs the handlers in the order in which they were bound; an exception ends it.\<close>

fun run_bound :: "(nat \<Rightarrow> site meth) \<Rightarrow> nat list \<Rightarrow> site meth" where
  "run_bound h [] p = (None, p)"
| "run_bound h (t # ts) p = and_then (h t p) (run_bound h ts)"

definition click :: "site_env \<Rightarrow> nat \<Rightarrow> site meth" where
  "click env t p =
     (if \<not> t_enabled (term_at p t) then focus env False False t p
      else if touch env then focus env False True t p else (None, p))"

definition click_outside :: "site_env \<Rightarrow> site meth" where
  "click_outside env p = run_bound (\<lambda>t p.
     (if t_enabled (term_at p t) then ask_hook (on_blur env t) (\<lambda>p. (None, term_disable t p)) p else (None, p))) (document_bound p) p"

definition window_blur :: "site meth" where
  "window_blur p = run_bound (\<lambda>t p.
     (None, term_disable t (upd_widget t (\<lambda>w. w\<lparr>old_enabled := t_enabled (w_term w)\<rparr>) p))) (window_bound p) p"

definition window_focus :: "site_env \<Rightarrow> site meth" where
  "window_focus env p = run_bound (\<lambda>t p.
     (if old_enabled (widgets p t) then focus env False False t p else (None, p))) (window_bound p) p"

text \<open>On a touch device the text area that has the keyboard loses it.\<close>

definition textarea_blur :: "site_env \<Rightarrow> nat \<Rightarrow> site meth" where
  "textarea_blur env t p = (if t_enabled (term_at p t) then focus env True False t p else (None, p))"

text \<open>CTRL+TAB in \<open>key_down\<close>, which the command line that is enabled calls.\<close>

definition ctrl_tab :: "site_env \<Rightarrow> nat \<Rightarrow> site meth" where
  "ctrl_tab env t p = (if cycle_length (terminals p) > 1 then focus env True False t p else (None, p))"

section \<open>What decides who has the keyboard\<close>

definition flags :: "terminal \<Rightarrow> bool \<times> bool \<times> bool" where
  "flags st = (t_enabled st, frozen st, enabled (command_line st))"

text \<open>Pages that differ in nothing but what is shown.\<close>

definition same :: "site \<Rightarrow> site \<Rightarrow> bool" where
  "same p q \<longleftrightarrow> terminals p = terminals q \<and> created p = created q \<and>
     document_bound p = document_bound q \<and> window_bound p = window_bound q \<and>
     (\<forall>t. made (widgets p t) = made (widgets q t) \<and> flags (term_at p t) = flags (term_at q t))"

lemma same_refl [simp]: "same p p"
  by (simp add: same_def)

lemma same_trans: "same p q \<Longrightarrow> same q r \<Longrightarrow> same p r"
  by (simp add: same_def)

lemma term_at_simps [simp]:
  "term_at (upd_widget t f p) u = (if u = t then w_term (f (widgets p t)) else term_at p u)"
  "term_at (put_term t st p) u = (if u = t then st else term_at p u)"
  "term_at (p\<lparr>terminals := c\<rparr>) u = term_at p u"
  by (simp_all add: term_at_def upd_widget_def put_term_def)

lemma site_simps [simp]:
  "widgets (upd_widget t f p) u = (if u = t then f (widgets p t) else widgets p u)"
  "terminals (upd_widget t f p) = terminals p" "created (upd_widget t f p) = created p"
  "document_bound (upd_widget t f p) = document_bound p" "window_bound (upd_widget t f p) = window_bound p"
  "made (widgets (put_term t st p) u) = made (widgets p u)" "sized (widgets (put_term t st p) u) = sized (widgets p u)"
  "terminals (put_term t st p) = terminals p" "created (put_term t st p) = created p"
  "document_bound (put_term t st p) = document_bound p" "window_bound (put_term t st p) = window_bound p"
  by (simp_all add: upd_widget_def put_term_def)

lemma snd_and_then: "snd (and_then r f) = (if fst r = None then snd (f (snd r)) else snd r)"
  by (cases r) (auto simp: and_then_def split: option.split)

text \<open>
  The author's part: extended commands leave these flags alone, and the hooks leave the terminals alone. They may
  throw and return what they like.
\<close>

definition tame :: "site_env \<Rightarrow> bool" where
  "tame env \<longleftrightarrow> (\<forall>t. keeps (t_of env t) flags) \<and>
     (\<forall>t p. snd (on_focus env t p) = p \<and> snd (on_blur env t p) = p \<and> snd (on_change env t p) = p)"

lemma labelled_same:
  assumes "tame env" shows "same (snd (labelled env t label m p)) (snd (m p))"
  using assms printing_keeps(2) [of "t_of env t" flags]
  by (auto simp: labelled_def same_def tame_def split: prod.split option.split)

lemma call_hook_snd: "snd (call_hook h p) = snd (h p)"
  by (simp add: call_hook_def split: prod.split sum.split)

lemma redraw_lines_keeps:
  assumes "keeps env f" shows "f (redraw_lines oe (extended env) st) = f st"
proof -
  have "f (fold (\<lambda>(l, opts). process_line oe (extended env) (skip_call oe) l opts) ls st) = f st" for ls st
    by (induction ls arbitrary: st) (auto simp: process_line_keeps [OF assms])
  moreover have "f (flush oe st) = f st" "f (st\<lparr>page_rows := [], buffer := []\<rparr>) = f st" for st
    by (rule keeps_more [OF assms], simp)+
  ultimately show ?thesis by (simp add: redraw_lines_def)
qed

lemma half_redraw_keeps:
  assumes "keeps env f" shows "f (half_redraw env st) = f st"
proof -
  have "f (fold (\<lambda>(l, opts). process_line oe (extended env) (skip_call oe) l opts) ls st) = f st" for oe ls st
    by (induction ls arbitrary: st) (auto simp: process_line_keeps [OF assms])
  moreover have "f (st\<lparr>alerts := a\<rparr>) = f st" "f (st\<lparr>page_rows := [], buffer := []\<rparr>) = f st" for st a
    by (rule keeps_more [OF assms], simp)+
  ultimately show ?thesis by (simp add: half_redraw_def Let_def)
qed

lemma run_raw_keeps: "keeps env f \<Longrightarrow> f (snd (run_raw env h st)) = f st"
  by (auto simp: run_raw_def Let_def with_out_keeps split: option.split prod.split)

lemma on_term_same: "(\<And>st. flags (snd (m st)) = flags st) \<Longrightarrow> same (snd (on_term t m p)) p"
  by (simp add: same_def on_term_def Let_def split_beta)

lemma upd_widget_same:
  "made (f (widgets p t)) = made (widgets p t) \<Longrightarrow> flags (w_term (f (widgets p t))) = flags (term_at p t) \<Longrightarrow> same (upd_widget t f p) p"
  by (simp add: same_def)

lemma term_resize_same:
  assumes "tame env" shows "same (snd (term_resize env t p)) p"
proof -
  have k: "keeps (t_of env t) flags" using assms by (simp add: tame_def)
  have sized: "flags (st\<lparr>cols := c, rows := r\<rparr>) = flags st" for st c r by (simp add: flags_def)
  show ?thesis
    unfolding term_resize_def
    by (rule same_trans [OF labelled_same [OF assms]])
       (auto simp: Let_def sized redraw_lines_keeps [OF k] half_redraw_keeps [OF k] run_raw_keeps [OF k] term_at_def
          intro!: same_trans [OF on_term_same upd_widget_same] upd_widget_same split: prod.split)
qed

lemma flags_enable:
  "flags (enable st) = (if t_enabled st \<or> frozen st then flags st else (True, False, True))"
  "flags (disable st) = (if \<not> t_enabled st \<or> frozen st then flags st else (False, False, False))"
  by (auto simp: flags_def enable_def disable_def cmd_enable_def cmd_disable_def)

lemma lit_same: "same p q \<Longrightarrow> same (lit t p) (lit t q)"
  by (auto simp: same_def lit_def flags_enable) (auto simp: flags_def)

lemma term_enable_same:
  assumes "tame env"
  shows "same (snd (term_enable env t p)) p \<or> same (snd (term_enable env t p)) (lit t p)"
proof (cases "\<not> t_enabled (term_at p t) \<and> \<not> frozen (term_at p t)")
  case False
  then have "same (snd (term_enable env t p)) p"
    unfolding term_enable_def by (intro same_trans [OF labelled_same [OF assms]]) auto
  then show ?thesis ..
next
  case True
  let ?r = "if sized (widgets p t) then (None, p) else term_resize env t p"
  have r: "same (snd ?r) p" using term_resize_same [OF assms] by simp
  have "same (snd (term_enable env t p)) (snd (and_then ?r (\<lambda>p. (None, lit t p))))"
    unfolding term_enable_def by (rule same_trans [OF labelled_same [OF assms]]) (simp add: True)
  then show ?thesis using r lit_same [OF r, of t] by (cases "fst ?r") (auto simp: snd_and_then intro: same_trans)
qed

section \<open>The invariant\<close>

definition site_base :: "site \<Rightarrow> bool" where
  "site_base p \<longleftrightarrow> cycle_ok (terminals p) \<and> distinct (cycle_data (terminals p)) \<and> set (cycle_data (terminals p)) = {..<created p} \<and>
     (created p = 0 \<longrightarrow> cycle_pos (terminals p) = 0) \<and>
     set (window_bound p) \<subseteq> {..<created p} \<and> set (document_bound p) \<subseteq> {..<created p}"

text \<open>
  A terminal whose command line is there: the command line is enabled when the terminal is, a frozen one is not, and
  only the one in front is.
\<close>

definition kept :: "site \<Rightarrow> nat \<Rightarrow> bool" where
  "kept p t \<longleftrightarrow> (made (widgets p t) \<longrightarrow>
     (case flags (term_at p t) of (en, fr, cl) \<Rightarrow> cl = en \<and> (fr \<longrightarrow> \<not> en) \<and> (en \<longrightarrow> cycle_front (terminals p) = Some t)))"

definition site_ok :: "site \<Rightarrow> bool" where
  "site_ok p \<longleftrightarrow> site_base p \<and> (\<forall>t<created p. kept p t)"

text \<open>Nobody has the keyboard.\<close>

definition dark :: "site \<Rightarrow> bool" where
  "dark p \<longleftrightarrow> site_base p \<and> (\<forall>t<created p. made (widgets p t) \<longrightarrow> \<not> fst (flags (term_at p t)) \<and> \<not> snd (snd (flags (term_at p t))))"

lemma same_site: "same p q \<Longrightarrow> site_ok p = site_ok q" "same p q \<Longrightarrow> dark p = dark q"
  by (simp_all add: same_def site_ok_def site_base_def kept_def dark_def)

lemma dark_ok: "dark p \<Longrightarrow> site_ok p"
  by (auto simp: dark_def site_ok_def kept_def)

lemma flags_cases: obtains en fr cl where "flags (term_at p t) = (en, fr, cl)"
  by (cases "flags (term_at p t)")

lemma flags_disable: "flags st = (en, fr, cl) \<Longrightarrow> flags (disable st) = (if en \<and> \<not> fr then (False, False, False) else (en, fr, cl))"
  by (auto simp: flags_def disable_def cmd_disable_def)

lemma flags_enable': "flags st = (en, fr, cl) \<Longrightarrow> flags (enable st) = (if en \<or> fr then (en, fr, cl) else (True, False, True))"
  by (auto simp: flags_def enable_def cmd_enable_def)

lemma kept_disable: "kept p t \<Longrightarrow> kept (term_disable u p) t"
  by (cases "flags (term_at p t)") (auto simp: kept_def term_disable_def flags_disable split: if_splits)

lemma base_disable [simp]: "site_base (term_disable t p) = site_base p"
  by (simp add: term_disable_def site_base_def)

lemma disable_sel [simp]:
  "terminals (term_disable t p) = terminals p" "created (term_disable t p) = created p"
  "window_bound (term_disable t p) = window_bound p" "document_bound (term_disable t p) = document_bound p"
  by (simp_all add: term_disable_def)

lemma disable_ok: "site_ok p \<Longrightarrow> site_ok (term_disable t p)"
  by (simp add: site_ok_def kept_disable)

lemma disable_dark:
  assumes "site_ok p" "cycle_front (terminals p) = Some f"
  shows "dark (term_disable f p)"
proof -
  have "\<not> fst (flags (term_at (term_disable f p) t)) \<and> \<not> snd (snd (flags (term_at (term_disable f p) t)))"
    if "t < created p" "made (widgets (term_disable f p) t)" for t
  proof (cases "flags (term_at p t)")
    case (fields en fr cl)
    have "kept p t" using assms(1) that(1) by (simp add: site_ok_def)
    then show ?thesis using that(2) fields assms(2) by (cases "t = f") (auto simp: kept_def term_disable_def flags_disable split: if_splits)
  qed
  then show ?thesis using assms(1) by (simp add: dark_def site_ok_def)
qed

lemma base_lit [simp]: "site_base (lit t p) = site_base p" "created (lit t p) = created p" "terminals (lit t p) = terminals p"
  "made (widgets (lit t p) u) = made (widgets p u)" "term_at (lit t p) u = (if u = t \<and> made (widgets p t) then enable (term_at p t) else term_at p u)"
  by (simp_all add: lit_def site_base_def)

lemma lit_ok:
  assumes "site_ok p" "cycle_front (terminals p) = Some t"
  shows "site_ok (lit t p)"
proof -
  have "kept (lit t p) u" if "u < created p" for u
  proof (cases "flags (term_at p u)")
    case (fields en fr cl)
    have "kept p u" using assms(1) that by (simp add: site_ok_def)
    then have k: "made (widgets p u) \<Longrightarrow> cl = en \<and> (fr \<longrightarrow> \<not> en) \<and> (en \<longrightarrow> cycle_front (terminals p) = Some u)"
      by (simp add: kept_def fields)
    show ?thesis
    proof (cases "u = t \<and> made (widgets p t)")
      case True
      then have e: "flags (enable (term_at p t)) = (if en \<or> fr then (en, fr, cl) else (True, False, True))"
        using flags_enable' [OF fields] by simp
      then show ?thesis using True k assms(2) by (auto simp: kept_def)
    next
      case False
      then show ?thesis using k fields by (auto simp: kept_def)
    qed
  qed
  then show ?thesis using assms(1) by (simp add: site_ok_def)
qed

lemma enable_ok:
  assumes "tame env" "site_ok p" "cycle_front (terminals p) = Some t"
  shows "site_ok (snd (term_enable env t p))"
  using term_enable_same [OF assms(1), of t p] lit_ok [OF assms(2,3)] assms(2) same_site(1) by blast

lemma labelled_ok: "tame env \<Longrightarrow> site_ok (snd (m p)) \<Longrightarrow> site_ok (snd (labelled env t label m p))"
  using labelled_same same_site(1) by blast

lemma hook_snd: "tame env \<Longrightarrow> snd (on_focus env t p) = p \<and> snd (on_blur env t p) = p \<and> snd (on_change env t p) = p"
  by (simp add: tame_def)

lemma ask_ok: "snd (h p) = p \<Longrightarrow> site_ok p \<Longrightarrow> site_ok (snd (m p)) \<Longrightarrow> site_ok (snd (ask_hook h m p))"
  by (cases "h p") (auto simp: ask_hook_def split: sum.split)

lemma change_ok: "tame env \<Longrightarrow> site_ok p \<Longrightarrow> site_ok (snd (labelled env x ''onTerminalChange'' (call_hook (on_change env t)) p))"
  by (rule labelled_ok) (simp_all add: call_hook_snd hook_snd)

lemma front_of:
  assumes "site_base p" "t < created p"
  obtains f where "cycle_front (terminals p) = Some f"
proof -
  have "cycle_data (terminals p) \<noteq> []" using assms by (auto simp: site_base_def)
  then show ?thesis using assms that by (auto simp: site_base_def cycle_ok_def cycle_front_def at_def)
qed

lemma front_single:
  assumes "site_base p" "t < created p" "cycle_length (terminals p) = 1"
  shows "cycle_front (terminals p) = Some t"
proof -
  obtain x where "cycle_data (terminals p) = [x]" using assms(3) by (auto simp: cycle_length_def length_Suc_conv)
  then show ?thesis using assms(1,2) by (auto simp: site_base_def cycle_ok_def cycle_front_def at_def lessThan_def)
qed

lemma dark_cycle:
  assumes "dark p" "cycle_ok c" "cycle_data c = cycle_data (terminals p)" "created p \<noteq> 0"
  shows "dark (p\<lparr>terminals := c\<rparr>)"
  using assms by (simp add: dark_def site_base_def)

lemma set_dark:
  assumes "dark p" "t < created p"
  shows "dark (p\<lparr>terminals := cycle_set t (terminals p)\<rparr>)" "cycle_front (cycle_set t (terminals p)) = Some t"
proof -
  have "t \<in> set (cycle_data (terminals p))" using assms by (simp add: dark_def site_base_def)
  from cycle_set_mem [OF this] dark_cycle [OF assms(1), of "cycle_set t (terminals p)"] assms(2)
  show "dark (p\<lparr>terminals := cycle_set t (terminals p)\<rparr>)" "cycle_front (cycle_set t (terminals p)) = Some t" by auto
qed

lemma enter_ok:
  assumes "tame env" "dark p" "t < created p"
  shows "site_ok (snd (term_enable env t (p\<lparr>terminals := cycle_set t (terminals p)\<rparr>)))"
  using enable_ok [OF assms(1) dark_ok [OF set_dark(1) [OF assms(2,3)]]] set_dark(2) [OF assms(2,3)] by simp

lemma set_front:
  assumes "site_ok p" "cycle_front (terminals p) = Some t" "t < created p"
  shows "site_ok (p\<lparr>terminals := cycle_set t (terminals p)\<rparr>)" "cycle_front (cycle_set t (terminals p)) = Some t"
proof -
  have "t \<in> set (cycle_data (terminals p))" using assms(1,3) by (simp add: site_ok_def site_base_def)
  from cycle_set_mem [OF this] assms
  show "site_ok (p\<lparr>terminals := cycle_set t (terminals p)\<rparr>)" "cycle_front (cycle_set t (terminals p)) = Some t"
    by (auto simp: site_ok_def site_base_def kept_def)
qed

lemma next_ok:
  assumes "tame env" "site_ok p" "t < created p" "in_view env t \<or> cycle_front (terminals p) = Some t"
  shows "site_ok (snd (next_terminal env t p))"
proof -
  obtain f where f: "cycle_front (terminals p) = Some f" using front_of assms(2,3) by (auto simp: site_ok_def)
  let ?p = "term_disable f p" and ?r = "cycle_rotate (terminals p)"
  have d: "dark ?p" by (rule disable_dark [OF assms(2) f])
  have ne: "cycle_data (terminals p) \<noteq> []" using assms(2,3) by (auto simp: site_ok_def site_base_def)
  have r: "cycle_data (snd ?r) = cycle_data (terminals p)" "cycle_ok (snd ?r)" "fst ?r = cycle_front (snd ?r)"
    using cycle_rotate_mod [of "terminals p"] assms(2) ne by (auto simp: site_ok_def site_base_def)
  have d': "dark (?p\<lparr>terminals := snd ?r\<rparr>)" using dark_cycle [OF d r(2)] r(1) assms(3) by simp
  have "site_ok (snd (and_then (term_enable env x (?p\<lparr>terminals := snd ?r\<rparr>))
      (labelled env t' ''onTerminalChange'' (call_hook (on_change env x)))))" if "fst ?r = Some x" for x t'
  proof -
    have "site_ok (snd (term_enable env x (?p\<lparr>terminals := snd ?r\<rparr>)))"
      using enable_ok [OF assms(1) dark_ok [OF d'], of x] r(3) that by simp
    then show ?thesis using change_ok [OF assms(1)] by (simp add: snd_and_then)
  qed
  then show ?thesis
    unfolding next_terminal_def
    using assms(2,4) f enable_ok [OF assms(1,2), of t] dark_ok [OF d']
    by (intro labelled_ok [OF assms(1)]) (auto simp: Let_def split: prod.split option.split)
qed

lemma focus_ok:
  assumes "tame env" "site_ok p" "t < created p" "off \<longrightarrow> in_view env t \<or> cycle_front (terminals p) = Some t"
  shows "site_ok (snd (focus env off silent t p))"
proof (cases "cycle_length (terminals p) = 1")
  case True
  then have "cycle_front (terminals p) = Some t" using front_single assms(2,3) by (simp add: site_ok_def)
  note e = enable_ok [OF assms(1,2) this]
  show ?thesis
    unfolding focus_def
    by (rule labelled_ok [OF assms(1)], cases off; cases silent)
       (simp_all add: True, (intro labelled_ok [OF assms(1)], simp add: e disable_ok assms(2) hook_snd [OF assms(1)] ask_ok)+)
next
  case False
  obtain f where f: "cycle_front (terminals p) = Some f" using front_of assms(2,3) by (auto simp: site_ok_def)
  have d: "dark (term_disable f p)" by (rule disable_dark [OF assms(2) f])
  have on: "site_ok (snd (term_enable env t (p\<lparr>terminals := cycle_set t (terminals p)\<rparr>)))" if "f = t"
    using enable_ok [OF assms(1) set_front(1) [OF assms(2) _ assms(3)]] set_front(2) [OF assms(2) _ assms(3)] f that by simp
  have off: "site_ok (snd (and_then (labelled env t ''onTerminalChange'' (call_hook (on_change env t)) (term_disable f p))
      (\<lambda>p. term_enable env t (p\<lparr>terminals := cycle_set t (terminals p)\<rparr>))))"
  proof -
    let ?q = "snd (labelled env t ''onTerminalChange'' (call_hook (on_change env t)) (term_disable f p))"
    have s: "same ?q (term_disable f p)"
      using labelled_same [OF assms(1)] call_hook_snd hook_snd [OF assms(1)] by metis
    then have "dark ?q" "created ?q = created p" using d same_site(2) by (simp, simp add: same_def)
    then show ?thesis using enter_ok [OF assms(1), of ?q t] assms(3) dark_ok by (simp add: snd_and_then)
  qed
  show ?thesis
    unfolding focus_def
    using next_ok [OF assms(1-3)] assms(4) False f on off enter_ok [OF assms(1) d, of t] assms(3)
    by (intro labelled_ok [OF assms(1)]) (auto simp: Let_def)
qed

lemma run_bound_ok:
  assumes "\<And>t p. site_ok p \<Longrightarrow> created p = n \<Longrightarrow> t < n \<Longrightarrow> site_ok (snd (h t p)) \<and> created (snd (h t p)) = n"
    and "site_ok p" "created p = n" "set ts \<subseteq> {..<n}"
  shows "site_ok (snd (run_bound h ts p)) \<and> created (snd (run_bound h ts p)) = n"
  using assms(2-) by (induction ts arbitrary: p) (simp_all add: snd_and_then assms(1))

text \<open>No method of a terminal makes a new one.\<close>

lemma created_same: "same p q \<Longrightarrow> created p = created q"
  by (simp add: same_def)

lemma enable_created: "tame env \<Longrightarrow> created (snd (term_enable env t p)) = created p"
  using term_enable_same [of env t p] created_same by fastforce

lemma labelled_created: "tame env \<Longrightarrow> created (snd (m p)) = n \<Longrightarrow> created (snd (labelled env t label m p)) = n"
  using labelled_same created_same by metis

lemma ask_created: "snd (h p) = p \<Longrightarrow> created (snd (m p)) = created p \<Longrightarrow> created (snd (ask_hook h m p)) = created p"
  by (cases "h p") (auto simp: ask_hook_def split: sum.split)

lemma hook_created: "tame env \<Longrightarrow> created (snd (labelled env u l (call_hook (on_change env t)) p)) = created p"
  by (rule labelled_created) (simp_all add: call_hook_snd hook_snd)

lemma next_created: "tame env \<Longrightarrow> created (snd (next_terminal env t p)) = created p"
  unfolding next_terminal_def
  by (rule labelled_created) (auto simp: enable_created hook_created snd_and_then Let_def split: prod.split option.split)

lemma focus_created: "tame env \<Longrightarrow> created (snd (focus env off silent t p)) = created p"
  unfolding focus_def
  by (rule labelled_created)
     (auto simp: enable_created hook_created next_created snd_and_then Let_def hook_snd
        intro!: labelled_created ask_created split: option.split)

lemma click_outside_ok:
  assumes "tame env" "site_ok p" shows "site_ok (snd (click_outside env p))"
proof -
  have "set (document_bound p) \<subseteq> {..<created p}" using assms(2) by (simp add: site_ok_def site_base_def)
  then show ?thesis
    unfolding click_outside_def using assms(2)
    by (intro conjunct1 [OF run_bound_ok [where n = "created p"]])
       (simp_all add: ask_ok ask_created hook_snd [OF assms(1)] disable_ok)
qed

lemma window_blur_ok:
  assumes "site_ok p" shows "site_ok (snd (window_blur p))"
proof -
  have "set (window_bound p) \<subseteq> {..<created p}" using assms by (simp add: site_ok_def site_base_def)
  moreover have "site_ok (upd_widget t (\<lambda>w. w\<lparr>old_enabled := t_enabled (w_term w)\<rparr>) q) = site_ok q" for t q
    by (rule same_site(1), rule upd_widget_same) (simp_all add: term_at_def)
  ultimately show ?thesis
    unfolding window_blur_def using assms
    by (intro conjunct1 [OF run_bound_ok [where n = "created p"]]) (simp_all add: disable_ok)
qed

lemma window_focus_ok:
  assumes "tame env" "site_ok p" shows "site_ok (snd (window_focus env p))"
proof -
  have "set (window_bound p) \<subseteq> {..<created p}" using assms(2) by (simp add: site_ok_def site_base_def)
  then show ?thesis
    unfolding window_focus_def using assms
    by (intro conjunct1 [OF run_bound_ok [where n = "created p"]]) (simp_all add: focus_ok focus_created)
qed

lemma made_enabled_front: "site_ok p \<Longrightarrow> t < created p \<Longrightarrow> made (widgets p t) \<Longrightarrow> t_enabled (term_at p t) \<Longrightarrow> cycle_front (terminals p) = Some t"
  by (auto simp: site_ok_def kept_def flags_def)

lemma new_ok:
  assumes "site_ok p" shows "site_ok (new_terminal st p)"
proof -
  let ?q = "new_terminal st p"
  have b: "site_base p" using assms by (simp add: site_ok_def)
  have c: "cycle_ok (cycle_append (created p) (terminals p))"
    using b by (intro cycle_ok_append) (auto simp: site_base_def)
  have front: "cycle_front (terminals p) = Some u \<Longrightarrow> cycle_front (terminals ?q) = Some u" for u
    by (auto simp: new_terminal_def cycle_append_def cycle_front_def at_def nth_append split: if_splits)
  have "site_base ?q" using b c by (auto simp: site_base_def new_terminal_def cycle_append_def)
  moreover have "kept ?q u" if "u < created ?q" for u
  proof (cases "u = created p")
    case True
    then show ?thesis by (simp add: kept_def new_terminal_def)
  next
    case False
    then have "u < created p" using that by (simp add: new_terminal_def)
    then have "kept p u" using assms by (simp add: site_ok_def)
    moreover have "term_at ?q u = term_at p u" "made (widgets ?q u) = made (widgets p u)"
      using False by (simp_all add: term_at_def new_terminal_def)
    ultimately show ?thesis using front by (auto simp: kept_def split: prod.splits)
  qed
  ultimately show ?thesis by (simp add: site_ok_def)
qed

lemma freeze_ok:
  assumes "tame env" "site_ok p" "made (widgets p t)" "t < created p"
  shows "site_ok (snd (freeze env True t p))"
proof -
  let ?q = "term_disable t p"
  have q: "site_ok ?q" by (rule disable_ok [OF assms(2)])
  obtain en fr cl where f: "flags (term_at p t) = (en, fr, cl)" by (rule flags_cases)
  have k: "cl = en" "fr \<longrightarrow> \<not> en" using assms(2-4) f by (auto simp: site_ok_def kept_def)
  then have fq: "flags ((term_at ?q t)\<lparr>frozen := True\<rparr>) = (False, True, False)"
    using f assms(3) by (auto simp: term_disable_def disable_def flags_def cmd_disable_def split: if_splits)
  have "kept (put_term t ((term_at ?q t)\<lparr>frozen := True\<rparr>) ?q) u" if "u < created p" for u
  proof (cases "u = t")
    case True
    then show ?thesis using fq by (simp add: kept_def)
  next
    case False
    then show ?thesis using q that by (simp add: site_ok_def kept_def)
  qed
  then have "site_ok (put_term t ((term_at ?q t)\<lparr>frozen := True\<rparr>) ?q)"
    using q by (simp add: site_ok_def site_base_def)
  then show ?thesis
    unfolding freeze_def by (intro labelled_ok [OF assms(1)]) (simp add: Let_def)
qed

lemma start_ok:
  assumes "tame env" "site_ok p" "t < created p" "\<not> made (widgets p t)" "t_enabled (term_at p t) \<longrightarrow> \<not> frozen (term_at p t)"
  shows "site_ok (snd (start_terminal env t p))"
proof -
  let ?st = "term_at p t"
  let ?c = "(command_line ?st)\<lparr>enabled := t_enabled ?st \<and> \<not> touch env\<rparr>"
  let ?f = "\<lambda>w. w\<lparr>w_term := ?st\<lparr>command_line := ?c\<rparr>, made := True\<rparr>"
  let ?p = "upd_widget t ?f p"
  have fl: "flags (term_at ?p t) = (t_enabled ?st, frozen ?st, t_enabled ?st \<and> \<not> touch env)"
    by (simp add: flags_def)
  have b: "site_base ?p" using assms(2) by (simp add: site_ok_def site_base_def)
  have others: "kept ?p u" if "u < created p" "u \<noteq> t" for u
    using assms(2) that by (simp add: site_ok_def kept_def)
  have first: "site_ok (snd (if t_enabled ?st \<and> visible env t \<and> \<not> touch env then focus env False True t ?p else (None, term_disable t ?p)))"
  proof (cases "t_enabled ?st \<and> visible env t \<and> \<not> touch env")
    case off: False
    have "kept (term_disable t ?p) u" if "u < created p" for u
    proof (cases "u = t")
      case True
      then show ?thesis using fl assms(5) by (auto simp: kept_def term_disable_def flags_disable split: if_splits)
    next
      case False
      then show ?thesis using kept_disable [OF others [OF that False]] by simp
    qed
    then have "site_ok (term_disable t ?p)" using b by (simp add: site_ok_def)
    then show ?thesis unfolding if_not_P [OF off] by simp
  next
    case True
    obtain f where f: "cycle_front (terminals p) = Some f" using front_of assms(2,3) by (auto simp: site_ok_def)
    show ?thesis
    proof (cases "f = t")
      case same: True
      have "kept ?p t" using fl True assms(5) f same by (simp add: kept_def)
      then have "site_ok ?p" using b others by (auto simp: site_ok_def)
      then show ?thesis using True focus_ok [OF assms(1), of ?p t False True] assms(3) by simp
    next
      case other: False
      then have n1: "cycle_length (terminals ?p) \<noteq> 1"
        using front_single [of p t] assms(2,3) f by (auto simp: site_ok_def)
      let ?d = "term_disable f p" and ?e = "term_disable f ?p"
      let ?q = "?e\<lparr>terminals := cycle_set t (terminals ?e)\<rparr>"
      have d: "dark ?d" by (rule disable_dark [OF assms(2) f])
      have fr: "cycle_front (terminals ?q) = Some t" using set_dark(2) [OF d] assms(3) by simp
      have "kept ?q u" if "u < created p" for u
      proof (cases "u = t")
        case True
        then show ?thesis using fl other fr \<open>t_enabled ?st \<and> visible env t \<and> \<not> touch env\<close> assms(5)
          by (simp add: kept_def term_disable_def)
      next
        case False
        then have "made (widgets ?q u) = made (widgets ?d u)" "flags (term_at ?q u) = flags (term_at ?d u)"
          by (simp_all add: term_disable_def)
        then show ?thesis using d that by (auto simp: dark_def kept_def split: prod.splits)
      qed
      moreover have "site_base ?q" using set_dark(1) [OF d] assms(3) by (simp add: dark_def site_base_def)
      ultimately have "site_ok ?q" by (simp add: site_ok_def)
      from enable_ok [OF assms(1) this fr] show ?thesis
        unfolding focus_def using True n1 f other
        by (simp add: labelled_ok [OF assms(1)] Let_def)
    qed
  qed
  have cr: "created (snd (if t_enabled ?st \<and> visible env t \<and> \<not> touch env then focus env False True t ?p else (None, term_disable t ?p))) = created p"
    by (simp add: focus_created [OF assms(1)])
  have last: "site_ok (snd (let p = if touch env then p else p\<lparr>window_bound := window_bound p @ [t]\<rparr>
      in (None, if visible env t then let (c, r) = measured env t in upd_widget t (\<lambda>w. w\<lparr>w_term := (w_term w)\<lparr>cols := c, rows := r\<rparr>, sized := True\<rparr>) p else p)))"
    if "site_ok p" "t < created p" for p
  proof -
    let ?w = "if touch env then p else p\<lparr>window_bound := window_bound p @ [t]\<rparr>"
    have w: "site_ok ?w" using that by (simp add: site_ok_def site_base_def kept_def term_at_def)
    have "same (upd_widget t (\<lambda>w. w\<lparr>w_term := (w_term w)\<lparr>cols := c, rows := r\<rparr>, sized := True\<rparr>) ?w) ?w" for c r
      by (rule upd_widget_same) (simp_all add: term_at_def flags_def)
    then have "site_ok (upd_widget t (\<lambda>w. w\<lparr>w_term := (w_term w)\<lparr>cols := c, rows := r\<rparr>, sized := True\<rparr>) ?w)" for c r
      using w same_site(1) by blast
    moreover obtain c r where "measured env t = (c, r)" by fastforce
    ultimately show ?thesis using w by (cases "touch env"; cases "visible env t") simp_all
  qed
  show ?thesis
    unfolding start_terminal_def Let_def
    using first last cr assms(3) unfolding Let_def by (simp only: snd_and_then) (auto simp del: split_paired_All)
qed

section \<open>Everything that can happen\<close>

text \<open>
  What the user and the page do to the terminals, with any author's functions that are tame and any sizes. A key
  goes to a command line that is enabled. The program may call \<open>focus\<close> and \<open>disable\<close>, freeze a terminal and make new ones.
\<close>

inductive site_step :: "site \<Rightarrow> site \<Rightarrow> bool" where
  new: "site_step p (new_terminal st p)"
| start: "tame env \<Longrightarrow> t < created p \<Longrightarrow> \<not> made (widgets p t) \<Longrightarrow> t_enabled (term_at p t) \<longrightarrow> \<not> frozen (term_at p t) \<Longrightarrow>
    site_step p (snd (start_terminal env t p))"
| bind: "t < created p \<Longrightarrow> site_step p (bind_document t p)"
| clicked: "tame env \<Longrightarrow> t < created p \<Longrightarrow> site_step p (snd (click env t p))"
| clicked_outside: "tame env \<Longrightarrow> site_step p (snd (click_outside env p))"
| blurred: "site_step p (snd (window_blur p))"
| focused: "tame env \<Longrightarrow> site_step p (snd (window_focus env p))"
| left_touch: "tame env \<Longrightarrow> t < created p \<Longrightarrow> made (widgets p t) \<Longrightarrow> site_step p (snd (textarea_blur env t p))"
| tab_key: "tame env \<Longrightarrow> t < created p \<Longrightarrow> made (widgets p t) \<Longrightarrow> enabled (command_line (term_at p t)) \<Longrightarrow> site_step p (snd (ctrl_tab env t p))"
| focus_call: "tame env \<Longrightarrow> t < created p \<Longrightarrow> site_step p (snd (focus env False silent t p))"
| leave_call: "tame env \<Longrightarrow> t < created p \<Longrightarrow> in_view env t \<Longrightarrow> site_step p (snd (focus env True silent t p))"
| disable_call: "t < created p \<Longrightarrow> site_step p (term_disable t p)"
| freeze_call: "tame env \<Longrightarrow> t < created p \<Longrightarrow> made (widgets p t) \<Longrightarrow> site_step p (snd (freeze env True t p))"

definition empty_site :: "(nat \<Rightarrow> widget) \<Rightarrow> site" where
  "empty_site ws = \<lparr>terminals = new_cycle None, widgets = ws, created = 0, document_bound = [], window_bound = []\<rparr>"

lemma site_step_ok: "site_step p q \<Longrightarrow> site_ok p \<Longrightarrow> site_ok q"
proof (induction rule: site_step.induct)
  case (bind t p)
  then show ?case by (simp add: site_ok_def site_base_def kept_def bind_document_def term_at_def)
next
  case (clicked env t p)
  then show ?case by (auto simp: click_def focus_ok made_enabled_front)
next
  case (left_touch env t p)
  then show ?case by (auto simp: textarea_blur_def intro!: focus_ok made_enabled_front)
next
  case (tab_key env t p)
  then have "t_enabled (term_at p t)" by (auto simp: site_ok_def kept_def flags_def)
  with tab_key show ?case by (auto simp: ctrl_tab_def intro!: focus_ok made_enabled_front)
qed (simp_all add: new_ok start_ok click_outside_ok window_blur_ok window_focus_ok focus_ok disable_ok freeze_ok)

lemma empty_site_ok: "site_ok (empty_site ws)"
  by (simp add: site_ok_def site_base_def empty_site_def new_cycle_def cycle_ok_def)

lemma reachable_ok: "site_step\<^sup>*\<^sup>* (empty_site ws) p \<Longrightarrow> site_ok p"
  by (induction rule: rtranclp_induct) (blast intro: empty_site_ok, blast intro: site_step_ok)


section \<open>What breaks it\<close>

text \<open>
  \<open>next\<close> on a terminal out of view and \<open>freeze(false)\<close> enable it without taking it to the front: then two
  terminals have the keyboard.
\<close>

theorem background_terminal_enabled:
  assumes "cycle_length (terminals p) \<noteq> 1" "cycle_front (terminals p) = Some f" "f \<noteq> t" "enabled (command_line (term_at p f))"
    and "made (widgets p t)" "sized (widgets p t)" "\<not> t_enabled (term_at p t)" "\<not> in_view env t" "\<not> frozen (term_at p t) \<or> \<not> by_next"
    and "q = snd (if by_next then next_terminal env t p else freeze env False t p)"
  shows "cycle_front (terminals q) = Some f \<and> enabled (command_line (term_at q f)) \<and> enabled (command_line (term_at q t))"
proof -
  obtain r where q: "q = lit t r" and r: "terminals r = terminals p" "made (widgets r t)" "\<not> t_enabled (term_at r t)"
      "\<not> frozen (term_at r t)" "term_at r f = term_at p f"
  proof (cases by_next)
    case True
    then have "q = lit t p" using assms
      by (simp add: next_terminal_def term_enable_def labelled_def)
    then show ?thesis using that [of p] assms True by simp
  next
    case False
    let ?r = "put_term t ((term_at p t)\<lparr>frozen := False\<rparr>) p"
    have "q = lit t ?r" using assms False
      by (simp add: freeze_def term_enable_def labelled_def)
    then show ?thesis using that [of ?r] assms by simp
  qed
  then show ?thesis using assms(2-4) by (simp add: enable_def cmd_enable_def)
qed

text \<open>\<open>destroy\<close> removes by the number a terminal got when it was made, although the others have moved down since.\<close>

lemma splice1_out: "length xs \<le> k \<Longrightarrow> splice1 xs (int k) = xs"
  by (simp add: splice1_def Let_def rel_index_def)

lemma destroy_steps:
  assumes "cycle_data (terminals p) = [0..<n]" "\<forall>t<n. w_id (widgets p t) = t" "k \<le> n"
  shows "cycle_data (terminals (fold destroy [0..<k] p)) = filter odd [0..<min (2 * k) n] @ [2 * k..<n] \<and> widgets (fold destroy [0..<k] p) = widgets p"
  using assms(3)
proof (induction k)
  case 0
  then show ?case using assms(1) by simp
next
  case (Suc k)
  let ?q = "fold destroy [0..<k] p"
  have l: "length (filter odd [0..<2 * m]) = m" for m by (induction m) simp_all
  have q: "cycle_data (terminals ?q) = filter odd [0..<min (2 * k) n] @ [2 * k..<n]" "widgets ?q = widgets p" using Suc by simp_all
  have d: "cycle_data (terminals (destroy k ?q)) = splice1 (filter odd [0..<min (2 * k) n] @ [2 * k..<n]) (int k)"
    using q Suc.prems assms(2) by (simp add: destroy_def cycle_remove_def)
  have "splice1 (filter odd [0..<min (2 * k) n] @ [2 * k..<n]) (int k) = filter odd [0..<min (2 * Suc k) n] @ [2 * Suc k..<n]"
  proof (cases "2 * k < n")
    case True
    then have "[2 * k..<n] = (2 * k) # [2 * k + 1..<n]" by (simp add: upt_rec)
    then have "splice1 (filter odd [0..<min (2 * k) n] @ [2 * k..<n]) (int k) = filter odd [0..<2 * k] @ [2 * k + 1..<n]"
      using True l [of k] by (simp add: splice1_def Let_def rel_index_def)
    also have "\<dots> = filter odd [0..<min (2 * Suc k) n] @ [2 * Suc k..<n]"
    proof (cases "2 * k + 1 < n")
      case True
      then have "[2 * k + 1..<n] = (2 * k + 1) # [2 * Suc k..<n]" by (simp add: upt_rec)
      then show ?thesis using True by (simp add: min_def)
    next
      case False
      then have "n = Suc (2 * k)" using \<open>2 * k < n\<close> by simp
      then show ?thesis by simp
    qed
    finally show ?thesis .
  next
    case False
    have "length (filter odd [0..<n]) \<le> length (filter odd [0..<2 * k])"
      using False upt_add_eq_append [of 0 n "2 * k - n"] by simp
    then have "length (filter odd [0..<n]) \<le> k" using l by simp
    moreover have "min (2 * k) n = n" "min (2 * Suc k) n = n" "[2 * k..<n] = []" "[2 * Suc k..<n] = []" using False by simp_all
    ultimately show ?thesis using splice1_out [of "filter odd [0..<n]" k] by simp
  qed
  moreover have "widgets (destroy k ?q) = widgets p" using q by (simp add: destroy_def)
  ultimately show ?case using d by simp
qed

text \<open>
  Destroying all the terminals of a page in the order in which they were made leaves every second one in the
  list of terminals.
\<close>

theorem destroyed_terminals_stay:
  assumes "cycle_data (terminals p) = [0..<n]" "\<forall>t<n. w_id (widgets p t) = t"
  shows "cycle_data (terminals (fold destroy [0..<n] p)) = filter odd [0..<n]"
  using destroy_steps [OF assms, of n] by simp

definition blank_widget :: widget where
  "blank_widget = \<lparr>w_term = small_terminal, w_id = 0, made = False, sized = False, resize_waits = False, old_enabled = False\<rparr>"

theorem destroyed_terminals_stay_witness:
  "cycle_data (terminals (fold destroy [0..<4] (new_terminal small_terminal (new_terminal small_terminal (new_terminal small_terminal (new_terminal small_terminal (empty_site (\<lambda>_. blank_widget)))))))) = [1, 3]"
proof -
  let ?p = "new_terminal small_terminal (new_terminal small_terminal (new_terminal small_terminal (new_terminal small_terminal (empty_site (\<lambda>_. blank_widget)))))"
  have d: "cycle_data (terminals ?p) = [0..<4]"
    by (simp add: new_terminal_def empty_site_def new_cycle_def cycle_append_def upt_rec)
  have "w_id (widgets ?p t) = t" if "t < 4" for t
  proof -
    have "t = 0 \<or> t = 1 \<or> t = 2 \<or> t = 3" using that by auto
    then show ?thesis by (auto simp: new_terminal_def empty_site_def new_cycle_def cycle_append_def cycle_length_def)
  qed
  then show ?thesis using destroyed_terminals_stay [OF d] by (simp add: upt_rec)
qed

section \<open>A page with two terminals\<close>

definition plain_site_env :: "bool \<Rightarrow> site_env" where
  "plain_site_env seen = \<lparr>t_of = (\<lambda>_. small_env), touch = False, visible = (\<lambda>_. True), in_view = (\<lambda>_. seen), measured = (\<lambda>_. (80, 24)),
     on_resize = (\<lambda>_. None), on_focus = (\<lambda>_ p. (Inr True, p)), on_blur = (\<lambda>_ p. (Inr True, p)), on_change = (\<lambda>_ p. (Inr True, p))\<rparr>"

lemma flags_more: "out.more st = out.more (st' :: terminal) \<Longrightarrow> flags st = flags st'"
  using more_sel [of st st'] by (simp add: flags_def)

lemma plain_tame: "tame (plain_site_env seen)"
proof -
  have "keeps small_env flags"
    unfolding keeps_def
  proof (intro conjI allI impI)
    show "out.more st = out.more st' \<Longrightarrow> flags st = flags st'" for st st' :: terminal by (rule flags_more)
    show "flags (extended small_env s st) = flags st" for s st by (simp add: small_env_def)
  qed
  then show ?thesis by (simp add: tame_def plain_site_env_def)
qed

definition two_terminals :: site where
  "two_terminals =
     (let p = new_terminal small_terminal (empty_site (\<lambda>_. blank_widget));
          p = snd (start_terminal (plain_site_env True) 0 p);
          p = new_terminal small_terminal p
      in snd (start_terminal (plain_site_env True) 1 p))"


theorem background_terminal_enabled_witness:
  "enabled (command_line (term_at (snd (next_terminal (plain_site_env False) 0 two_terminals)) 0)) \<and>
   enabled (command_line (term_at (snd (next_terminal (plain_site_env False) 0 two_terminals)) 1))"
proof -
  have "cycle_length (terminals two_terminals) \<noteq> 1" "cycle_front (terminals two_terminals) = Some 1"
    "enabled (command_line (term_at two_terminals 1))" "made (widgets two_terminals 0)" "sized (widgets two_terminals 0)"
    "\<not> t_enabled (term_at two_terminals 0)" "\<not> in_view (plain_site_env False) 0" "\<not> frozen (term_at two_terminals 0)"
    by code_simp+
  from background_terminal_enabled [of two_terminals 1 0 "plain_site_env False" True, OF this(1,2) _ this(3-7) disjI1 [OF this(8)] refl]
  show ?thesis by simp
qed

end
