(* ===== verification/Views.thy ===== *)
theory Views
  imports Term_Exec
begin

text \<open>
  Views of a terminal: \<open>export_view\<close>, \<open>import_view\<close>, and the list of views behind the hash of the address bar
  (\<open>save_state\<close>, \<open>restore_state\<close> and the handler of \<open>hashchange\<close>). A view holds a clone of the stack, which shares
  the interpreters with the stack, and \<open>import_view\<close> makes the stack of the view the stack of the terminal: so the
  interpreters and the stacks are objects in a store here, and a terminal and a view have addresses.
\<close>

section \<open>clone\<close>

text \<open>\<open>Clone.clone_object\<close> and \<open>clone_array\<close>. A function is no \<open>object\<close> for \<open>typeof\<close>.\<close>

fun clone_object :: "jsval \<Rightarrow> jsval" and clone_item :: "jsval \<Rightarrow> jsval" where
  "clone_object (JArr xs) = JArr (map clone_item xs)"
| "clone_object JNull = JNull"
| "clone_object (JObj ps) = JObj (map (\<lambda>(k, v). (k, clone_item v)) ps)"
| "clone_object v = JObj []"
| "clone_item v = (if typeof v = ''object'' then clone_object v else v)"

section \<open>The store\<close>

record view =
  v_focus :: bool
  v_mask :: mask
  v_prompt :: prompt
  v_command :: string
  v_position :: int
  v_lines :: "(line \<times> echo_opts) list"
  v_stack :: nat

record tab =
  order :: "nat list"          \<comment> \<open>\<open>terminals.get()\<close>\<close>
  shells :: "nat \<Rightarrow> terminal"
  cur :: "nat \<Rightarrow> nat"          \<comment> \<open>the \<open>interpreters\<close> of a terminal\<close>
  objs :: "nat \<Rightarrow> intrp"
  next_obj :: nat
  stacks :: "nat \<Rightarrow> nat list"
  next_stack :: nat
  saved :: "view list"         \<comment> \<open>\<open>save_state\<close>\<close>
  hash_commands :: jsval
  location_hash :: string
  change_hash :: bool
  fire_hash_change :: bool

text \<open>
  A terminal with its interpreters read from the store, and written back. A method that pushes makes new objects,
  one that pops shortens the stack, and one that changes an interpreter changes the object.
\<close>

definition load :: "nat \<Rightarrow> tab \<Rightarrow> terminal" where
  "load t s = (shells s t)\<lparr>interpreters := \<lparr>stack_data = map (objs s) (stacks s (cur s t))\<rparr>\<rparr>"

fun write_objs :: "nat list \<Rightarrow> intrp list \<Rightarrow> (nat \<Rightarrow> intrp) \<Rightarrow> nat \<Rightarrow> intrp" where
  "write_objs (r # rs) (x # xs) h = (write_objs rs xs h)(r := x)"
| "write_objs rs xs h = h"

definition store_back :: "nat \<Rightarrow> terminal \<Rightarrow> tab \<Rightarrow> tab" where
  "store_back t st s =
     (let refs = stacks s (cur s t); xs = stack_data (interpreters st);
          refs' = take (length xs) refs @ [next_obj s..<next_obj s + (length xs - length refs)]
      in s\<lparr>shells := (shells s)(t := st), objs := write_objs refs' xs (objs s),
           next_obj := next_obj s + (length xs - length refs), stacks := (stacks s)(cur s t := refs')\<rparr>)"

definition in_tab :: "nat \<Rightarrow> terminal meth \<Rightarrow> tab meth" where
  "in_tab t m s = (let (e, st) = m (load t s) in (e, store_back t st s))"

definition guarded_tab :: "(nat \<Rightarrow> t_env) \<Rightarrow> nat \<Rightarrow> tab meth \<Rightarrow> tab meth" where
  "guarded_tab envs t m s =
     (case m s of
        (None, s) \<Rightarrow> (None, s)
      | (Some e, s) \<Rightarrow> (Some e, snd (in_tab t (\<lambda>st. (None, display_exception (envs t) e ''TERMINAL'' st)) s)))"

section \<open>Methods\<close>

definition stack_copy :: "nat \<Rightarrow> tab \<Rightarrow> nat \<times> tab" where \<comment> \<open>\<open>interpreters.clone()\<close>\<close>
  "stack_copy t s =
     (next_stack s, s\<lparr>stacks := (stacks s)(next_stack s := stacks s (cur s t)), next_stack := next_stack s + 1\<rparr>)"

text \<open>Without an interpreter \<open>get_prompt\<close> throws; otherwise the view, with the lines as they are.\<close>

definition export_view :: "nat \<Rightarrow> tab \<Rightarrow> (js_error + view) \<times> tab" where
  "export_view t s =
     (case stack_top (interpreters (load t s)) of
        None \<Rightarrow> (Inl TypeError, s)
      | Some i \<Rightarrow>
          (let st = shells s t; c = command_line st; (k, s) = stack_copy t s
           in (Inr \<lparr>v_focus = t_enabled st, v_mask = mask c, v_prompt = i_prompt i, v_command = command c,
                    v_position = position c, v_lines = lines st, v_stack = k\<rparr>, s)))"

text \<open>\<open>F\<close> is what \<open>self.focus()\<close> does.\<close>

definition import_view :: "(nat \<Rightarrow> t_env) \<Rightarrow> terminal meth \<Rightarrow> nat \<Rightarrow> view \<Rightarrow> tab meth" where
  "import_view envs F t v = guarded_tab envs t (\<lambda>s.
     (if in_login (shells s t) then
        (Some (Throw ''You can't call `import_view' function while in login''), s)
      else
        and_then (in_tab t (set_prompt (envs t) (v_prompt v)) s) (\<lambda>s.
        (let opts = cmd_opts (envs t);
             restored = (\<lambda>st. st\<lparr>command_line := cmd_set_mask (v_mask v)
                (cmd_position opts (v_position v) False (cmd_set opts (Some (v_command v)) False (command_line st)))\<rparr>);
             s = snd (in_tab t (\<lambda>st. (None, restored st)) s)
         in and_then (if v_focus v then in_tab t F s else (None, s)) (\<lambda>s.
            (let s = s\<lparr>shells := (shells s)(t := (shells s t)\<lparr>lines := v_lines v\<rparr>), cur := (cur s)(t := v_stack v)\<rparr>
             in in_tab t (\<lambda>st. (None, redraw_lines (t_out (envs t)) (extended (envs t)) st)) s))))))"

text \<open>The timer that \<open>maybe_update_hash\<close> starts sets \<open>fire_hash_change\<close> again.\<close>

definition maybe_update_hash :: "tab \<Rightarrow> tab" where
  "maybe_update_hash s =
     (if change_hash s then s\<lparr>fire_hash_change := False, location_hash := json_stringify (hash_commands s) 1\<rparr> else s)"

definition hash_timer :: "tab \<Rightarrow> tab" where
  "hash_timer s = s\<lparr>fire_hash_change := True\<rparr>"

definition array_of :: "jsval \<Rightarrow> jsval list" where
  "array_of v = (case v of JArr xs \<Rightarrow> xs | _ \<Rightarrow> [])"

definition save_state :: "(nat \<Rightarrow> t_env) \<Rightarrow> nat \<Rightarrow> jsval \<Rightarrow> bool \<Rightarrow> tab meth" where
  "save_state envs t cmd_text ignore_hash = guarded_tab envs t (\<lambda>s.
     (case export_view t s of
        (Inl e, s) \<Rightarrow> (Some e, s)
      | (Inr v, s) \<Rightarrow>
          (let s = s\<lparr>saved := saved s @ [v]\<rparr>;
               s = s\<lparr>hash_commands := JArr (array_of (hash_commands s))\<rparr>
           in (None,
               if cmd_text \<noteq> JUndef then
                 (let state = JArr [JNum (int (terminal_id (envs t))), JNum (int (length (saved s)) - 1), cmd_text];
                      s = s\<lparr>hash_commands := JArr (array_of (hash_commands s) @ [state])\<rparr>
                  in if \<not> ignore_hash then maybe_update_hash s else s)
               else s))))"

section \<open>The hash of the address bar\<close>

text \<open>A property of an array is looked up by its name, a property of a text by its index.\<close>

definition index_of_key :: "nat \<Rightarrow> jsval \<Rightarrow> nat option" where
  "index_of_key n v = find (\<lambda>k. js_string v = show_nat k) [0..<n]"

definition spec_at :: "jsval \<Rightarrow> nat \<Rightarrow> jsval" where
  "spec_at v k =
     (case v of
        JArr xs \<Rightarrow> (if k < length xs then xs ! k else JUndef)
      | JStr t \<Rightarrow> (if k < length t then JStr [t ! k] else JUndef)
      | _ \<Rightarrow> JUndef)"

text \<open>\<open>X\<close> is what \<open>terminal.exec\<close> does, with the promise that sets \<open>change_hash\<close> again.\<close>

definition restore_state :: "(nat \<Rightarrow> t_env) \<Rightarrow> (nat \<Rightarrow> terminal meth) \<Rightarrow> (nat \<Rightarrow> jsval \<Rightarrow> tab meth) \<Rightarrow> jsval \<Rightarrow> tab meth" where
  "restore_state envs F X spec s =
     (if spec = JUndef \<or> spec = JNull then (Some TypeError, s)
      else
        (case index_of_key (length (order s)) (spec_at spec 0) of
           None \<Rightarrow> (Some (Throw ''Invalid Terminal ID''), s)
         | Some i \<Rightarrow>
             (let t = order s ! i
              in case index_of_key (length (saved s)) (spec_at spec 1) of
                   Some k \<Rightarrow> import_view envs (F t) t (saved s ! k) s
                 | None \<Rightarrow>
                     (let s = s\<lparr>change_hash := False\<rparr>
                      in if truthy (spec_at spec 2) then X t (spec_at spec 2) s else (None, s)))))"

text \<open>
  The handler of \<open>hashchange\<close>, bound by the terminal \<open>t\<close>. \<open>parse\<close> is \<open>$.parseJSON\<close>; the text is that of the
  address without the sign in front.
\<close>

definition hash_length :: "jsval \<Rightarrow> js_error + nat" where
  "hash_length v =
     (case v of JArr xs \<Rightarrow> Inr (length xs) | JStr t \<Rightarrow> Inr (length t) | JUndef \<Rightarrow> Inl TypeError | JNull \<Rightarrow> Inl TypeError | _ \<Rightarrow> Inr 0)"

definition go_to_hash :: "(nat \<Rightarrow> t_env) \<Rightarrow> (nat \<Rightarrow> terminal meth) \<Rightarrow> (nat \<Rightarrow> jsval \<Rightarrow> tab meth) \<Rightarrow> nat \<Rightarrow> tab meth" where
  "go_to_hash envs F X t s =
     (case hash_length (hash_commands s) of
        Inl e \<Rightarrow> (Some e, s)
      | Inr n \<Rightarrow>
          (if n \<noteq> 0 then restore_state envs F X (spec_at (hash_commands s) (n - 1)) s
           else (case saved s of [] \<Rightarrow> (None, s) | v # _ \<Rightarrow> import_view envs (F t) t v s)))"

definition hash_changed :: "(nat \<Rightarrow> t_env) \<Rightarrow> (nat \<Rightarrow> terminal meth) \<Rightarrow> (nat \<Rightarrow> jsval \<Rightarrow> tab meth) \<Rightarrow> (string \<Rightarrow> js_error + jsval) \<Rightarrow> nat \<Rightarrow> tab \<Rightarrow> tab" where
  "hash_changed envs F X parse t s =
     (if \<not> fire_hash_change s then s
      else
        (let r = (if location_hash s \<noteq> '''' then
                    (case parse (location_hash s) of
                       Inl e \<Rightarrow> (Some e, s) | Inr v \<Rightarrow> go_to_hash envs F X t (s\<lparr>hash_commands := v\<rparr>))
                  else go_to_hash envs F X t (s\<lparr>hash_commands := JArr []\<rparr>))
         in case r of
              (None, s) \<Rightarrow> s
            | (Some e, s) \<Rightarrow> snd (in_tab t (\<lambda>st. (None, display_exception (envs t) e ''TERMINAL'' st)) s)))"

section \<open>Cloning\<close>

lemma clone_item_id: "clone_item v = v"
proof (induction v)
  case (JArr xs)
  then show ?case by (simp add: map_idI)
next
  case (JObj ps)
  have "map (\<lambda>(k, v). (k, clone_item v)) ps = ps" by (rule map_idI) (use JObj in \<open>force\<close>)
  then show ?case by simp
qed simp_all

text \<open>\<open>clone\<close> gives an equal value for an array, an object or \<open>null\<close>, and an empty object for everything else.\<close>

theorem clone_object_id: "clone_object v = (if typeof v = ''object'' then v else JObj [])"
proof (cases "typeof v = ''object''")
  case True
  then show ?thesis using clone_item_id [of v] by (cases v) simp_all
qed (cases v, simp_all)

section \<open>No address is dangling\<close>

definition tab_ok :: "tab \<Rightarrow> bool" where
  "tab_ok s \<longleftrightarrow> (\<forall>k<next_stack s. distinct (stacks s k) \<and> set (stacks s k) \<subseteq> {..<next_obj s}) \<and>
     (\<forall>t. cur s t < next_stack s) \<and> (\<forall>v\<in>set (saved s). v_stack v < next_stack s)"

lemma refs_ok:
  assumes "distinct refs" "set refs \<subseteq> {..<n}"
  shows "distinct (take k refs @ [n..<n + m])" "set (take k refs @ [n..<n + m]) \<subseteq> {..<n + m}"
  using assms set_take_subset [of k refs] by (auto simp: subset_iff)

lemma store_back_ok:
  assumes "tab_ok s" shows "tab_ok (store_back t st s)" "next_stack (store_back t st s) = next_stack s"
proof -
  let ?n = "length (stack_data (interpreters st))" and ?r = "stacks s (cur s t)"
  have "distinct ?r" "set ?r \<subseteq> {..<next_obj s}" using assms by (simp_all add: tab_ok_def)
  note r = refs_ok [OF this, of ?n "?n - length ?r"]
  have old: "set (stacks s k) \<subseteq> {..<next_obj s + (?n - length ?r)}" if "k < next_stack s" for k
  proof -
    have "set (stacks s k) \<subseteq> {..<next_obj s}" using assms that by (simp add: tab_ok_def)
    then show ?thesis by (rule subset_trans) auto
  qed
  show "tab_ok (store_back t st s)" "next_stack (store_back t st s) = next_stack s"
    using assms r old by (auto simp: tab_ok_def store_back_def Let_def)
qed

lemma in_tab_ok: "tab_ok s \<Longrightarrow> tab_ok (snd (in_tab t m s))" "next_stack (snd (in_tab t m s)) = next_stack s"
  by (simp_all add: in_tab_def Let_def split_beta store_back_ok) (simp add: store_back_def Let_def)

lemma in_tab_saved: "saved (snd (in_tab t m s)) = saved s"
  by (simp add: in_tab_def Let_def split_beta store_back_def)

text \<open>What a method of the page may do to the store: it keeps it in order and frees no stack.\<close>

definition typed_step :: "tab \<Rightarrow> tab \<Rightarrow> bool" where
  "typed_step s s' \<longleftrightarrow> (tab_ok s \<longrightarrow> tab_ok s') \<and> next_stack s \<le> next_stack s'"

lemma typed_refl [simp]: "typed_step s s"
  by (simp add: typed_step_def)

lemma typed_trans: "typed_step s s' \<Longrightarrow> typed_step s' s'' \<Longrightarrow> typed_step s s''"
  by (auto simp: typed_step_def)

lemma typed_in_tab: "typed_step s (snd (in_tab t m s))"
  by (simp add: typed_step_def in_tab_ok)

lemma typed_in_tab': "typed_step s s' \<Longrightarrow> typed_step s (snd (in_tab t m s'))"
  by (rule typed_trans [OF _ typed_in_tab])

lemma typed_then: "typed_step s (snd r) \<Longrightarrow> (\<And>s'. typed_step s s' \<Longrightarrow> typed_step s (snd (f s'))) \<Longrightarrow> typed_step s (snd (and_then r f))"
  by (cases r) (auto simp: and_then_def split: option.split)

lemma typed_guarded: "typed_step s (snd (m s)) \<Longrightarrow> typed_step s (snd (guarded_tab envs t m s))"
  by (auto simp: guarded_tab_def split: prod.split option.split intro: typed_trans typed_in_tab)

lemma typed_import:
  assumes "v_stack v < next_stack s"
  shows "typed_step s (snd (import_view envs F t v s))"
proof -
  have set: "typed_step s (s'\<lparr>shells := sh, cur := (cur s')(t := v_stack v)\<rparr>)" if "typed_step s s'" for s' sh
    using that assms by (auto simp: typed_step_def tab_ok_def)
  show ?thesis
    unfolding import_view_def
    by (rule typed_guarded) (auto simp: Let_def intro!: typed_then typed_in_tab' set)
qed

lemma stack_copy_ok:
  assumes "tab_ok s" shows "tab_ok (snd (stack_copy t s))"
proof -
  have "distinct (stacks (snd (stack_copy t s)) k) \<and> set (stacks (snd (stack_copy t s)) k) \<subseteq> {..<next_obj s}"
    if "k < Suc (next_stack s)" for k
    using assms that by (cases "k = next_stack s") (simp_all add: tab_ok_def stack_copy_def)
  then show ?thesis using assms by (simp add: tab_ok_def stack_copy_def less_SucI)
qed

lemma typed_export:
  assumes "export_view t s = (r, s')"
  shows "typed_step s s'" "\<And>v. r = Inr v \<Longrightarrow> v_stack v < next_stack s'"
proof -
  have n: "next_stack (snd (stack_copy t s)) = Suc (next_stack s)" "fst (stack_copy t s) = next_stack s" by (simp_all add: stack_copy_def)
  show "typed_step s s'"
    using assms stack_copy_ok [of s t] n by (auto simp: export_view_def Let_def typed_step_def split: option.splits prod.splits)
  show "v_stack v < next_stack s'" if "r = Inr v" for v
    using assms that n by (auto simp: export_view_def Let_def split: option.splits prod.splits)
qed

lemma typed_flags:
  "typed_step s (s\<lparr>change_hash := b\<rparr>)" "typed_step s (s\<lparr>hash_commands := h\<rparr>)" "typed_step s (maybe_update_hash s)"
  "typed_step s (s\<lparr>fire_hash_change := b\<rparr>)"
  by (simp_all add: typed_step_def tab_ok_def maybe_update_hash_def)

lemma typed_save: "typed_step s (snd (save_state envs t c i s))"
  unfolding save_state_def
proof (rule typed_guarded)
  obtain r s' where e: "export_view t s = (r, s')" by fastforce
  note x = typed_export [OF e]
  have "typed_step s (s'\<lparr>saved := saved s' @ [v], hash_commands := h\<rparr>)" if "r = Inr v" for v h
    using x(1) x(2) [OF that] by (auto simp: typed_step_def tab_ok_def)
  then show "typed_step s (snd (case export_view t s of
        (Inl e, s) \<Rightarrow> (Some e, s)
      | (Inr v, s) \<Rightarrow>
          (let s = s\<lparr>saved := saved s @ [v]\<rparr>;
               s = s\<lparr>hash_commands := JArr (array_of (hash_commands s))\<rparr>
           in (None,
               if c \<noteq> JUndef then
                 (let state = JArr [JNum (int (terminal_id (envs t))), JNum (int (length (saved s)) - 1), c];
                      s = s\<lparr>hash_commands := JArr (array_of (hash_commands s) @ [state])\<rparr>
                  in if \<not> i then maybe_update_hash s else s)
               else s))))"
    using x(1) e by (cases r) (auto simp: Let_def intro: typed_trans [OF _ typed_flags(3)])
qed

lemma typed_restore:
  assumes "tab_ok s" "\<And>t v s. typed_step s (snd (X t v s))"
  shows "typed_step s (snd (restore_state envs F X spec s))"
proof -
  have "v_stack (saved s ! k) < next_stack s" if "k < length (saved s)" for k
    using assms(1) that by (simp add: tab_ok_def)
  moreover have "index_of_key n v = Some k \<Longrightarrow> k < n" for n v k
    by (auto simp: index_of_key_def find_Some_iff)
  ultimately show ?thesis
    by (auto simp: restore_state_def Let_def typed_flags intro!: typed_import intro: typed_trans [OF typed_flags(1) assms(2)]
        split: option.split)
qed

lemma typed_hash:
  assumes "tab_ok s" "\<And>t v s. typed_step s (snd (X t v s))"
  shows "typed_step s (hash_changed envs F X parse t s)"
proof -
  have go: "typed_step s (snd (go_to_hash envs F X t (s\<lparr>hash_commands := h\<rparr>)))" for h
  proof -
    let ?s = "s\<lparr>hash_commands := h\<rparr>"
    have ok: "tab_ok ?s" using typed_flags(2) [of s h] assms(1) by (simp add: typed_step_def)
    have "typed_step ?s (snd (go_to_hash envs F X t ?s))"
      using typed_restore [OF ok assms(2)] ok unfolding go_to_hash_def
      by (auto simp: tab_ok_def intro!: typed_import split: sum.split list.split)
    then show ?thesis by (rule typed_trans [OF typed_flags(2)])
  qed
  have shown: "typed_step s (case r of (None, s) \<Rightarrow> s | (Some e, s) \<Rightarrow> snd (in_tab t (m e) s))"
    if "typed_step s (snd r)" for r m
    using that by (auto split: prod.split option.split intro: typed_in_tab')
  have "typed_step s (snd (if location_hash s \<noteq> '''' then
      (case parse (location_hash s) of Inl e \<Rightarrow> (Some e, s) | Inr v \<Rightarrow> go_to_hash envs F X t (s\<lparr>hash_commands := v\<rparr>))
      else go_to_hash envs F X t (s\<lparr>hash_commands := JArr []\<rparr>)))"
    using go by (simp split: sum.split)
  then show ?thesis unfolding hash_changed_def Let_def by (simp only: shown typed_refl split: if_split) simp
qed

text \<open>
  What can happen to the terminals of a page and their views: methods of a terminal, saving a state, importing a
  view that was exported, a change of the hash.
\<close>

inductive tab_step :: "(nat \<Rightarrow> t_env) \<Rightarrow> tab \<Rightarrow> tab \<Rightarrow> bool" for envs where
  run: "tab_step envs s (snd (in_tab t m s))"
| save: "tab_step envs s (snd (save_state envs t c i s))"
| import_saved: "v \<in> set (saved s) \<Longrightarrow> tab_step envs s (snd (import_view envs F t v s))"
| hash: "tab_step envs s (hash_changed envs F (\<lambda>t v. in_tab t (M t v)) parse u s)"
| timer: "tab_step envs s (hash_timer s)"

lemma tab_step_ok: "tab_step envs s s' \<Longrightarrow> tab_ok s \<Longrightarrow> tab_ok s'"
proof (induction rule: tab_step.induct)
  case (import_saved v s F t)
  then have "v_stack v < next_stack s" by (simp add: tab_ok_def)
  from typed_import [OF this] import_saved show ?case by (simp add: typed_step_def)
next
  case (save s t c i)
  then show ?case using typed_save [of s envs t c i] by (simp add: typed_step_def)
next
  case (hash s F M parse u)
  then show ?case using typed_hash [OF hash, of "\<lambda>t v. in_tab t (M t v)"] typed_in_tab by (simp add: typed_step_def)
next
  case (timer s)
  then show ?case by (simp add: hash_timer_def tab_ok_def)
qed (simp_all add: in_tab_ok)


section \<open>What a view brings back\<close>

lemma write_objs_other: "r \<notin> set rs \<Longrightarrow> write_objs rs xs h r = h r"
  by (induction rs xs h rule: write_objs.induct) simp_all

lemma map_write_objs: "distinct rs \<Longrightarrow> length rs = length xs \<Longrightarrow> map (write_objs rs xs h) rs = xs"
proof (induction rs xs h rule: write_objs.induct)
  case (1 r rs x xs h)
  have "map ((write_objs rs xs h)(r := x)) rs = map (write_objs rs xs h) rs"
    using 1 by (intro map_cong) auto
  also have "\<dots> = xs" using 1 by simp
  finally show ?case by (simp add: fun_upd_def)
qed simp_all

lemma load_store:
  assumes "tab_ok s" shows "load t (store_back t st s) = st"
proof -
  let ?xs = "stack_data (interpreters st)" and ?r = "stacks s (cur s t)"
  let ?r' = "take (length ?xs) ?r @ [next_obj s..<next_obj s + (length ?xs - length ?r)]"
  have "distinct ?r'" using assms refs_ok(1) [of ?r "next_obj s"] by (simp add: tab_ok_def)
  moreover have "length ?r' = length ?xs" by simp
  ultimately have "map (write_objs ?r' ?xs (objs s)) ?r' = ?xs" by (rule map_write_objs)
  then show ?thesis by (simp add: load_def store_back_def Let_def)
qed

lemma load_in_tab: "tab_ok s \<Longrightarrow> load t (snd (in_tab t m s)) = snd (m (load t s))" "fst (in_tab t m s) = fst (m (load t s))"
  by (simp_all add: in_tab_def Let_def split_beta load_store)

text \<open>A method that leaves the number of interpreters leaves all the addresses.\<close>

lemma in_tab_refs:
  assumes "length (stack_data (interpreters (snd (m (load t s))))) = length (stacks s (cur s t))"
  shows "stacks (snd (in_tab t m s)) = stacks s" "cur (snd (in_tab t m s)) = cur s"
    "r \<notin> set (stacks s (cur s t)) \<Longrightarrow> objs (snd (in_tab t m s)) r = objs s r"
  using assms by (simp_all add: in_tab_def Let_def split_beta store_back_def write_objs_other)

text \<open>Drawing lines again that were echoed before runs no command.\<close>

definition drawn :: "out_env \<Rightarrow> (line \<times> echo_opts) list \<Rightarrow> bool" where
  "drawn oe ls \<longleftrightarrow> (\<forall>(l, opts)\<in>set ls. \<not> lo_exec opts)"

lemma caught_sel [simp]: "out.more (caught (buffer_line oe u opts st)) = out.more st"
    "lines (caught (buffer_line oe u opts st)) = lines st"
  by (auto simp: caught_def buffer_line_def Let_def split: prod.split sum.split option.split)

lemma process_line_drawn:
  assumes "\<not> lo_exec opts"
  shows "out.more (process_line oe run skip l opts st) = out.more st" "lines (process_line oe run skip l opts st) = lines st"
  using assms by (auto simp: process_line_def Let_def split: sum.split) (simp_all add: caught_def)

lemma redraw_lines_drawn:
  assumes "drawn oe (lines st)"
  shows "out.more (redraw_lines oe run st) = out.more st" "lines (redraw_lines oe run st) = lines st"
proof -
  have f: "out.more (fold (\<lambda>(l, opts). process_line oe run (skip_call oe) l opts) ls st) = out.more st \<and>
      lines (fold (\<lambda>(l, opts). process_line oe run (skip_call oe) l opts) ls st) = lines st" if "drawn oe ls" for ls st
    using that by (induction ls arbitrary: st) (auto simp: drawn_def process_line_drawn)
  have "set (lines_to_show oe st) \<subseteq> set (lines st)"
    by (auto simp: lines_to_show_def slice_from_def dest: in_set_dropD)
  then have d: "drawn oe (lines_to_show oe st)" using assms by (auto simp: drawn_def)
  have fl: "out.more (flush oe st) = out.more st \<and> lines (flush oe st) = lines st" for st :: "'a out_scheme"
    by (auto simp: flush_def limit_rows_def Let_def split: prod.split)
  show "out.more (redraw_lines oe run st) = out.more st" "lines (redraw_lines oe run st) = lines st"
    unfolding redraw_lines_def using f [OF d] fl by simp_all
qed

lemma write_objs_map: "write_objs rs (map h' rs) h r = (if r \<in> set rs then h' r else h r)"
  by (induction rs) simp_all

lemma load_sel [simp]:
  "command_line (load t s) = command_line (shells s t)" "lines (load t s) = lines (shells s t)"
  "stack_list (load t s) = map (objs s) (stacks s (cur s t))" "in_login (load t s) = in_login (shells s t)"
  by (simp_all add: load_def stack_list_def)

lemma in_tab_same:
  assumes "interpreters (snd (m (load t s))) = interpreters (load t s)"
  shows "stacks (snd (in_tab t m s)) = stacks s" "cur (snd (in_tab t m s)) = cur s" "objs (snd (in_tab t m s)) = objs s"
    "shells (snd (in_tab t m s)) t = snd (m (load t s))" "next_stack (snd (in_tab t m s)) = next_stack s"
  using assms by (auto simp: in_tab_def Let_def split_beta store_back_def load_def write_objs_map fun_eq_iff)

lemma set_prompt_ok:
  assumes "stack_list st \<noteq> []"
  shows "set_prompt env p st = (None, st\<lparr>command_line := cmd_set_prompt (cmd_opts env) p (command_line st),
    interpreters := (interpreters st)\<lparr>stack_data := (stack_list st)[length (stack_list st) - 1 := (last (stack_list st))\<lparr>i_prompt := p\<rparr>]\<rparr>\<rparr>)"
  using assms by (auto simp: set_prompt_def stack_list_def Let_def intro!: guarded_None)

lemma map_update_last: "distinct rs \<Longrightarrow> rs \<noteq> [] \<Longrightarrow> (map h rs)[length rs - Suc 0 := x] = map (h(last rs := x)) rs"
  by (cases rs rule: rev_cases) (auto simp: list_update_append)

lemma in_tab_prompt:
  fixes env :: t_env and p :: prompt
  assumes "tab_ok s" "stacks s (cur s t) \<noteq> []"
  defines "r \<equiv> last (stacks s (cur s t))" and "s' \<equiv> snd (in_tab t (set_prompt env p) s)"
  shows "stacks s' = stacks s" "cur s' = cur s" "objs s' = (objs s)(r := (objs s r)\<lparr>i_prompt := p\<rparr>)" "next_stack s' = next_stack s"
    "command_line (shells s' t) = cmd_set_prompt (cmd_opts env) p (command_line (shells s t))" "tab_ok s'"
    "in_login (shells s' t) = in_login (shells s t)" "fst (in_tab t (set_prompt env p) s) = None"
proof -
  let ?r = "stacks s (cur s t)"
  have d: "distinct ?r" using assms(1) by (simp add: tab_ok_def)
  let ?i = "\<lparr>stack_data = map ((objs s)(r := (objs s r)\<lparr>i_prompt := p\<rparr>)) ?r\<rparr>"
  have u: "(map (objs s) ?r)[length ?r - 1 := (last (map (objs s) ?r))\<lparr>i_prompt := p\<rparr>] = map ((objs s)(r := (objs s r)\<lparr>i_prompt := p\<rparr>)) ?r"
    using map_update_last [OF d assms(2), of "objs s"] assms(2) by (simp add: r_def last_map)
  have ne: "stack_list (load t s) \<noteq> []" using assms(2) by simp
  have i: "interpreters (load t s) = \<lparr>stack_data = map (objs s) ?r\<rparr>" by (simp add: load_def)
  have m: "set_prompt env p (load t s) = (None, (load t s)\<lparr>command_line := cmd_set_prompt (cmd_opts env) p (command_line (load t s)), interpreters := ?i\<rparr>)"
    unfolding set_prompt_ok [OF ne] load_sel i length_map u by simp
  have r: "r \<in> set ?r" using assms(2) by (simp add: r_def)
  show "stacks s' = stacks s" "cur s' = cur s" "objs s' = (objs s)(r := (objs s r)\<lparr>i_prompt := p\<rparr>)" "next_stack s' = next_stack s"
    "command_line (shells s' t) = cmd_set_prompt (cmd_opts env) p (command_line (shells s t))" "tab_ok s'"
    "in_login (shells s' t) = in_login (shells s t)" "fst (in_tab t (set_prompt env p) s) = None"
    using r in_tab_ok(1) [OF assms(1), of t "set_prompt env p"]
    by (auto simp: s'_def in_tab_def m store_back_def Let_def write_objs_map fun_eq_iff)
qed

text \<open>A whole import when no login is going on.\<close>

definition enables :: "terminal meth" where
  "enables st = (None, enable st)"

definition restored :: "t_env \<Rightarrow> view \<Rightarrow> cmd \<Rightarrow> cmd" where
  "restored env v c = cmd_set_mask (v_mask v) (cmd_position (cmd_opts env) (v_position v) False
     (cmd_set (cmd_opts env) (Some (v_command v)) False (cmd_set_prompt (cmd_opts env) (v_prompt v) c)))"

lemma import_ok:
  assumes "tab_ok s" "\<not> in_login (shells s t)" "stacks s (cur s t) \<noteq> []" "drawn (t_out (envs t)) (v_lines v)" "v_stack v < next_stack s"
  defines "r \<equiv> last (stacks s (cur s t))"
  obtains s' where "import_view envs enables t v s = (None, s')" "cur s' t = v_stack v" "stacks s' = stacks s"
    "objs s' = (objs s)(r := (objs s r)\<lparr>i_prompt := v_prompt v\<rparr>)" "lines (shells s' t) = v_lines v"
    "command_line (shells s' t) \<in> {restored (envs t) v (command_line (shells s t)), cmd_enable (restored (envs t) v (command_line (shells s t)))}"
    "tab_ok s'" "in_login (shells s' t) = in_login (shells s t)" "next_stack s' = next_stack s"
proof -
  let ?c = "command_line (shells s t)" and ?opts = "cmd_opts (envs t)"
  define s1 where "s1 = snd (in_tab t (set_prompt (envs t) (v_prompt v)) s)"
  note p = in_tab_prompt [OF assms(1,3), of "envs t" "v_prompt v", folded r_def s1_def]
  define m :: "terminal meth" where "m = (\<lambda>st. (None, st\<lparr>command_line := cmd_set_mask (v_mask v)
                (cmd_position ?opts (v_position v) False (cmd_set ?opts (Some (v_command v)) False (command_line st)))\<rparr>))"
  define s2 where "s2 = snd (in_tab t m s1)"
  have i2: "interpreters (snd (m (load t s1))) = interpreters (load t s1)" by (simp add: m_def)
  note q = in_tab_same [where m = m and t = t and s = s1, OF i2, folded s2_def] in_tab_ok(1) [OF p(6), of t m, folded s2_def]
  define s3 where "s3 = (if v_focus v then snd (in_tab t enables s2) else s2)"
  have i3: "interpreters (snd (enables (load t s2))) = interpreters (load t s2)" by (simp add: enables_def enable_def)
  note e = in_tab_same [where m = enables and t = t and s = s2, OF i3] in_tab_ok(1) [OF q(6), of t enables]
  have c2: "command_line (shells s2 t) = restored (envs t) v ?c" "in_login (shells s2 t) = in_login (shells s t)"
    using q(4) p(5,7) by (simp_all add: m_def restored_def)
  have c3: "command_line (shells s3 t) \<in> {restored (envs t) v ?c, cmd_enable (restored (envs t) v ?c)}" "in_login (shells s3 t) = in_login (shells s t)"
    using e(4) c2 by (simp_all add: s3_def enables_def enable_def)
  have s3: "stacks s3 = stacks s" "objs s3 = (objs s)(r := (objs s r)\<lparr>i_prompt := v_prompt v\<rparr>)" "next_stack s3 = next_stack s" "tab_ok s3"
    using p(1-4) q e by (simp_all add: s3_def)
  define s4 where "s4 = s3\<lparr>shells := (shells s3)(t := (shells s3 t)\<lparr>lines := v_lines v\<rparr>), cur := (cur s3)(t := v_stack v)\<rparr>"
  have t4: "tab_ok s4" using s3(3,4) assms(5) by (auto simp: tab_ok_def s4_def)
  define d :: "terminal meth" where "d = (\<lambda>st. (None, redraw_lines (t_out (envs t)) (extended (envs t)) st))"
  have dr: "drawn (t_out (envs t)) (lines (load t s4))" using assms(4) by (simp add: s4_def)
  have more: "out.more (snd (d (load t s4))) = out.more (load t s4)" "lines (snd (d (load t s4))) = v_lines v"
    using redraw_lines_drawn [OF dr] by (simp_all add: d_def) (simp add: s4_def)
  have i5: "interpreters (snd (d (load t s4))) = interpreters (load t s4)" using more_sel [OF more(1)] by simp
  note f = in_tab_same [where m = d and t = t and s = s4, OF i5] in_tab_ok(1) [OF t4, of t d]
  have c: "command_line (snd (d (load t s4))) = command_line (shells s3 t)" "in_login (snd (d (load t s4))) = in_login (shells s3 t)"
    using more_sel [OF more(1)] by (simp_all add: s4_def)
  have run: "import_view envs enables t v s = (None, snd (in_tab t d s4))"
  proof -
    have n: "in_tab t (set_prompt (envs t) (v_prompt v)) s = (None, s1)" using p(8) by (metis prod.collapse s1_def)
    have n3: "(if v_focus v then in_tab t enables s2 else (None, s2)) = (None, s3)"
      by (simp add: in_tab_def enables_def s3_def)
    have n5: "in_tab t d s4 = (None, snd (in_tab t d s4))" by (simp add: in_tab_def d_def)
    show ?thesis
      unfolding import_view_def guarded_tab_def Let_def m_def [symmetric] d_def [symmetric] if_not_P [OF assms(2)] n and_then_simps
        s2_def [symmetric] n3 s4_def [symmetric]
      by (subst (1) n5) (simp only: prod.case option.case)
  qed
  show ?thesis
  proof (rule that [OF run])
    show "cur (snd (in_tab t d s4)) t = v_stack v" unfolding f(2) by (simp add: s4_def)
    show "stacks (snd (in_tab t d s4)) = stacks s" unfolding f(1) by (simp add: s4_def s3)
    show "objs (snd (in_tab t d s4)) = (objs s)(r := (objs s r)\<lparr>i_prompt := v_prompt v\<rparr>)" unfolding f(3) by (simp add: s4_def s3)
    show "lines (shells (snd (in_tab t d s4)) t) = v_lines v" unfolding f(4) by (rule more(2))
    show "command_line (shells (snd (in_tab t d s4)) t) \<in> {restored (envs t) v ?c, cmd_enable (restored (envs t) v ?c)}"
      unfolding f(4) c(1) by (rule c3(1))
    show "tab_ok (snd (in_tab t d s4))" by (rule f(6))
    show "in_login (shells (snd (in_tab t d s4)) t) = in_login (shells s t)" unfolding f(4) c(2) by (rule c3(2))
    show "next_stack (snd (in_tab t d s4)) = next_stack s" unfolding f(5) by (simp add: s4_def s3)
  qed
qed

lemma restored_sel:
  "command (restored env v c) = v_command v" "mask (restored env v c) = v_mask v" "prompt (restored env v c) = v_prompt v"
  "0 \<le> v_position v \<Longrightarrow> v_position v \<le> int (length (v_command v)) \<Longrightarrow> position (restored env v c) = v_position v"
  by (auto simp: restored_def cmd_set_mask_def cmd_position_def cmd_set_def fire_change_command_def fake_mobile_entry_def
      log_call_def Let_def split: option.split)

lemma cmd_enable_sel:
  "command (cmd_enable c) = command c" "position (cmd_enable c) = position c" "mask (cmd_enable c) = mask c" "prompt (cmd_enable c) = prompt c"
  by (simp_all add: cmd_enable_def)

text \<open>
  C5: a view brings back what it was taken from. As long as the interpreters of the view have not been changed since
  (and the one on top now is none of those below the top of the view), \<open>import_view\<close> restores the interpreters, the
  lines, the command with the cursor, the mask and the prompt.
\<close>

theorem view_restored:
  assumes "export_view t s0 = (Inr v, s0')" "tab_ok s1" "v_stack v < next_stack s1"
    and "stacks s1 (v_stack v) = stacks s0 (cur s0 t)" "\<forall>r\<in>set (stacks s0 (cur s0 t)). objs s1 r = objs s0 r"
    and "\<not> in_login (shells s1 t)" "stacks s1 (cur s1 t) \<noteq> []"
    and "last (stacks s1 (cur s1 t)) \<in> set (stacks s0 (cur s0 t)) \<longrightarrow> last (stacks s1 (cur s1 t)) = last (stacks s0 (cur s0 t))"
    and "0 \<le> position (command_line (load t s0))" "position (command_line (load t s0)) \<le> int (length (command (command_line (load t s0))))"
    and "drawn (t_out (envs t)) (lines (load t s0))"
  shows "\<exists>s2. import_view envs enables t v s1 = (None, s2) \<and>
    (let st0 = load t s0; c0 = command_line st0; st = load t s2; c = command_line st
     in stack_list st = stack_list st0 \<and> lines st = lines st0 \<and> command c = command c0 \<and> position c = position c0 \<and>
        mask c = mask c0 \<and> prompt c = i_prompt (last (stack_list st0)))"
proof -
  have ne: "stacks s0 (cur s0 t) \<noteq> []"
    using assms(1) by (auto simp: export_view_def stack_top_list split: option.splits)
  then have v: "v_prompt v = i_prompt (last (stack_list (load t s0)))" "v_lines v = lines (shells s0 t)" "v_command v = command (command_line (shells s0 t))"
    "v_position v = position (command_line (shells s0 t))" "v_mask v = mask (command_line (shells s0 t))"
    using assms(1) by (auto simp: export_view_def stack_top_list Let_def split: option.splits prod.splits)
  let ?r = "last (stacks s1 (cur s1 t))"
  have d: "drawn (t_out (envs t)) (v_lines v)" using assms(11) v by simp
  obtain s2 where i: "import_view envs enables t v s1 = (None, s2)" "cur s2 t = v_stack v" "stacks s2 = stacks s1"
    "objs s2 = (objs s1)(?r := (objs s1 ?r)\<lparr>i_prompt := v_prompt v\<rparr>)" "lines (shells s2 t) = v_lines v"
    "command_line (shells s2 t) \<in> {restored (envs t) v (command_line (shells s1 t)), cmd_enable (restored (envs t) v (command_line (shells s1 t)))}"
    by (rule import_ok [where envs = envs and t = t and v = v and s = s1, OF assms(2,6,7) d assms(3)])
  have "objs s2 r = objs s0 r" if "r \<in> set (stacks s0 (cur s0 t))" for r
  proof (cases "r = ?r")
    case True
    then have l: "r = last (stacks s0 (cur s0 t))" using assms(8) that by simp
    have "i_prompt (objs s0 r) = v_prompt v" using v(1) l ne by (simp add: last_map)
    then show ?thesis using i(4) assms(5) that True by (metis (no_types) fun_upd_same intrp.surjective intrp.update_convs(3) intrp.select_convs(3))
  next
    case False
    then show ?thesis using i(4) assms(5) that by simp
  qed
  then have "stack_list (load t s2) = stack_list (load t s0)" using i(2,3) assms(4) by simp
  moreover have "position (restored (envs t) v (command_line (shells s1 t))) = v_position v"
    using assms(9,10) v by (intro restored_sel) simp_all
  ultimately show ?thesis
    using i(1,5,6) v by (auto simp: Let_def restored_sel cmd_enable_sel)
qed

text \<open>
  C38: going back and forth mixes up the prompts. \<open>import_view\<close> gives the prompt of the view to the interpreter that
  is on top before it changes the stack, and the views share the interpreters: after going from a nested interpreter
  back to a view of the first one and forth again each of the two has the prompt of the other.
\<close>

theorem views_swap_prompts:
  assumes "tab_ok s" "\<not> in_login (shells s t)" "stacks s (cur s t) = [a, b]" "stacks s (v_stack v) = [a]" "stacks s (v_stack w) = [a, b]"
    and "v_stack v < next_stack s" "v_stack w < next_stack s" "drawn (t_out (envs t)) (v_lines v)" "drawn (t_out (envs t)) (v_lines w)"
  shows "\<exists>s1 s2. import_view envs enables t v s = (None, s1) \<and> import_view envs enables t w s1 = (None, s2) \<and>
    map i_prompt (stack_list (load t s2)) = [v_prompt w, v_prompt v]"
proof -
  have ne: "stacks s (cur s t) \<noteq> []" using assms(3) by simp
  obtain s1 where i1: "import_view envs enables t v s = (None, s1)" "cur s1 t = v_stack v" "stacks s1 = stacks s"
    "objs s1 = (objs s)(last (stacks s (cur s t)) := (objs s (last (stacks s (cur s t))))\<lparr>i_prompt := v_prompt v\<rparr>)"
    "tab_ok s1" "in_login (shells s1 t) = in_login (shells s t)" "next_stack s1 = next_stack s"
    by (rule import_ok [where envs = envs and t = t and v = v and s = s, OF assms(1,2) ne assms(8,6)])
  have o1: "objs s1 = (objs s)(b := (objs s b)\<lparr>i_prompt := v_prompt v\<rparr>)" using i1(4) assms(3) by simp
  have c1: "stacks s1 (cur s1 t) = [a]" using i1(2,3) assms(4) by simp
  have l1: "\<not> in_login (shells s1 t)" and ne1: "stacks s1 (cur s1 t) \<noteq> []" and w: "v_stack w < next_stack s1"
    using i1(6,7) assms(2,7) c1 by simp_all
  obtain s2 where i2: "import_view envs enables t w s1 = (None, s2)" "cur s2 t = v_stack w" "stacks s2 = stacks s1"
    "objs s2 = (objs s1)(last (stacks s1 (cur s1 t)) := (objs s1 (last (stacks s1 (cur s1 t))))\<lparr>i_prompt := v_prompt w\<rparr>)"
    by (rule import_ok [where envs = envs and t = t and v = w and s = s1, OF i1(5) l1 ne1 assms(9) w])
  have o2: "objs s2 = (objs s1)(a := (objs s1 a)\<lparr>i_prompt := v_prompt w\<rparr>)" using i2(4) c1 by simp
  have ab: "a \<noteq> b"
    using assms(1,3) by (auto simp: tab_ok_def) (metis distinct_length_2_or_more)
  have "map i_prompt (stack_list (load t s2)) = [v_prompt w, v_prompt v]"
    using i2(2,3) i1(3) assms(5) o1 o2 ab by simp
  then show ?thesis using i1(1) i2(1) by (intro exI conjI)
qed

section \<open>A nested interpreter and two views\<close>

definition two_views :: "view list" where
  "two_views = [\<lparr>v_focus = True, v_mask = MaskBool False, v_prompt = PromptStr ''> '', v_command = '''', v_position = 0, v_lines = [], v_stack = 1\<rparr>,
                \<lparr>v_focus = True, v_mask = MaskBool False, v_prompt = PromptStr ''sql> '', v_command = '''', v_position = 0, v_lines = [], v_stack = 2\<rparr>]"

definition nested_tab :: tab where
  "nested_tab = \<lparr>order = [0], shells = (\<lambda>_. small_terminal), cur = (\<lambda>_. 0),
     objs = (\<lambda>r. if r = 0 then base_intrp else base_intrp\<lparr>i_prompt := PromptStr ''sql> ''\<rparr>), next_obj = 2,
     stacks = (\<lambda>k. if k = 1 then [0] else [0, 1]), next_stack = 3, saved = two_views, hash_commands = JArr [], location_hash = '''',
     change_hash = True, fire_hash_change = True\<rparr>"

lemma nested_ok: "tab_ok nested_tab"
  by (auto simp: tab_ok_def nested_tab_def two_views_def)

theorem views_swap_prompts_witness:
  "\<exists>s1 s2. import_view (\<lambda>_. small_env) enables 0 (two_views ! 0) nested_tab = (None, s1) \<and>
     import_view (\<lambda>_. small_env) enables 0 (two_views ! 1) s1 = (None, s2) \<and>
     map i_prompt (stack_list (load 0 s2)) = [PromptStr ''sql> '', PromptStr ''> '']"
proof -
  have "\<not> in_login (shells nested_tab 0)" "stacks nested_tab (cur nested_tab 0) = [0, 1]" "stacks nested_tab (v_stack (two_views ! 0)) = [0]"
    "stacks nested_tab (v_stack (two_views ! 1)) = [0, 1]" "v_stack (two_views ! 0) < next_stack nested_tab" "v_stack (two_views ! 1) < next_stack nested_tab"
    "drawn (t_out small_env) (v_lines (two_views ! 0))" "drawn (t_out small_env) (v_lines (two_views ! 1))"
    by (simp_all add: nested_tab_def two_views_def small_terminal_def drawn_def)
  from views_swap_prompts [OF nested_ok this(1-6), of "\<lambda>_. small_env"] this(7,8)
  show ?thesis by (simp add: two_views_def)
qed


theorem view_restored_witness:
  "\<exists>v s0' s2. export_view 0 nested_tab = (Inr v, s0') \<and> import_view (\<lambda>_. small_env) enables 0 v s0' = (None, s2) \<and>
     map i_prompt (stack_list (load 0 s2)) = [PromptStr ''> '', PromptStr ''sql> '']"
proof -
  obtain v s0' where e: "export_view 0 nested_tab = (Inr v, s0')"
    by (auto simp: export_view_def nested_tab_def stack_top_list Let_def stack_copy_def split: option.split)
  have s: "s0' = snd (stack_copy 0 nested_tab)" "v_stack v = 3"
    using e by (auto simp: export_view_def nested_tab_def stack_top_list Let_def stack_copy_def split: option.splits)
  have "tab_ok s0'" unfolding s(1) by (rule stack_copy_ok [OF nested_ok])
  moreover have "v_stack v < next_stack s0'" "stacks s0' (v_stack v) = stacks nested_tab (cur nested_tab 0)"
    "\<forall>r\<in>set (stacks nested_tab (cur nested_tab 0)). objs s0' r = objs nested_tab r" "\<not> in_login (shells s0' 0)"
    "stacks s0' (cur s0' 0) = stacks nested_tab (cur nested_tab 0)" "stacks nested_tab (cur nested_tab 0) \<noteq> []"
    using s by (simp_all add: stack_copy_def nested_tab_def small_terminal_def)
  moreover have "position (command_line (load 0 nested_tab)) = 0" "drawn (t_out small_env) (lines (load 0 nested_tab))"
    by (code_simp, simp add: nested_tab_def small_terminal_def drawn_def)
  moreover have "stack_list (load 0 nested_tab) = [base_intrp, base_intrp\<lparr>i_prompt := PromptStr ''sql> ''\<rparr>]"
    by (simp add: nested_tab_def)
  ultimately show ?thesis
    using view_restored [OF e, of s0' "\<lambda>_. small_env"] e by (auto simp: Let_def base_intrp_def)
qed

end
