(* ===== verification/Sprintf.thy ===== *)
theory Sprintf
  imports Text_Tools "HOL-Library.Word"
begin

text \<open>
  \<open>sprintf\<close>: \<open>parse\<close> cuts the format into texts and placeholders by regular expressions, \<open>format\<close> puts in the
  arguments. Numbers are integers; what \<open>toExponential\<close> writes is the parameter \<open>exponential\<close>, and \<open>toFixed\<close> throws
  above the number of digits \<open>fixed_limit\<close>. A text of \<open>%c\<close> is one character.
\<close>

section \<open>The parts of a format\<close>

record place =
  p_index :: "nat option"          \<comment> \<open>\<open>match[1]\<close>\<close>
  p_names :: "string list option"  \<comment> \<open>\<open>match[2]\<close>, split into fields\<close>
  p_plus :: bool
  p_pad :: "string option"
  p_left :: bool
  p_width :: "nat option"
  p_prec :: "nat option"
  p_conv :: char

datatype node = TextNode string | PlaceNode place

section \<open>parse\<close>

definition run_re :: re where \<comment> \<open>\<open>/^[^\x25]+/\<close>\<close>
  "run_re = Seq Bol (Plus (none_of ''%''))"

definition percent_re :: re where \<comment> \<open>\<open>/^\x25{2}/\<close>\<close>
  "percent_re = Seq Bol (Lit ''%%'')"

text \<open>\<open>/^\x25(?:([1-9]\d*)\$|\(([^\)]+)\))?(\+)?(0|'[^$])?(-)?(\d+)?(?:\.(\d+))?([b-fosuxX])/\<close>\<close>

definition place_re :: re where
  "place_re = Seq Bol (Seq (Chr CHR ''%'')
     (Seq (Opt (Alt (Seq (Grp 1 (Seq (one_of ''123456789'') (Star (Cls digit_char)))) (Chr CHR ''$''))
                    (Seq (Chr CHR ''('') (Seq (Grp 2 (Plus (none_of '')''))) (Chr CHR '')'')))))
     (Seq (Opt (Grp 3 (Chr CHR ''+'')))
     (Seq (Opt (Grp 4 (Alt (Chr CHR ''0'') (Seq (Chr CHR 0x27) (none_of ''$'')))))
     (Seq (Opt (Grp 5 (Chr CHR ''-'')))
     (Seq (Opt (Grp 6 (Plus (Cls digit_char))))
     (Seq (Opt (Seq (Chr CHR ''.'') (Grp 7 (Plus (Cls digit_char)))))
       (Grp 8 (one_of ''bcdefosuxX'')))))))))"

definition ident_re :: re where \<comment> \<open>\<open>[a-z_][a-z_\d]*\<close> with the flag \<open>i\<close>\<close>
  "ident_re = Seq (Cls (\<lambda>c. alpha_char c \<or> c = CHR ''_'')) (Star (Cls (\<lambda>c. alpha_char c \<or> c = CHR ''_'' \<or> digit_char c)))"

definition first_field_re :: re where "first_field_re = Seq Bol (Grp 1 ident_re)"

definition dot_field_re :: re where "dot_field_re = Seq Bol (Seq (Chr CHR ''.'') (Grp 1 ident_re))"

definition index_field_re :: re where
  "index_field_re = Seq Bol (Seq (Chr CHR ''['') (Seq (Grp 1 (Plus (Cls digit_char))) (Chr CHR '']'')))"

definition huh :: js_error where "huh = Throw ''[sprintf] huh?''"

text \<open>What is left of the text behind a match.\<close>

definition after_match :: "string \<Rightarrow> found \<Rightarrow> string" where
  "after_match s m = drop (length (found_text s m)) s"

text \<open>Each pass of the loop takes a character or more, so the length of the text bounds the passes.\<close>

fun fields :: "nat \<Rightarrow> string \<Rightarrow> js_error + string list" where
  "fields 0 s = Inr []"
| "fields (Suc n) s =
     (if s = '''' then Inr []
      else
        (case (case search dot_field_re s 0 of Some m \<Rightarrow> Some m | None \<Rightarrow> search index_field_re s 0) of
           None \<Rightarrow> Inl huh
         | Some m \<Rightarrow>
             (case fields n (after_match s m) of Inl e \<Rightarrow> Inl e | Inr fs \<Rightarrow> Inr (cap_text 1 m # fs))))"

definition field_list :: "string \<Rightarrow> js_error + string list" where
  "field_list s =
     (case search first_field_re s 0 of
        None \<Rightarrow> Inl huh
      | Some m \<Rightarrow>
          (case fields (length s) (after_match s m) of Inl e \<Rightarrow> Inl e | Inr fs \<Rightarrow> Inr (cap_text 1 m # fs)))"

definition place_of :: "found \<Rightarrow> js_error + place" where
  "place_of m =
     (let p = (\<lambda>names. \<lparr>p_index = map_option (read_nat 0) (found_cap 1 m), p_names = names, p_plus = (found_cap 3 m \<noteq> None),
                 p_pad = found_cap 4 m, p_left = (found_cap 5 m \<noteq> None), p_width = map_option (read_nat 0) (found_cap 6 m),
                 p_prec = map_option (read_nat 0) (found_cap 7 m), p_conv = hd (cap_text 8 m)\<rparr>)
      in case found_cap 2 m of
           None \<Rightarrow> Inr (p None)
         | Some s \<Rightarrow> (case field_list s of Inl e \<Rightarrow> Inl e | Inr fs \<Rightarrow> Inr (p (Some fs))))"

text \<open>\<open>named\<close> and \<open>positional\<close> are the two bits of \<open>arg_names\<close>.\<close>

fun parse_fmt :: "nat \<Rightarrow> string \<Rightarrow> bool \<Rightarrow> bool \<Rightarrow> js_error + node list" where
  "parse_fmt 0 s named positional = Inr []"
| "parse_fmt (Suc n) s named positional =
     (let continue_with = (\<lambda>x m nm pos. case parse_fmt n (after_match s m) nm pos of Inl e \<Rightarrow> Inl e | Inr xs \<Rightarrow> Inr (x # xs))
      in if s = '''' then Inr []
         else (case search run_re s 0 of
           Some m \<Rightarrow> continue_with (TextNode (found_text s m)) m named positional
         | None \<Rightarrow>
             (case search percent_re s 0 of
                Some m \<Rightarrow> continue_with (TextNode ''%'') m named positional
              | None \<Rightarrow>
                  (case search place_re s 0 of
                     None \<Rightarrow> Inl huh
                   | Some m \<Rightarrow>
                       (case place_of m of
                          Inl e \<Rightarrow> Inl e
                        | Inr p \<Rightarrow>
                            (let nm = (named \<or> p_names p \<noteq> None); pos = (positional \<or> p_names p = None)
                             in if nm \<and> pos then
                                  Inl (Throw ''[sprintf] mixing positional and named placeholders is not (yet) supported'')
                                else continue_with (PlaceNode p) m nm pos))))))"

definition parse :: "string \<Rightarrow> js_error + node list" where
  "parse s = parse_fmt (length s) s False False"

section \<open>format\<close>

record s_env =
  exponential :: "int \<Rightarrow> nat option \<Rightarrow> string"
  fixed_limit :: nat

fun get_type :: "jsval \<Rightarrow> string" where
  "get_type JUndef = ''undefined''"
| "get_type JNull = ''null''"
| "get_type (JBool b) = ''boolean''"
| "get_type (JNum i) = ''number''"
| "get_type (JStr s) = ''string''"
| "get_type (JArr xs) = ''array''"
| "get_type (JObj ps) = ''object''"
| "get_type (JFun src) = ''function''"

text \<open>\<open>arg.hasOwnProperty(k)\<close> and \<open>arg[k]\<close>: \<^const>\<open>None\<close> when there is no such property.\<close>

definition own_prop :: "jsval \<Rightarrow> string \<Rightarrow> jsval option" where
  "own_prop v k =
     (case v of
        JArr xs \<Rightarrow> (if k = ''length'' then Some (JNum (int (length xs))) else map_of (own_props v) k)
      | JStr s \<Rightarrow> (if k = ''length'' then Some (JNum (int (length s)))
                  else map_of (zip (map show_nat [0..<length s]) (map (\<lambda>c. JStr [c]) s)) k)
      | _ \<Rightarrow> map_of (own_props v) k)"

fun follow :: "jsval \<Rightarrow> string list \<Rightarrow> js_error + jsval" where
  "follow v [] = Inr v"
| "follow v (k # ks) =
     (if v = JUndef \<or> v = JNull then Inl TypeError
      else
        (case own_prop v k of
           None \<Rightarrow> Inl (Throw (''[sprintf] property '' @ [CHR 0x22] @ k @ [CHR 0x22] @ '' does not exist''))
         | Some w \<Rightarrow> follow w ks))"

definition base_digit :: "nat \<Rightarrow> char" where
  "base_digit n = (if n < 10 then digit n else char_of (87 + n))"

function show_base :: "nat \<Rightarrow> nat \<Rightarrow> string" where
  "show_base b n = (if b < 2 \<or> n < b then [base_digit n] else show_base b (n div b) @ [base_digit (n mod b)])"
  by auto
termination by (relation "measure snd") auto

declare show_base.simps [simp del]

definition show_in :: "nat \<Rightarrow> int \<Rightarrow> string" where \<comment> \<open>\<open>toString(b)\<close>\<close>
  "show_in b i = (if i < 0 then CHR ''-'' # show_base b (nat (- i)) else show_base b (nat i))"

definition upper :: "char \<Rightarrow> char" where
  "upper c = (if CHR ''a'' \<le> c \<and> c \<le> CHR ''z'' then char_of (of_char c - (32 :: nat)) else c)"

definition to_uint32 :: "int \<Rightarrow> int" where \<comment> \<open>\<open>n >>> 0\<close>\<close>
  "to_uint32 n = uint (word_of_int n :: 32 word)"

definition fixed :: "s_env \<Rightarrow> int \<Rightarrow> nat \<Rightarrow> js_error + string" where \<comment> \<open>\<open>toFixed\<close>\<close>
  "fixed env i d =
     (if d > fixed_limit env then Inl (Throw ''toFixed() digits argument out of range'')
      else Inr (show_int i @ (if d = 0 then '''' else ''.'' @ replicate d CHR ''0'')))"

text \<open>The argument as the conversion character makes it a text, with its sign.\<close>

definition number_text :: "s_env \<Rightarrow> place \<Rightarrow> int \<Rightarrow> js_error + string" where
  "number_text env p i =
     (let c = p_conv p
      in if c = CHR ''b'' then Inr (show_in 2 i)
         else if c = CHR ''c'' then Inr [char_of (nat (i mod 65536))]
         else if c = CHR ''d'' then Inr (show_int i)
         else if c = CHR ''e'' then Inr (exponential env i (p_prec p))
         else if c = CHR ''f'' then (case p_prec p of None \<Rightarrow> Inr (show_int i) | Some d \<Rightarrow> fixed env i d)
         else if c = CHR ''o'' then Inr (show_in 8 i)
         else if c = CHR ''u'' then Inr (show_int (to_uint32 i))
         else if c = CHR ''x'' then Inr (show_in 16 i)
         else Inr (map upper (show_in 16 i)))"

definition converted :: "s_env \<Rightarrow> place \<Rightarrow> jsval \<Rightarrow> js_error + string" where
  "converted env p v =
     (if p_conv p = CHR ''s'' then
        Inr (case p_prec p of None \<Rightarrow> js_string v | Some n \<Rightarrow> take n (js_string v))
      else
        (case v of
           JNum i \<Rightarrow>
             (case number_text env p i of
                Inl e \<Rightarrow> Inl e
              | Inr t \<Rightarrow> Inr (if p_conv p \<in> set ''def'' \<and> p_plus p \<and> i \<ge> 0 then ''+'' @ t else t))
         | _ \<Rightarrow> Inl (Throw (''[sprintf] expecting number but found '' @ get_type v))))"

definition pad_char :: "place \<Rightarrow> string" where
  "pad_char p = (case p_pad p of None \<Rightarrow> '' '' | Some t \<Rightarrow> if t = ''0'' then ''0'' else take 1 (drop 1 t))"

definition str_repeat :: "string \<Rightarrow> int \<Rightarrow> string" where
  "str_repeat t n = concat (replicate (nat n) t)"

definition padded :: "place \<Rightarrow> string \<Rightarrow> string" where
  "padded p t =
     (let pad = (case p_width p of None \<Rightarrow> '''' | Some w \<Rightarrow> str_repeat (pad_char p) (int w - int (length t)))
      in if p_left p then t @ pad else pad @ t)"

definition nth_arg :: "jsval list \<Rightarrow> nat \<Rightarrow> jsval" where
  "nth_arg argv k = (if k < length argv then argv ! k else JUndef)"

text \<open>The argument of a placeholder, and the cursor behind it.\<close>

definition place_arg :: "place \<Rightarrow> jsval list \<Rightarrow> nat \<Rightarrow> (js_error + jsval) \<times> nat" where
  "place_arg p argv cursor =
     (case p_names p of
        Some ks \<Rightarrow> (follow (nth_arg argv cursor) ks, cursor)
      | None \<Rightarrow>
          (case p_index p of
             Some k \<Rightarrow> (Inr (nth_arg argv k), cursor)
           | None \<Rightarrow> (Inr (nth_arg argv cursor), cursor + 1)))"

fun format_nodes :: "s_env \<Rightarrow> node list \<Rightarrow> jsval list \<Rightarrow> nat \<Rightarrow> js_error + string" where
  "format_nodes env [] argv cursor = Inr ''''"
| "format_nodes env (TextNode t # ns) argv cursor =
     (case format_nodes env ns argv cursor of Inl e \<Rightarrow> Inl e | Inr u \<Rightarrow> Inr (t @ u))"
| "format_nodes env (PlaceNode p # ns) argv cursor =
     (let (a, cursor) = place_arg p argv cursor
      in case a of
           Inl e \<Rightarrow> Inl e
         | Inr v \<Rightarrow>
             (case converted env p v of
                Inl e \<Rightarrow> Inl e
              | Inr t \<Rightarrow> (case format_nodes env ns argv cursor of Inl e \<Rightarrow> Inl e | Inr u \<Rightarrow> Inr (padded p t @ u))))"

text \<open>\<open>sprintf(fmt, ...)\<close>; the format is \<open>argv[0]\<close>. The cache of parsed formats does not show.\<close>

definition sprintf :: "s_env \<Rightarrow> string \<Rightarrow> jsval list \<Rightarrow> js_error + string" where
  "sprintf env fmt args =
     (case parse fmt of Inl e \<Rightarrow> Inl e | Inr ns \<Rightarrow> format_nodes env ns (JStr fmt # args) 1)"

definition vsprintf :: "s_env \<Rightarrow> string \<Rightarrow> jsval list \<Rightarrow> js_error + string" where
  "vsprintf env fmt args = sprintf env fmt args"


section \<open>Formats of texts and plain placeholders\<close>

text \<open>The reference: \<open>%%\<close> is a percent sign, \<open>%s\<close> the next argument, other characters stand for themselves.\<close>

fun fill_in :: "string \<Rightarrow> string list \<Rightarrow> string option" where
  "fill_in [] args = Some []"
| "fill_in (c # s) args =
     (if c \<noteq> CHR ''%'' then map_option ((#) c) (fill_in s args)
      else
        (case s of
           [] \<Rightarrow> None
         | d # r \<Rightarrow>
             (if d = CHR ''%'' then map_option ((#) d) (fill_in r args)
              else if d = CHR ''s'' then
                map_option ((@) (case args of [] \<Rightarrow> ''undefined'' | a # _ \<Rightarrow> a)) (fill_in r (tl args))
              else None)))"

lemma starts_search: "starts r s (0, []) (j, c) \<Longrightarrow> search r s 0 = Some (0, j, c)"
  using search_here [of 0 s r "(j, c)"] by (auto simp: starts_def)

lemma anchored_none: "ms r s (0, []) = [] \<Longrightarrow> search (Seq Bol r) s 0 = None"
  by (auto simp: search_None_iff)

lemma run_here:
  assumes "w \<noteq> []" "CHR ''%'' \<notin> set w" "r = [] \<or> hd r = CHR ''%''"
  shows "search run_re (w @ r) 0 = Some (0, length w, [])"
proof (rule starts_search)
  obtain a v where w: "w = a # v" using assms(1) by (cases w) auto
  have a: "a \<notin> set ''%''" and v: "list_all (\<lambda>c. c \<notin> set ''%'') v" using assms(2) w by (auto simp: list_all_iff)
  have "starts (none_of ''%'') (w @ r) (0, []) (1, [])" using a w by (simp add: starts_def none_of_def)
  moreover have "starts (Star (none_of ''%'')) (w @ r) (1, []) (1 + length v, [])"
    unfolding none_of_def by (rule starts_Star [of _ _ _ r]) (use assms(3) w v in auto)
  ultimately have "starts (Plus (none_of ''%'')) (w @ r) (0, []) (1 + length v, [])"
    unfolding Plus_def by (rule starts_Seq)
  then have "starts run_re (w @ r) (0, []) (1 + length v, [])"
    unfolding run_re_def by (rule starts_Seq [OF starts_Bol])
  then show "starts run_re (w @ r) (0, []) (length w, [])" using w by simp
qed

lemma run_none: "search run_re (CHR ''%'' # s) 0 = None"
  unfolding run_re_def by (rule anchored_none) (simp add: Plus_def none_of_def)

lemma percent_here: "search percent_re (CHR ''%'' # CHR ''%'' # s) 0 = Some (0, 2, [])"
  unfolding percent_re_def
  by (intro starts_search starts_Seq [OF starts_Bol]) (simp add: starts_def Chr_def numeral_2_eq_2)

lemma percent_none: "search percent_re (CHR ''%'' # CHR ''s'' # s) 0 = None"
  unfolding percent_re_def by (rule anchored_none) (simp add: Chr_def)

lemma place_here: "search place_re (CHR ''%'' # CHR ''s'' # s) 0 = Some (0, 2, [(8, ''s'')])"
  unfolding place_re_def
  by (intro starts_search starts_Seq [OF starts_Bol])
     (simp add: starts_def Opt_def Plus_def one_of_def none_of_def Chr_def digit_char_def numeral_2_eq_2)

lemma fill_run:
  assumes "CHR ''%'' \<notin> set w" "fill_in (w @ r) args = Some t"
  shows "\<exists>u. t = w @ u \<and> fill_in r args = Some u"
  using assms by (induction w arbitrary: t) auto

lemma parse_fill:
  assumes "fill_in s (map js_string (drop cursor argv)) = Some t" "length s \<le> n"
  shows "\<exists>ns. parse_fmt n s False pos = Inr ns \<and> format_nodes env ns argv cursor = Inr t"
  using assms
proof (induction n arbitrary: s t cursor pos)
  case 0
  then show ?case by simp
next
  case (Suc n)
  show ?case
  proof (cases "s = []")
    case True
    then show ?thesis using Suc.prems by simp
  next
    case ne: False
    define w where "w = takeWhile (\<lambda>c. c \<noteq> CHR ''%'') s"
    define r where "r = dropWhile (\<lambda>c. c \<noteq> CHR ''%'') s"
    have s: "s = w @ r" by (simp add: w_def r_def)
    have w: "CHR ''%'' \<notin> set w" by (auto simp: w_def dest: set_takeWhileD)
    have r: "r = [] \<or> hd r = CHR ''%''" unfolding r_def using hd_dropWhile [of "\<lambda>c. c \<noteq> CHR ''%''" s] by auto
    show ?thesis
    proof (cases "w = []")
      case False
      obtain u where u: "t = w @ u" "fill_in r (map js_string (drop cursor argv)) = Some u"
        using fill_run [OF w] Suc.prems(1) s by blast
      have "length r \<le> n" using Suc.prems(2) s False by (cases w) auto
      from Suc.IH [OF u(2) this] obtain ns where ns: "parse_fmt n r False pos = Inr ns" "format_nodes env ns argv cursor = Inr u"
        by blast
      have "parse_fmt (Suc n) s False pos = Inr (TextNode w # ns)"
        using run_here [OF False w r] ns(1) ne by (simp add: s after_match_def found_text_def Let_def)
      then show ?thesis using ns(2) u(1) by simp
    next
      case True
      then obtain s1 where s1: "s = CHR ''%'' # s1" using s r ne by (cases r) auto
      then obtain d s2 where d: "s1 = d # s2" "d = CHR ''%'' \<or> d = CHR ''s''"
        using Suc.prems(1) by (auto split: list.splits if_splits)
      have len: "length s2 \<le> n" using Suc.prems(2) s1 d by simp
      show ?thesis
      proof (cases "d = CHR ''%''")
        case True
        then obtain u where u: "t = CHR ''%'' # u" "fill_in s2 (map js_string (drop cursor argv)) = Some u"
          using Suc.prems(1) s1 d by auto
        from Suc.IH [OF u(2) len] obtain ns where ns: "parse_fmt n s2 False pos = Inr ns" "format_nodes env ns argv cursor = Inr u"
          by blast
        have "parse_fmt (Suc n) s False pos = Inr (TextNode ''%'' # ns)"
          using ns(1) s1 d True by (simp add: run_none percent_here after_match_def found_text_def Let_def)
        then show ?thesis using ns(2) u(1) by simp
      next
        case False
        then have d': "d = CHR ''s''" using d(2) by simp
        let ?a = "js_string (nth_arg argv cursor)"
        have dr: "drop cursor argv = (if cursor < length argv then argv ! cursor # drop (Suc cursor) argv else [])"
          by (simp add: Cons_nth_drop_Suc)
        obtain u where u: "t = ?a @ u" "fill_in s2 (map js_string (drop (Suc cursor) argv)) = Some u"
          using Suc.prems(1) s1 d(1) d' by (cases "cursor < length argv") (auto simp: dr nth_arg_def)
        from Suc.IH [OF u(2) len] obtain ns where ns: "parse_fmt n s2 False True = Inr ns" "format_nodes env ns argv (Suc cursor) = Inr u"
          by blast
        let ?p = "\<lparr>p_index = None, p_names = None, p_plus = False, p_pad = None, p_left = False, p_width = None, p_prec = None, p_conv = CHR ''s''\<rparr>"
        have "place_of (0, 2, [(8, ''s'')]) = Inr ?p" by (simp add: place_of_def found_cap_def cap_text_def)
        then have "parse_fmt (Suc n) s False pos = Inr (PlaceNode ?p # ns)"
          using ns(1) s1 d(1) d' by (simp add: run_none percent_none place_here after_match_def found_text_def Let_def)
        then show ?thesis using ns(2) u(1)
          by (simp add: place_arg_def converted_def padded_def Let_def)
      qed
    qed
  qed
qed

text \<open>
  C10: a format of texts, \<open>%%\<close> and \<open>%s\<close> only, as all messages of the terminal are, is filled in from left to right:
  the result is that of the reference, with \<open>undefined\<close> for an argument that is missing.
\<close>

theorem sprintf_fills_in:
  assumes "fill_in fmt (map js_string args) = Some t"
  shows "sprintf env fmt args = Inr t"
proof -
  obtain ns where "parse_fmt (length fmt) fmt False False = Inr ns" "format_nodes env ns (JStr fmt # args) 1 = Inr t"
    using parse_fill [of fmt 1 "JStr fmt # args" t "length fmt" False env] assms by auto
  then show ?thesis by (simp add: sprintf_def parse_def)
qed

definition plain_s_env :: s_env where
  "plain_s_env = \<lparr>exponential = (\<lambda>i _. show_int i), fixed_limit = 20\<rparr>"

theorem sprintf_fills_in_witness:
  "sprintf plain_s_env ''100%% of %s, %s'' [JStr ''%s'', JNum 7] = Inr ''100% of %s, 7''"
proof (rule sprintf_fills_in)
  have "show_int 7 = ''7''" by code_simp
  then show "fill_in ''100%% of %s, %s'' (map js_string [JStr ''%s'', JNum 7]) = Some ''100% of %s, 7''" by simp
qed

section \<open>Numbers and padding\<close>

text \<open>
  \<open>%u\<close> writes a number as an unsigned one of 32 bits: its remainder modulo the 32nd power of two, which is the
  number itself exactly when it lies in that range.
\<close>

theorem unsigned_wraps:
  assumes "p_conv p = CHR ''u''"
  shows "converted env p (JNum n) = Inr (show_int (n mod 2 ^ 32)) \<and> (to_uint32 n = n \<longleftrightarrow> 0 \<le> n \<and> n < 2 ^ 32)"
proof -
  have u: "to_uint32 n = n mod 2 ^ 32" by (simp add: to_uint32_def uint_word_of_int)
  then have "to_uint32 n = n \<longleftrightarrow> 0 \<le> n \<and> n < 2 ^ 32" by (metis mod_pos_pos_trivial pos_mod_bound pos_mod_sign zero_less_numeral zero_less_power)
  then show ?thesis using assms u by (simp add: converted_def number_text_def Let_def)
qed

definition u_place :: place where
  "u_place = \<lparr>p_index = None, p_names = None, p_plus = False, p_pad = None, p_left = False, p_width = None, p_prec = None,
     p_conv = CHR ''u''\<rparr>"

theorem unsigned_wraps_witness:
  "converted plain_s_env u_place (JNum (-1)) = Inr (show_int 4294967295)"
  using unsigned_wraps [of u_place plain_s_env "-1"] by (simp add: u_place_def)

text \<open>
  A text is padded to exactly the width of its placeholder unless it is longer, on the right side with \<open>-\<close> and on
  the left side without; the text itself stays whole.
\<close>

theorem padded_width:
  assumes "p_width p = Some w" "length (pad_char p) = 1"
  shows "length (padded p t) = max w (length t) \<and> (\<exists>pad. padded p t = (if p_left p then t @ pad else pad @ t) \<and> set pad \<subseteq> set (pad_char p))"
proof -
  obtain c where c: "pad_char p = [c]" using assms(2) by (cases "pad_char p") auto
  have "concat (replicate k [c]) = replicate k c" for k by (induction k) auto
  then have "padded p t = (if p_left p then t @ replicate (nat (int w - int (length t))) c else replicate (nat (int w - int (length t))) c @ t)"
    using assms(1) c by (simp add: padded_def str_repeat_def Let_def)
  then show ?thesis using c by (auto simp: set_replicate_conv_if)
qed

theorem padded_width_witness:
  "length (padded \<lparr>p_index = None, p_names = None, p_plus = False, p_pad = Some ''0'', p_left = False, p_width = Some 5,
     p_prec = None, p_conv = CHR ''d''\<rparr> ''42'') = 5"
  using padded_width [of "\<lparr>p_index = None, p_names = None, p_plus = False, p_pad = Some ''0'', p_left = False, p_width = Some 5,
     p_prec = None, p_conv = CHR ''d''\<rparr>" 5 "''42''"] by (simp add: pad_char_def)

end
