(* ===== verification/Timers.thy ===== *)
theory Timers
  imports Text_Tools Arguments
begin

text \<open>
  The timers plugin: \<open>everyTime\<close>, \<open>oneTime\<close> and \<open>stopTime\<close> on one element. A function is known by a number; its
  property \<open>$timerID\<close> is in \<open>fn_ids\<close>. \<open>window.setInterval\<close> gives the handles in order; a handler keeps its
  variables \<open>counter\<close> and \<open>inProgress\<close> from tick to tick. What a function does is the parameter \<open>call\<close>.
\<close>

section \<open>State\<close>

record handler =
  h_label :: string
  h_fn :: nat
  h_times :: int
  h_belay :: bool
  h_interval :: int
  h_counter :: nat
  h_busy :: bool

record timers =
  guid :: nat
  fn_ids :: "(nat \<times> nat) list"
  by_label :: "(string \<times> (nat \<times> nat) list) list option"  \<comment> \<open>\<open>element.$timers\<close>: label, \<open>$timerID\<close>, handle\<close>
  intervals :: "(nat \<times> handler) list"
  next_handle :: nat
  global_labels :: "string list"

definition no_timers :: timers where
  "no_timers = \<lparr>guid = 1, fn_ids = [], by_label = None, intervals = [], next_handle = 1, global_labels = []\<rparr>"

text \<open>\<open>object[key] = value\<close> and \<open>delete object[key]\<close>.\<close>

fun put :: "'a \<Rightarrow> 'b \<Rightarrow> ('a \<times> 'b) list \<Rightarrow> ('a \<times> 'b) list" where
  "put k v [] = [(k, v)]"
| "put k v (p # ps) = (if fst p = k then (k, v) # ps else p # put k v ps)"

definition del :: "'a \<Rightarrow> ('a \<times> 'b) list \<Rightarrow> ('a \<times> 'b) list" where
  "del k ps = filter (\<lambda>p. fst p \<noteq> k) ps"

section \<open>timeParse\<close>

definition time_re :: re where \<comment> \<open>\<open>/^([0-9]+)\s*(.*s)?$/\<close>\<close>
  "time_re = Seq Bol (Seq (Grp 1 (Plus (Cls digit_char))) (Seq (Star (Cls blank))
     (Seq (Opt (Grp 2 (Seq (Star (none_of [CHR 0x0A, CHR 0x0D])) (Chr CHR ''s'')))) Eol)))"

definition powers :: "(string \<times> nat) list" where
  "powers = [(''ms'', 1), (''cs'', 10), (''ds'', 100), (''s'', 1000), (''das'', 10000), (''hs'', 100000), (''ks'', 1000000)]"

definition time_parse :: "jsval \<Rightarrow> js_error + jsval" where
  "time_parse v =
     (if v = JUndef \<or> v = JNull then Inr JNull
      else
        (case search time_re (trim (js_string v)) 0 of
           None \<Rightarrow> Inl TypeError
         | Some m \<Rightarrow>
             (if cap_text 2 m \<noteq> '''' then
                Inr (JNum (int (read_nat 0 (cap_text 1 m) * (case map_of powers (cap_text 2 m) of Some k \<Rightarrow> k | None \<Rightarrow> 1))))
              else Inr v)))"

section \<open>add\<close>

text \<open>An argument: a function or a value.\<close>

datatype targ = AFun nat | AVal jsval

fun absent :: "targ \<Rightarrow> bool" where \<comment> \<open>a falsy argument\<close>
  "absent (AFun k) = False"
| "absent (AVal v) = (\<not> truthy v)"

text \<open>\<open>times\<close> and \<open>belay\<close>: a truthy \<open>times\<close> that is no number stands for \<open>belay\<close>.\<close>

definition times_of :: "targ \<Rightarrow> bool \<Rightarrow> int \<times> bool" where
  "times_of tms belay =
     (case tms of
        AVal (JNum n) \<Rightarrow> (n, belay)
      | _ \<Rightarrow> if absent tms then (0, belay) else (0, True))"

definition start_timer :: "string \<Rightarrow> nat \<Rightarrow> int \<Rightarrow> int \<Rightarrow> bool \<Rightarrow> timers \<Rightarrow> timers" where
  "start_timer label fn iv tms belay w =
     (let w = (case map_of (fn_ids w) fn of Some k \<Rightarrow> w | None \<Rightarrow> w\<lparr>fn_ids := put fn (guid w) (fn_ids w), guid := guid w + 1\<rparr>);
          k = the (map_of (fn_ids w) fn);
          ts = (case by_label w of None \<Rightarrow> [] | Some ts \<Rightarrow> ts);
          entry = (case map_of ts label of None \<Rightarrow> [] | Some e \<Rightarrow> e);
          w = (case map_of entry k of
                 Some _ \<Rightarrow> w\<lparr>by_label := Some (put label entry ts)\<rparr>
               | None \<Rightarrow>
                   w\<lparr>by_label := Some (put label (put k (next_handle w) entry) ts),
                     intervals := intervals w @ [(next_handle w, \<lparr>h_label = label, h_fn = fn, h_times = tms, h_belay = belay,
                        h_interval = iv, h_counter = 0, h_busy = False\<rparr>)],
                     next_handle := next_handle w + 1\<rparr>)
      in w\<lparr>global_labels := global_labels w @ [label]\<rparr>)"

definition add_timer :: "jsval \<Rightarrow> targ \<Rightarrow> targ \<Rightarrow> targ \<Rightarrow> bool \<Rightarrow> timers \<Rightarrow> js_error option \<times> timers" where
  "add_timer iv label fn tms belay w =
     (let (label, fn, tms) = (case label of
            AFun k \<Rightarrow> (iv, AFun k, if absent tms then fn else tms)
          | AVal v \<Rightarrow> (v, fn, tms))
      in case time_parse iv of
           Inl e \<Rightarrow> (Some e, w)
         | Inr (JNum n) \<Rightarrow>
             (if n \<le> 0 then (None, w)
              else
                (case fn of
                   AVal v \<Rightarrow> (Some TypeError, w\<lparr>by_label := Some (case by_label w of None \<Rightarrow> [(js_string label, [])]
                       | Some ts \<Rightarrow> (if map_of ts (js_string label) = None then put (js_string label) [] ts else ts))\<rparr>)
                 | AFun k \<Rightarrow> (let (t, b) = times_of tms belay in (None, start_timer (js_string label) k n t b w))))
         | Inr _ \<Rightarrow> (None, w))"

definition every_time :: "jsval \<Rightarrow> targ \<Rightarrow> targ \<Rightarrow> targ \<Rightarrow> bool \<Rightarrow> timers \<Rightarrow> js_error option \<times> timers" where
  "every_time = add_timer"

definition one_time :: "jsval \<Rightarrow> targ \<Rightarrow> targ \<Rightarrow> timers \<Rightarrow> js_error option \<times> timers" where
  "one_time iv label fn w = add_timer iv label fn (AVal (JNum 1)) False w"

section \<open>remove\<close>

definition clear_handles :: "nat list \<Rightarrow> timers \<Rightarrow> timers" where
  "clear_handles hs w = w\<lparr>intervals := filter (\<lambda>p. fst p \<notin> set hs) (intervals w)\<rparr>"

text \<open>\<open>remove\<close> with a label that is not empty (an empty one calls itself for ever); an entry that is empty goes, and with the last one \<open>element.$timers\<close>.\<close>

definition remove_label :: "string \<Rightarrow> nat option \<Rightarrow> timers \<Rightarrow> timers" where
  "remove_label label fn w =
     (case by_label w of
        None \<Rightarrow> w
      | Some ts \<Rightarrow>
          (let (ts, w) =
             (case map_of ts label of
                None \<Rightarrow> (ts, w)
              | Some entry \<Rightarrow>
                  (let (entry, gone) =
                     (case fn of
                        None \<Rightarrow> ([], map snd entry)
                      | Some f \<Rightarrow>
                          (case map_of (fn_ids w) f of
                             None \<Rightarrow> (entry, [])
                           | Some k \<Rightarrow> (del k entry, (case map_of entry k of None \<Rightarrow> [] | Some h \<Rightarrow> [h]))))
                   in (if entry = [] then del label ts else put label entry ts, clear_handles gone w)))
           in w\<lparr>by_label := (if ts = [] then None else Some ts)\<rparr>))"

definition remove_timer :: "string \<Rightarrow> nat option \<Rightarrow> timers \<Rightarrow> timers" where
  "remove_timer label fn w =
     (if label = '''' then
        (case by_label w of
           None \<Rightarrow> w
         | Some ts \<Rightarrow>
             (let w = fold (\<lambda>p. remove_label (fst p) fn) ts w
              in case by_label w of Some [] \<Rightarrow> w\<lparr>by_label := None\<rparr> | _ \<Rightarrow> w))
      else remove_label label fn w)"

section \<open>A tick\<close>

text \<open>\<open>call\<close> gets the function and the counter; the result says whether the function returned \<open>false\<close>.\<close>

type_synonym calling = "nat \<Rightarrow> nat \<Rightarrow> timers \<Rightarrow> bool \<times> timers"

definition update_handler :: "nat \<Rightarrow> (handler \<Rightarrow> handler) \<Rightarrow> timers \<Rightarrow> timers" where
  "update_handler k f w = w\<lparr>intervals := map (\<lambda>p. if fst p = k then (k, f (snd p)) else p) (intervals w)\<rparr>"

text \<open>The first component is the call that the tick makes, if any.\<close>

definition tick :: "calling \<Rightarrow> nat \<Rightarrow> timers \<Rightarrow> (nat \<times> nat) list \<times> timers" where
  "tick call k w =
     (case map_of (intervals w) k of
        None \<Rightarrow> ([], w)
      | Some h \<Rightarrow>
          (if h_belay h \<and> h_busy h then ([], w)
           else
             (let n = h_counter h + 1;
                  w = update_handler k (\<lambda>h. h\<lparr>h_counter := n, h_busy := True\<rparr>) w;
                  over = (int n > h_times h \<and> h_times h \<noteq> 0);
                  (stop, w) = (if over then (True, w) else call (h_fn h) n w);
                  w = (if stop then remove_timer (h_label h) (Some (h_fn h)) w else w)
              in (if over then [] else [(h_fn h, n)], update_handler k (\<lambda>h. h\<lparr>h_busy := False\<rparr>) w))))"

fun ticks :: "calling \<Rightarrow> nat \<Rightarrow> nat \<Rightarrow> timers \<Rightarrow> (nat \<times> nat) list \<times> timers" where
  "ticks call k 0 w = ([], w)"
| "ticks call k (Suc m) w = (let (l, w) = ticks call k m w; (l', w) = tick call k w in (l @ l', w))"


section \<open>Numbers are their own times\<close>

lemma digit_char_show: "c \<in> set (show_nat n) \<Longrightarrow> digit_char c"
proof -
  assume "c \<in> set (show_nat n)"
  then obtain d where d: "d < 10" "c = digit d" using digits_of_show_nat by blast
  then have "d \<in> {0, 1, 2, 3, 4, 5, 6, 7, 8, 9}" by auto
  then show ?thesis using d(2) by (auto simp: digit_char_def digit_def less_eq_char_def)
qed

lemma digit_not_blank: "digit_char c \<Longrightarrow> \<not> blank c"
  by (auto simp: digit_char_def blank_def less_eq_char_def)

lemma trim_id: "(\<And>c. c \<in> set s \<Longrightarrow> \<not> blank c) \<Longrightarrow> trim s = s"
proof -
  assume a: "\<And>c. c \<in> set s \<Longrightarrow> \<not> blank c"
  have "dropWhile blank t = t" if "set t \<subseteq> set s" for t
    using a that by (cases t) auto
  then show ?thesis by (simp add: trim_def)
qed

lemma time_re_digits:
  assumes "s \<noteq> []" "list_all digit_char s"
  shows "search time_re s 0 = Some (0, length s, [(1, s)])"
proof -
  obtain a v where s: "s = a # v" using assms(1) by (cases s) auto
  have "starts (Cls digit_char) s (0, []) (1, [])" using assms(2) s by (simp add: starts_def)
  moreover have "starts (Star (Cls digit_char)) s (1, []) (1 + length v, [])"
    by (rule starts_Star [of _ _ _ "[]"]) (use assms(2) s in auto)
  ultimately have "starts (Plus (Cls digit_char)) s (0, []) (length s, [])"
    unfolding Plus_def s by (simp add: starts_Seq)
  from starts_Grp [OF this] have g: "starts (Grp 1 (Plus (Cls digit_char))) s (0, []) (length s, [(1, s)])" by simp
  have b: "starts (Star (Cls blank)) s (length s, [(1, s)]) (length s, [(1, s)])"
    using starts_Star [of "length s" s "[]" "[]" blank] by simp
  have "ms (Star (none_of [CHR 0x0A, CHR 0x0D])) s (length s, c) = [(length s, c)]" for c
    by (subst ms_Star) (simp add: none_of_def)
  then have "ms (Grp 2 (Seq (Star (none_of [CHR 0x0A, CHR 0x0D])) (Chr CHR ''s''))) s (length s, c) = []" for c
    by (simp add: Chr_def)
  from starts_Opt2 [OF this] have "starts (Opt (Grp 2 (Seq (Star (none_of [CHR 0x0A, CHR 0x0D])) (Chr CHR ''s'')))) s
      (length s, [(1, s)]) (length s, [(1, s)])" .
  then have "starts time_re s (0, []) (length s, [(1, s)])"
    unfolding time_re_def
    by (intro starts_Seq [OF starts_Bol] starts_Seq [OF g] starts_Seq [OF b]) (erule starts_Seq, rule starts_Eol, rule refl)
  then show ?thesis
    using search_here [of 0 s time_re "(length s, [(1, s)])"] by (auto simp: starts_def)
qed

lemma time_parse_num: "0 < t \<Longrightarrow> time_parse (JNum t) = Inr (JNum t)"
proof -
  assume "0 < t"
  then have s: "show_int t = show_nat (nat t)" by (simp add: show_int_def)
  have d: "list_all digit_char (show_nat (nat t))" "show_nat (nat t) \<noteq> []"
    using digit_char_show by (auto simp: list_all_iff) (subst (asm) show_nat.simps, simp split: if_splits)
  have "trim (show_nat (nat t)) = show_nat (nat t)"
    using digit_not_blank digit_char_show by (intro trim_id) blast
  then show ?thesis
    using time_re_digits [OF d(2,1)] by (simp add: time_parse_def s cap_text_def found_cap_def)
qed


section \<open>Properties\<close>

text \<open>An element without timers gets one.\<close>

lemma start_fresh:
  assumes "by_label w = None" "next_handle w \<notin> fst ` set (intervals w)"
  obtains w' where "start_timer label fn iv n b w = w'" "intervals w' = intervals w @ [(next_handle w, \<lparr>h_label = label, h_fn = fn,
       h_times = n, h_belay = b, h_interval = iv, h_counter = 0, h_busy = False\<rparr>)]"
    "\<exists>k. map_of (fn_ids w') fn = Some k \<and> by_label w' = Some [(label, [(k, next_handle w)])]"
proof -
  have "map_of (put fn v ps) fn = Some v" for v and ps :: "(nat \<times> nat) list"
    by (induction ps) auto
  then show ?thesis
    using that [of "start_timer label fn iv n b w"] assms(1)
    by (simp add: start_timer_def Let_def split: option.split)
qed

lemma update_last:
  "k \<notin> fst ` set iv \<Longrightarrow> intervals w = iv @ [(k, h)] \<Longrightarrow> update_handler k f w = w\<lparr>intervals := iv @ [(k, f h)]\<rparr>"
proof -
  assume k: "k \<notin> fst ` set iv" and w: "intervals w = iv @ [(k, h)]"
  have "map (\<lambda>p. if fst p = k then (k, f (snd p)) else p) iv = iv" using k by (intro map_idI) force
  then show ?thesis using w by (simp add: update_handler_def)
qed

lemma remove_only:
  assumes "by_label w = Some [(label, [(i, k)])]" "map_of (fn_ids w) fn = Some i" "label \<noteq> ''''"
    and "intervals w = iv @ [(k, h)]" "k \<notin> fst ` set iv"
  shows "remove_timer label (Some fn) w = w\<lparr>intervals := iv, by_label := None\<rparr>"
proof -
  have "filter (\<lambda>p. fst p \<noteq> k) iv = iv" using assms(5) by (auto simp: filter_id_conv)
  then show ?thesis
    using assms(1-4) by (simp add: remove_timer_def remove_label_def del_def clear_handles_def)
qed

text \<open>The state while a timer for \<open>n\<close> calls runs.\<close>

lemma ticks_count:
  assumes "by_label w = Some [(label, [(i, k)])]" "map_of (fn_ids w) fn = Some i" "label \<noteq> ''''"
    and "intervals w = iv @ [(k, \<lparr>h_label = label, h_fn = fn, h_times = int n, h_belay = b, h_interval = t, h_counter = 0, h_busy = False\<rparr>)]"
    and "k \<notin> fst ` set iv" "0 < n" "\<forall>f m w. call f m w = (False, w)"
  shows "ticks call k m w = (map (\<lambda>j. (fn, Suc j)) [0..<min m n],
    if m \<le> n then w\<lparr>intervals := iv @ [(k, \<lparr>h_label = label, h_fn = fn, h_times = int n, h_belay = b, h_interval = t, h_counter = m, h_busy = False\<rparr>)]\<rparr>
    else w\<lparr>intervals := iv, by_label := None\<rparr>)"
proof (induction m)
  case 0
  then show ?case using assms(4) by simp
next
  case (Suc m)
  let ?h = "\<lambda>c y. \<lparr>h_label = label, h_fn = fn, h_times = int n, h_belay = b, h_interval = t, h_counter = c, h_busy = y\<rparr>"
  let ?w = "\<lambda>c y. w\<lparr>intervals := iv @ [(k, ?h c y)]\<rparr>"
  have up: "update_handler k f (?w c y) = w\<lparr>intervals := iv @ [(k, f (?h c y))]\<rparr>" for f c y
    using update_last [OF assms(5), of "?w c y" "?h c y" f] by simp
  have get: "map_of iv k = None" using assms(5) by (simp add: map_of_eq_None_iff)
  consider "m < n" | "m = n" | "n < m" by linarith
  then show ?case
  proof cases
    case 1
    have "tick call k (?w m False) = ([(fn, Suc m)], ?w (Suc m) False)"
      using 1 assms(7) by (simp add: tick_def get map_add_def up Let_def)
    then show ?thesis using Suc 1 by (simp add: Let_def)
  next
    case 2
    have "remove_timer label (Some fn) (?w (Suc m) True) = w\<lparr>intervals := iv, by_label := None\<rparr>"
      using remove_only [of "?w (Suc m) True" label i k fn iv "?h (Suc m) True"] assms(1-3,5) by simp
    moreover have "update_handler k f (w\<lparr>intervals := iv, by_label := None\<rparr>) = w\<lparr>intervals := iv, by_label := None\<rparr>" for f
    proof -
      have "map (\<lambda>p. if fst p = k then (k, f (snd p)) else p) iv = iv" using assms(5) by (intro map_idI) force
      then show ?thesis by (simp add: update_handler_def)
    qed
    ultimately have "tick call k (?w m False) = ([], w\<lparr>intervals := iv, by_label := None\<rparr>)"
      using 2 assms(6) by (simp add: tick_def get map_add_def up Let_def)
    then show ?thesis using Suc 2 by (simp add: Let_def)
  next
    case 3
    have "map_of iv k = None" using assms(5) by (simp add: map_of_eq_None_iff)
    then have "tick call k (w\<lparr>intervals := iv, by_label := None\<rparr>) = ([], w\<lparr>intervals := iv, by_label := None\<rparr>)"
      by (simp add: tick_def)
    then show ?thesis using Suc 3 by (simp add: Let_def)
  qed
qed




text \<open>
  \<open>stopTime\<close> undoes \<open>everyTime\<close> and \<open>oneTime\<close>: the intervals are those from before, and the element has no
  timers.
\<close>

theorem stop_undoes_start:
  assumes "by_label w = None" "next_handle w \<notin> fst ` set (intervals w)" "label \<noteq> ''''" "0 < t"
  shows "\<exists>w'. every_time (JNum t) (AVal (JStr label)) (AFun fn) (AVal (JNum n)) b w = (None, w') \<and>
    length (intervals w') = length (intervals w) + 1 \<and>
    intervals (remove_timer label (Some fn) w') = intervals w \<and> by_label (remove_timer label (Some fn) w') = None"
proof -
  obtain w' i h where w': "start_timer label fn t n b w = w'" "intervals w' = intervals w @ [(next_handle w, h)]"
    "map_of (fn_ids w') fn = Some i" "by_label w' = Some [(label, [(i, next_handle w)])]"
    using start_fresh [OF assms(1,2), of label fn t n b] by metis
  have "every_time (JNum t) (AVal (JStr label)) (AFun fn) (AVal (JNum n)) b w = (None, w')"
    using assms(4) w'(1) by (simp add: every_time_def add_timer_def time_parse_num times_of_def)
  then show ?thesis
    using remove_only [OF w'(4,3) assms(3) w'(2) assms(2)] w'(2) by (intro exI [of _ w']) simp
qed

theorem stop_undoes_start_witness:
  "\<exists>w'. every_time (JNum 500) (AVal (JStr ''blink'')) (AFun 7) (AVal (JNum 0)) False no_timers = (None, w') \<and>
     intervals (remove_timer ''blink'' (Some 7) w') = []"
  using stop_undoes_start [of no_timers "''blink''" 500 7 0 False] by (auto simp: no_timers_def)

end
