(* ===== verification/Split_Shim.thy ===== *)
theory Split_Shim
  imports Text_Tools "HOL-Library.Word"
begin

text \<open>
  The replacement of \<open>String.prototype.split\<close> that the file installs, for a separator that is a regular expression
  with \<open>n\<close> groups, in a browser whose \<open>exec\<close> reports groups that took no part as \<open>undefined\<close>. The rest of the
  development uses \<open>split_re\<close>, the \<open>split\<close> of the language; here is why the two agree.
\<close>

section \<open>The function\<close>

definition to_limit :: "int option \<Rightarrow> nat" where \<comment> \<open>\<open>limit >>> 0\<close>, without one \<open>-1 >>> 0\<close>\<close>
  "to_limit l = unat (word_of_int (case l of None \<Rightarrow> -1 | Some k \<Rightarrow> k) :: 32 word)"

lemma to_limit_None: "to_limit None = 2 ^ 32 - 1"
  by (simp add: to_limit_def unsigned_minus_1_eq_mask mask_eq_exp_minus_1)

text \<open>
  The loop over the matches that \<open>exec\<close> finds. The state is the output, \<open>lastLastIndex\<close> and \<open>lastLength\<close>; the
  result says too whether the loop was left at the limit.
\<close>

fun shim_loop :: "nat \<Rightarrow> string \<Rightarrow> nat \<Rightarrow> string option list \<Rightarrow> nat \<Rightarrow> nat option \<Rightarrow> found list \<Rightarrow>
    string option list \<times> nat \<times> nat option \<times> bool" where
  "shim_loop n s limit out p len [] = (out, p, len, False)"
| "shim_loop n s limit out p len ((a, b, c) # xs) =
     (if b > p then
        (let out = out @ Some (JS_Base.slice s (int p) (int a)) # (if 0 < n \<and> a < length s then map (map_of c) [1..<Suc n] else [])
         in if length out \<ge> limit then (out, b, Some (b - a), True)
            else shim_loop n s limit out b (Some (b - a)) xs)
      else shim_loop n s limit out p len xs)"

text \<open>After a loop that was left, \<open>lastIndex\<close> is not 0 and \<open>test('')\<close> is false.\<close>

definition shim_finish :: "re \<Rightarrow> string \<Rightarrow> nat \<Rightarrow> string option list \<times> nat \<times> nat option \<times> bool \<Rightarrow> string option list" where
  "shim_finish r s limit = (\<lambda>(out, p, len, left).
     (let out = (if p = length s then
                   (if (case len of None \<Rightarrow> False | Some k \<Rightarrow> k \<noteq> 0) \<or> left \<or> \<not> re_test r '''' then out @ [Some ''''] else out)
                 else out @ [Some (slice_from s (int p))])
      in if length out > limit then take limit out else out))"

definition split_shim :: "re \<Rightarrow> nat \<Rightarrow> string \<Rightarrow> int option \<Rightarrow> string option list" where
  "split_shim r n s limit =
     shim_finish r s (to_limit limit) (shim_loop n s (to_limit limit) [] 0 None (matches_from r s 0))"

section \<open>Agreement with the language\<close>

text \<open>The loop without a limit, as a function to the rest of the output.\<close>

fun pieces_loop :: "re \<Rightarrow> nat \<Rightarrow> string \<Rightarrow> nat \<Rightarrow> nat option \<Rightarrow> found list \<Rightarrow> string option list" where
  "pieces_loop r n s p len [] =
     (if p = length s then (if (case len of None \<Rightarrow> False | Some k \<Rightarrow> k \<noteq> 0) \<or> \<not> re_test r '''' then [Some ''''] else [])
      else [Some (drop p s)])"
| "pieces_loop r n s p len ((a, b, c) # xs) =
     (if b > p then Some (take (a - p) (drop p s)) # (if a < length s then map (map_of c) [1..<Suc n] else []) @
        pieces_loop r n s b (Some (b - a)) xs
      else pieces_loop r n s p len xs)"

lemma slice_nat: "a \<le> length s \<Longrightarrow> p \<le> length s \<Longrightarrow> JS_Base.slice s (int p) (int a) = take (a - p) (drop p s)"
  by (cases "a < p") (auto simp: JS_Base.slice_def rel_index_def)

lemma slice_from_nat: "p \<le> length s \<Longrightarrow> slice_from s (int p) = drop p s"
  by (simp add: slice_from_in)

lemma shim_loop_pieces:
  assumes "p \<le> length s" "\<forall>(a, b, c)\<in>set xs. a \<le> b \<and> b \<le> length s"
    and "length out + length (pieces_loop r n s p len xs) < limit"
  shows "shim_finish r s limit (shim_loop n s limit out p len xs) = out @ pieces_loop r n s p len xs"
  using assms
proof (induction xs arbitrary: out p len)
  case Nil
  then show ?case by (auto simp: shim_finish_def Let_def slice_from_nat split: if_splits)
next
  case (Cons x xs)
  obtain a b c where x: "x = (a, b, c)" by (cases x)
  have ab: "a \<le> b" "b \<le> length s" and xs: "\<forall>(a, b, c)\<in>set xs. a \<le> b \<and> b \<le> length s" using Cons.prems(2) x by auto
  show ?case
  proof (cases "b > p")
    case True
    let ?out = "out @ Some (take (a - p) (drop p s)) # (if a < length s then map (map_of c) [1..<Suc n] else [])"
    have o: "out @ Some (JS_Base.slice s (int p) (int a)) # (if 0 < n \<and> a < length s then map (map_of c) [1..<Suc n] else []) = ?out"
      using ab Cons.prems(1) by (auto simp: slice_nat)
    have l: "length ?out + length (pieces_loop r n s b (Some (b - a)) xs) < limit"
      using Cons.prems(3) True by (simp add: x)
    show ?thesis
      using Cons.IH [OF ab(2) xs l] l True unfolding x shim_loop.simps pieces_loop.simps o by (simp add: Let_def)
  next
    case False
    then show ?thesis using Cons.IH [OF Cons.prems(1) xs] Cons.prems(3) by (simp add: x)
  qed
qed

lemma forward_end:
  assumes "forward r" "ms r s (length s, []) \<noteq> []" shows "re_test r ''''"
proof -
  have "ms r (s @ []) (shift_state (length s) (0, [])) = map (shift_state (length s)) (ms r [] (0, []))"
    by (rule ms_shift [OF assms(1)])
  then have "ms r [] (0, []) \<noteq> []" using assms(2) by (auto simp: shift_state_def)
  then show ?thesis by (auto simp: re_test_def search_None_iff)
qed

lemma split_loop_pieces:
  assumes "forward r" "p \<le> q" "q \<le> length s" "length s - q < fuel" "p = length s \<longrightarrow> (\<exists>k. len = Some (Suc k))"
  shows "split_loop r n s p q fuel = pieces_loop r n s p len (matches_from r s q)"
  using assms(2-)
proof (induction fuel arbitrary: p q len)
  case 0
  then show ?case by simp
next
  case (Suc fuel)
  show ?case
  proof (cases "q < length s")
    case False
    then have q: "q = length s" using Suc.prems by simp
    have d: "split_loop r n s p q (Suc fuel) = [Some (drop p s)]" using False by simp
    show ?thesis
    proof (cases "ms r s (q, [])")
      case Nil
      then have "matches_from r s q = []" using q by (simp add: matches_from_skip matches_from.simps [of r s "Suc (length s)"] search_end)
      then show ?thesis using d Suc.prems(4) by auto
    next
      case (Cons y ys)
      obtain b c where y: "y = (b, c)" by (cases y)
      have "b = q" using ms_bounds [of y r s "(q, [])"] Cons y q by simp
      then have m: "matches_from r s q = [(q, q, c)]"
        using matches_from_here [of q s r b c ys] Cons y q by (simp add: matches_from.simps [of r s "Suc (length s)"] search_end)
      have "re_test r ''''" using forward_end [OF assms(1), of s] unfolding Cons [unfolded q] by blast
      then show ?thesis using d Suc.prems(1,4) q unfolding m by auto
    qed
  next
    case True
    show ?thesis
    proof (cases "ms r s (q, [])")
      case Nil
      then show ?thesis using Suc.IH [of p "Suc q" len] Suc.prems True by (simp add: matches_from_skip)
    next
      case (Cons y ys)
      obtain e c where y: "y = (e, c)" by (cases y)
      have e: "q \<le> e" "e \<le> length s" using ms_bounds [of y r s "(q, [])"] Cons y True by auto
      have m: "matches_from r s q = (q, e, c) # matches_from r s (if e = q then Suc e else e)"
        using matches_from_here [of q s r e c ys] Cons y True by simp
      show ?thesis
      proof (cases "e = p")
        case True
        then have "e = q" using e Suc.prems(1) by simp
        then show ?thesis using True Suc.IH [of p "Suc q" len] Suc.prems \<open>q < length s\<close> Cons y m by simp
      next
        case False
        then have "p < e" using e Suc.prems(1) by simp
        moreover have "split_loop r n s e (if e = q then Suc q else e) fuel
            = pieces_loop r n s e (Some (e - q)) (matches_from r s (if e = q then Suc e else e))"
          using Suc.IH [of e "if e = q then Suc q else e" "Some (e - q)"] Suc.prems True e by (auto simp: Suc_diff_le not0_implies_Suc)
        ultimately show ?thesis using True False Cons y m by simp
      qed
    qed
  qed
qed


lemma pieces_loop_length:
  "p \<le> length s \<Longrightarrow> \<forall>(a, b, c)\<in>set xs. b \<le> length s \<Longrightarrow> length (pieces_loop r n s p len xs) \<le> (length s - p) * (n + 1) + 1"
proof (induction xs arbitrary: p len)
  case (Cons x xs)
  obtain a b c where x: "x = (a, b, c)" by (cases x)
  show ?case
  proof (cases "b > p")
    case True
    have "length (pieces_loop r n s b (Some (b - a)) xs) \<le> (length s - b) * (n + 1) + 1" using Cons x by auto
    then have "length (pieces_loop r n s p len (x # xs)) \<le> (n + 1) + ((length s - b) * (n + 1) + 1)"
      using True by (simp add: x)
    also have "\<dots> = Suc (length s - b) * (n + 1) + 1" by simp
    also have "\<dots> \<le> (length s - p) * (n + 1) + 1"
      using True Cons.prems(2) x by (intro add_right_mono mult_right_mono) auto
    finally show ?thesis .
  next
    case False
    then show ?thesis using Cons x by auto
  qed
qed simp

text \<open>
  C37: for a separator whose match depends only on what follows (no \<open>^\<close> and no word boundary), the installed
  \<open>split\<close> gives what the \<open>split\<close> of the language gives, as long as the number of pieces fits into 32 bits.
\<close>

theorem split_shim_agrees:
  assumes "forward r" "length s * (n + 1) + 1 < 2 ^ 32 - 1"
  shows "split_shim r n s None = split_re r n s"
proof -
  let ?xs = "matches_from r s 0"
  have b: "\<forall>(a, b, c)\<in>set ?xs. a \<le> b \<and> b \<le> length s" using matches_from_bounds by blast
  have "\<forall>(a, b, c)\<in>set ?xs. b \<le> length s" using b by fastforce
  then have "length (pieces_loop r n s 0 None ?xs) \<le> length s * (n + 1) + 1"
    using pieces_loop_length [of 0 s ?xs r n None] by auto
  moreover have "to_limit None = 2 ^ 32 - 1" by (rule to_limit_None)
  ultimately have shim: "split_shim r n s None = pieces_loop r n s 0 None ?xs"
    using shim_loop_pieces [of 0 s ?xs "[]" r n None "to_limit None"] b assms(2) by (simp add: split_shim_def)
  show ?thesis
  proof (cases "s = []")
    case False
    then show ?thesis using shim split_loop_pieces [OF assms(1), of 0 0 s "Suc (length s)" None n] by (simp add: split_re_def)
  next
    case True
    have "pieces_loop r n [] 0 None (matches_from r [] 0) = (if ms r [] (0, []) = [] then [Some []] else [])"
    proof (cases "ms r [] (0, [])")
      case Nil
      then show ?thesis by (simp add: matches_from_skip matches_from.simps [of r "[]" "Suc 0"] search_end re_test_def search_None_iff)
    next
      case (Cons y ys)
      obtain e c where y: "y = (e, c)" by (cases y)
      have "e = 0" using ms_bounds [of y r "[]" "(0, [])"] Cons y by simp
      moreover have "re_test r ''''" using Cons by (auto simp: re_test_def search_None_iff)
      ultimately show ?thesis
        using matches_from_here [of 0 "[]" r e c ys] Cons y by (simp add: matches_from.simps [of r "[]" "Suc 0"] search_end)
    qed
    then show ?thesis using shim True by (simp add: split_re_def)
  qed
qed

theorem split_shim_agrees_witness:
  "split_shim (Chr CHR '' '') 0 ''a b'' None = [Some ''a'', Some ''b'']"
proof -
  have "split_re (Chr CHR '' '') 0 ''a b'' = [Some ''a'', Some ''b'']" by code_simp
  then show ?thesis using split_shim_agrees [of "Chr CHR '' ''" "''a b''" 0] by (simp add: Chr_def)
qed

text \<open>Without that condition they differ: a word boundary matches at the end of the text and not in the empty text.\<close>

theorem split_shim_boundary:
  "split_shim WordB 0 ''a'' None = [Some ''a'', Some ''''] \<and> split_re WordB 0 ''a'' = [Some ''a'']"
proof -
  have m: "matches_from WordB ''a'' 0 = [(0, 0, []), (1, 1, [])]" by code_simp
  have l: "to_limit None = 2 ^ 32 - 1" by (rule to_limit_None)
  have t: "\<not> re_test WordB ''''" by code_simp
  have "split_re WordB 0 ''a'' = [Some ''a'']" by code_simp
  then show ?thesis using t by (simp add: split_shim_def m l shim_finish_def slice_nat [of 1 "''a''" 0, simplified])
qed

end
