(* ===== verification/Layout.thy ===== *)
theory Layout
  imports Complex_Main Text_Tools
begin

text \<open>
  The geometry of the widget: how many characters and lines fit, whether it has scroll bars and is in view, scrolling
  by keys and by the mouse wheel, and the signature that fits the width. Lengths are rational numbers of pixels; what the browser
  measures is a parameter. A number that is not finite in the language is \<^const>\<open>None\<close>.
\<close>

section \<open>Measuring\<close>

record box =
  b_width :: rat
  b_height :: rat
  inner_width :: rat
  inner_height :: rat
  scroll_height :: rat
  b_top :: rat
  is_body :: bool

record screen =
  body_height :: rat
  window_height :: rat
  window_top :: rat
  text_width :: "nat \<Rightarrow> rat"    \<comment> \<open>the width of a span with so many spaces\<close>
  char_width :: rat
  char_height :: rat

definition have_scrollbars :: "screen \<Rightarrow> box \<Rightarrow> bool" where
  "have_scrollbars sc b =
     (if is_body b then body_height sc > window_height sc else scroll_height b > inner_height b)"

definition char_size :: "screen \<Rightarrow> rat \<times> rat" where
  "char_size sc = (char_width sc, char_height sc)"

text \<open>The loop up to and including \<open>max\<close> makes 61 spaces, whose width is divided by 60.\<close>

definition get_num_chars :: "screen \<Rightarrow> box \<Rightarrow> int option" where
  "get_num_chars sc b =
     (let max_chars = 60; spaces = length [0..<max_chars + 1];
          width = text_width sc spaces / of_nat max_chars
      in if width = 0 then None
         else
           (let result = \<lfloor>b_width b / width\<rfloor>
            in if have_scrollbars sc b then
                 (let margins = inner_width b - b_width b
                  in if width - 1 = 0 then None else Some (result - \<lceil>(20 - margins / 2) / (width - 1)\<rceil>))
               else Some result))"

definition get_num_rows :: "screen \<Rightarrow> box \<Rightarrow> int option" where
  "get_num_rows sc b = (if snd (char_size sc) = 0 then None else Some \<lfloor>b_height b / snd (char_size sc)\<rfloor>)"

definition change_num_chars :: "rat \<Rightarrow> rat \<Rightarrow> int option" where \<comment> \<open>in the command line, by the width of the cursor\<close>
  "change_num_chars W w = (if w = 0 then None else Some \<lfloor>W / w\<rfloor>)"

definition is_scrolled_into_view :: "screen \<Rightarrow> box \<Rightarrow> bool" where
  "is_scrolled_into_view sc b =
     (let doc_top = window_top sc; doc_bottom = doc_top + window_height sc;
          elem_top = b_top b; elem_bottom = elem_top + b_height b
      in elem_bottom \<ge> doc_top \<and> elem_top \<le> doc_bottom)"

section \<open>Scrolling\<close>

text \<open>The element keeps \<open>scrollTop\<close> between 0 and \<open>limit\<close>.\<close>

definition set_scroll_top :: "int \<Rightarrow> int \<Rightarrow> int" where
  "set_scroll_top limit p = max 0 (min limit p)"

definition js_round :: "rat \<Rightarrow> int" where
  "js_round x = \<lfloor>x + 1 / 2\<rfloor>"

definition scroll :: "int \<Rightarrow> rat \<Rightarrow> int \<Rightarrow> int" where
  "scroll limit amount pos =
     (let amount = js_round amount;
          pos = (if amount > pos \<and> amount > 0 then set_scroll_top limit 0 else pos)
      in set_scroll_top limit (pos + amount))"

definition scroll_to_bottom :: "int \<Rightarrow> rat \<Rightarrow> int" where
  "scroll_to_bottom limit height = set_scroll_top limit \<lfloor>height\<rfloor>"

text \<open>The wheel: SHIFT is known from the events of its key.\<close>

record wheel =
  w_shift :: bool
  w_pos :: int

definition wheel_keydown :: "bool \<Rightarrow> wheel \<Rightarrow> wheel" where
  "wheel_keydown shift_key s = (if shift_key then s\<lparr>w_shift := True\<rparr> else s)"

definition wheel_keyup :: "bool \<Rightarrow> int \<Rightarrow> wheel \<Rightarrow> wheel" where
  "wheel_keyup shift_key which_key s = (if shift_key \<or> which_key = 16 then s\<lparr>w_shift := False\<rparr> else s)"

definition mousewheel :: "int \<Rightarrow> int \<Rightarrow> wheel \<Rightarrow> wheel" where
  "mousewheel limit delta s =
     (if \<not> w_shift s then
        (if delta > 0 then s\<lparr>w_pos := scroll limit (-40) (w_pos s)\<rparr> else s\<lparr>w_pos := scroll limit 40 (w_pos s)\<rparr>)
      else s)"

section \<open>Resizing\<close>

text \<open>
  \<open>resize\<close> as far as the numbers go, and the two events that call it. \<open>old_width\<close> and \<open>old_height\<close> are set only
  when the numbers change. The result says whether the lines are drawn again.
\<close>

record sizes =
  num_chars' :: "int option"
  num_rows' :: "int option"
  old_size :: "(rat \<times> rat) option"
  scroll_bars :: bool

definition resize_sizes :: "screen \<Rightarrow> box \<Rightarrow> sizes \<Rightarrow> bool \<times> sizes" where
  "resize_sizes sc b s =
     (let new_num_chars = get_num_chars sc b; new_num_rows = get_num_rows sc b
      in if new_num_chars \<noteq> num_chars' s \<or> new_num_rows \<noteq> num_rows' s then
           (True, s\<lparr>num_chars' := new_num_chars, num_rows' := new_num_rows, old_size := Some (b_width b, b_height b)\<rparr>)
         else (False, s))"

definition window_resized :: "bool \<Rightarrow> screen \<Rightarrow> box \<Rightarrow> sizes \<Rightarrow> bool \<times> sizes" where
  "window_resized shown sc b s =
     (if shown \<and> old_size s \<noteq> Some (b_width b, b_height b) then resize_sizes sc b s else (False, s))"

definition on_scrollbar_show_resize :: "screen \<Rightarrow> box \<Rightarrow> sizes \<Rightarrow> bool \<times> sizes" where
  "on_scrollbar_show_resize sc b s =
     (if scroll_bars s \<noteq> have_scrollbars sc b then
        (let (r, s) = resize_sizes sc b s in (r, s\<lparr>scroll_bars := have_scrollbars sc b\<rparr>))
      else (False, s))"

section \<open>The signature\<close>

definition version :: string where "version = ''0.9.3''"

definition version_set :: bool where
  "version_set \<longleftrightarrow> \<not> re_test (Seq Bol (Lit ''{{'')) version"

definition version_string :: string where
  "version_string = (if version_set then '' v. '' @ version else '' '')"

definition copyright :: string where
  "copyright = ''Copyright (c) 2011-2015 Jakub Jankiewicz <http://jcubic'' @ ''.pl>''"

fun repeat_re :: "nat \<Rightarrow> re \<Rightarrow> re" where
  "repeat_re 0 r = Eps"
| "repeat_re (Suc n) r = Seq r (repeat_re n r)"

definition reg :: re where \<comment> \<open>spaces of the length of the version at the end\<close>
  "reg = Seq (repeat_re (length version_string) (Chr CHR '' '')) Eol"

definition name_ver :: string where
  "name_ver = ''jQuery Terminal Emulator'' @ (if version_set then version_string else '''')"

definition short_copyright_re :: re where \<comment> \<open>\<open>/^Copyright | *<.*>/g\<close>\<close>
  "short_copyright_re = Alt (Seq Bol (Lit ''Copyright ''))
     (Seq (Star (Chr CHR '' '')) (Seq (Chr CHR ''<'') (Seq (Star (none_of [CHR 0x0A, CHR 0x0D])) (Chr CHR ''>''))))"

definition bslash :: char where "bslash = CHR 0x5C"

definition signatures :: "string list list" where
  "signatures =
    [[''jQuery Terminal'', ''(c) 2011-2015 jcubic''],
     [name_ver, replace_all short_copyright_re (\<lambda>_. '''') copyright],
     [name_ver, replace_first (Seq Bol (Lit ''Copyright '')) (\<lambda>_. '''') copyright],
     [''      _______                 ________                        __'',
      ''     / / _  /_ ____________ _/__  ___/______________  _____  / /'',
      '' __ / / // / // / _  / _/ // / / / _  / _/     / /  '' @ [bslash] @ ''/ / _ '' @ [bslash] @ ''/ /'',
      ''/  / / // / // / ___/ // // / / / ___/ // / / / / /'' @ [bslash] @ ''  / // / /__'',
      [bslash] @ ''___/____ '' @ [bslash, bslash] @ ''__/____/_/ '' @ [bslash] @ ''__ / /_/____/_//_/ /_/ /_/  '' @ [bslash] @ ''/'' @ [bslash] @ ''__'' @ [bslash] @ ''_'' @ [bslash] @ ''___/'',
      replace_first reg (\<lambda>_. '' '') (''         '' @ [bslash] @ ''/          /____/                                   '') @ version_string,
      copyright],
     [''      __ _____                     ________                              __'',
      ''     / // _  /__ __ _____ ___ __ _/__  ___/__ ___ ______ __ __  __ ___  / /'',
      '' __ / // // // // // _  // _// // / / // _  // _//     // //  '' @ [bslash] @ ''/ // _ '' @ [bslash] @ ''/ /'',
      ''/  / // // // // // ___// / / // / / // ___// / / / / // // /'' @ [bslash] @ ''  // // / /__'',
      [bslash] @ ''___//____ '' @ [bslash, bslash] @ ''___//____//_/ _'' @ [bslash] @ ''_  / /_//____//_/ /_/ /_//_//_/ /_/ '' @ [bslash] @ ''__'' @ [bslash] @ ''_'' @ [bslash] @ ''___/'',
      replace_first reg (\<lambda>_. '''') (''          '' @ [bslash] @ ''/              /____/                                          '') @ version_string,
      copyright]]"

definition signature :: "int \<Rightarrow> string" where
  "signature cols =
     (let i = (if cols < 15 then None else if cols < 35 then Some 0 else if cols < 55 then Some 1
               else if cols < 64 then Some 2 else if cols < 75 then Some 3 else Some (4 :: nat))
      in case i of None \<Rightarrow> '''' | Some i \<Rightarrow> join_with [CHR 0x0A] (signatures ! i) @ [CHR 0x0A])"

section \<open>What fits\<close>


definition plain_screen :: screen where
  "plain_screen = \<lparr>body_height = 600, window_height = 600, window_top = 0, text_width = (\<lambda>n. of_nat n * 8), char_width = 8, char_height = 16\<rparr>"

definition plain_box :: "rat \<Rightarrow> rat \<Rightarrow> box" where
  "plain_box w h = \<lparr>b_width = w, b_height = h, inner_width = w, inner_height = h, scroll_height = h, b_top = 0, is_body = False\<rparr>"


text \<open>
  Scrolling down by more than the present position first goes to the top, so the way is shorter by that position.
\<close>

theorem scroll_loses_position:
  assumes "0 < p" "p < a" "a \<le> limit"
  shows "scroll limit (of_int a) p = a"
proof -
  have "js_round (of_int a) = a" unfolding js_round_def by linarith
  then show ?thesis using assms by (simp add: scroll_def set_scroll_top_def)
qed

theorem scroll_loses_position_witness: "scroll 1000 40 39 = 40"
  using scroll_loses_position [of 39 40 1000] by simp

section \<open>The signature fits\<close>

lemma signature_lengths: "map (map length) signatures =
    [[15, 20], [33, 30], [33, 49], [64, 64, 63, 64, 64, 63, 59], [75, 75, 74, 75, 75, 74, 59]]"
  by code_simp

lemma signature_one_line: "\<forall>ls\<in>set signatures. ls \<noteq> [] \<and> (\<forall>l\<in>set ls. CHR 0x0A \<notin> set l)"
  by code_simp

text \<open>
  Every line of the signature fits the width of the terminal, except on one of 15 to 19 columns, where the
  second line is too long.
\<close>

theorem signature_fits:
  assumes "0 \<le> c"
  shows "(\<forall>l\<in>set (split_char CHR 0x0A (signature c)). int (length l) \<le> c) \<longleftrightarrow> c < 15 \<or> 20 \<le> c"
proof -
  have lines: "split_char CHR 0x0A (join_with [CHR 0x0A] ls @ [CHR 0x0A]) = ls @ [[]]" if "ls \<in> set signatures" for ls
  proof -
    have ne: "ls \<noteq> []" "\<forall>l\<in>set (ls @ [[]]). CHR 0x0A \<notin> set l" using signature_one_line that by auto
    have "join_with [CHR 0x0A] ls @ [CHR 0x0A] = join_with [CHR 0x0A] (ls @ [[]])"
      using ne(1) by (induction ls rule: join_with.induct [of _ "[CHR 0x0A]"]) auto
    then show ?thesis using split_char_join [of "ls @ [[]]" "CHR 0x0A"] ne by simp
  qed
  have n: "length signatures = 5" using arg_cong [OF signature_lengths, of length] by simp
  have fit: "(\<forall>l\<in>set (split_char CHR 0x0A (join_with [CHR 0x0A] (signatures ! i) @ [CHR 0x0A])). int (length l) \<le> c) \<longleftrightarrow>
      (\<forall>k\<in>set ([[15, 20], [33, 30], [33, 49], [64, 64, 63, 64, 64, 63, 59], [75, 75, 74, 75, 75, 74, 59]] ! i). int k \<le> c)" if "i < 5" for i
  proof -
    have "map length (signatures ! i) = map (map length) signatures ! i" using that n by simp
    then have "set ([[15, 20], [33, 30], [33, 49], [64, 64, 63, 64, 64, 63, 59], [75, 75, 74, 75, 75, 74, 59]] ! i) = length ` set (signatures ! i)"
      unfolding signature_lengths by (metis set_map)
    then show ?thesis using lines [of "signatures ! i"] that n assms by simp
  qed
  show ?thesis
    using assms fit [of 0] fit [of 1] fit [of 2] fit [of 3] fit [of 4]
    by (auto simp: signature_def Let_def split_char.simps)
qed

theorem signature_fits_witness: "\<forall>l\<in>set (split_char CHR 0x0A (signature 80)). int (length l) \<le> 80"
  using signature_fits [of 80] by simp

end
