(* ===== verification/Reports.thy ===== *)
theory Reports
  imports Term_Exec
begin

text \<open>
  What the terminal reports on its page: exceptions with the file and the stack they came from (\<open>exception\<close>), errors of
  requests (\<open>ajax_error\<close>, \<open>display_json_rpc_error\<close>), prompts that are none (\<open>validate\<close>) and the lines of a file around
  the place of an error (\<open>print_line\<close>). A request for a file is recorded; the answer is an operation of its own.
\<close>

section \<open>exception\<close>

text \<open>A thrown text, or an object with its \<open>message\<close>, \<open>fileName\<close>, \<open>lineNumber\<close> and \<open>stack\<close>.\<close>

record thrown_obj =
  ex_message :: string
  ex_file :: "string option"
  ex_line :: int
  ex_stack :: "string option"

datatype thrown = ThrownText string | ThrownObj thrown_obj

fun thrown_message :: "thrown \<Rightarrow> string" where
  "thrown_message (ThrownText s) = s"
| "thrown_message (ThrownObj e) =
     (case ex_file e of Some f \<Rightarrow> f @ '': '' @ ex_message e | None \<Rightarrow> ex_message e)"

text \<open>The terminal with the requests for files that are under way: the name and the number of the line.\<close>

record reporter =
  r_term :: terminal
  gets :: "(string \<times> int) list"

record r_env =
  r_te :: t_env
  on_message :: nat     \<comment> \<open>the finalize function of a message\<close>
  on_stack :: nat       \<comment> \<open>the finalize function of a stack\<close>
  exception_handler :: "(thrown \<Rightarrow> terminal \<Rightarrow> js_error option \<times> terminal) option"
  on_ajax_error :: "(string \<Rightarrow> string \<Rightarrow> terminal \<Rightarrow> js_error option \<times> terminal) option"
  on_rpc_error :: "(string \<Rightarrow> terminal \<Rightarrow> js_error option \<times> terminal) option"
  r_resume :: "terminal meth"
  location_href :: string

definition echo_opts_with :: "t_env \<Rightarrow> nat \<Rightarrow> echo_opts" where
  "echo_opts_with e k = (default_opts (t_out e))\<lparr>lo_finalize := Some k\<rparr>"

definition echo_line :: "t_env \<Rightarrow> string \<Rightarrow> echo_opts \<Rightarrow> terminal \<Rightarrow> terminal" where
  "echo_line e s opts st = echo (t_out e) (extended e) (LineVal (JStr s)) opts st"

definition stack_line :: "string \<Rightarrow> string" where
  "stack_line trace =
     ''[[;;;error]'' @ replace_all url_re (\<lambda>m. '']'' @ found_text trace m @ ''[[;;;error]'') trace @ '']''"

definition stack_text :: "string \<Rightarrow> string" where
  "stack_text stack = join_with [CHR 0x0A] (map stack_line (split_char CHR 0x0A stack))"

definition exception :: "r_env \<Rightarrow> thrown \<Rightarrow> string \<Rightarrow> reporter meth" where
  "exception env e label s =
     (let te' = r_te env;
          message = thrown_message e;
          message = (if label \<noteq> '''' then ''&#91;'' @ label @ ''&#93;: '' @ message else message);
          s = (if message \<noteq> '''' then s\<lparr>r_term := echo_line te' (error_text message) (echo_opts_with te' (on_message env)) (r_term s)\<rparr> else s);
          asked = (case e of
                     ThrownObj ob \<Rightarrow>
                       (case ex_file ob of
                          None \<Rightarrow> (None, s)
                        | Some f \<Rightarrow>
                            (case pause te' (r_term s) of
                               (Some err, st) \<Rightarrow> (Some err, s\<lparr>r_term := st\<rparr>)
                             | (None, st) \<Rightarrow> (None, s\<lparr>r_term := st, gets := gets s @ [(f, ex_line ob)]\<rparr>)))
                   | ThrownText t \<Rightarrow> (None, s))
      in and_then asked (\<lambda>s.
           (None,
            case e of
              ThrownObj ob \<Rightarrow>
                (case ex_stack ob of
                   Some stack \<Rightarrow>
                     (if stack \<noteq> '''' then s\<lparr>r_term := echo_line te' (stack_text stack) (echo_opts_with te' (on_stack env)) (r_term s)\<rparr> else s)
                 | None \<Rightarrow> s)
            | ThrownText t \<Rightarrow> s)))"

text \<open>The answer to a request: the line that threw.\<close>

definition file_arrived :: "r_env \<Rightarrow> int \<Rightarrow> string \<Rightarrow> reporter meth" where
  "file_arrived env line_number file s =
     (case r_resume env (r_term s) of
        (Some e, st) \<Rightarrow> (Some e, s\<lparr>r_term := st\<rparr>)
      | (None, st) \<Rightarrow>
          (None, s\<lparr>r_term :=
             (case at (split_char CHR 0x0A file) (line_number - 1) of
                None \<Rightarrow> st
              | Some l \<Rightarrow> if l = '''' then st else t_error (r_te env) (''['' @ show_int line_number @ '']: '' @ l) st)\<rparr>))"

definition display_thrown :: "r_env \<Rightarrow> thrown \<Rightarrow> string \<Rightarrow> reporter meth" where
  "display_thrown env e label s =
     (case exception_handler env of
        Some h \<Rightarrow> (let (r, st) = h e (r_term s) in (r, s\<lparr>r_term := st\<rparr>))
      | None \<Rightarrow> exception env e label s)"

section \<open>Requests and prompts\<close>

definition ajax_error :: "r_env \<Rightarrow> string \<Rightarrow> string \<Rightarrow> reporter meth" where
  "ajax_error env status response s =
     (let (r, st) = and_then (r_resume env (r_term s)) (\<lambda>st.
            (case on_ajax_error env of
               Some h \<Rightarrow> h status response st
             | None \<Rightarrow>
                 (None, if status \<noteq> ''abort'' then
                          t_error (r_te env) (''&#91;AJAX&#93; '' @ status @ '' - Server responded: '' @ [CHR 0x0A] @ escape_brackets response) st
                        else st)))
      in (r, s\<lparr>r_term := st\<rparr>))"

definition display_json_rpc_error :: "r_env \<Rightarrow> string \<Rightarrow> reporter meth" where
  "display_json_rpc_error env message s =
     (let (r, st) = (case on_rpc_error env of
            Some h \<Rightarrow> h message (r_term s)
          | None \<Rightarrow> (None, t_error (r_te env) (''&#91;RPC&#93; '' @ message) (r_term s)))
      in (r, s\<lparr>r_term := st\<rparr>))"

text \<open>What is given as a prompt: a text, a function with what calling it does, or anything else.\<close>

datatype prompt_value = AText string | AFunction "terminal \<Rightarrow> thrown option \<times> terminal" | AnotherValue

definition to_upper :: "string \<Rightarrow> string" where
  "to_upper s = map (\<lambda>c. if CHR ''a'' \<le> c \<and> c \<le> CHR ''z'' then char_of (of_char c - (32 :: nat)) else c) s"

definition validate :: "r_env \<Rightarrow> string \<Rightarrow> prompt_value \<Rightarrow> reporter \<Rightarrow> (js_error + bool) \<times> reporter" where
  "validate env label v s =
     (let caught = (\<lambda>e s. case display_thrown env e (to_upper label) s of (Some err, s) \<Rightarrow> (Inl err, s) | (None, s) \<Rightarrow> (Inr False, s))
      in case v of
           AText t \<Rightarrow> (Inr True, s)
         | AFunction f \<Rightarrow>
             (case f (r_term s) of
                (None, st) \<Rightarrow> (Inr True, s\<lparr>r_term := st\<rparr>)
              | (Some e, st) \<Rightarrow> caught e (s\<lparr>r_term := st\<rparr>))
         | AnotherValue \<Rightarrow> caught (ThrownText (label @ '' must be string or function'')) s)"

section \<open>print\_line\<close>

definition url_line_re :: re where \<comment> \<open>\<open>/(.*):([0-9]+):([0-9]+)$/\<close>\<close>
  "url_line_re = Seq (Grp 1 (Star (none_of [CHR 0x0A, CHR 0x0D]))) (Seq (Chr CHR '':'') (Seq (Grp 2 (Plus (Cls digit_char)))
     (Seq (Chr CHR '':'') (Seq (Grp 3 (Plus (Cls digit_char))) Eol))))"

definition print_line :: "r_env \<Rightarrow> string \<Rightarrow> reporter meth" where
  "print_line env url_spec s =
     (case search url_line_re url_spec 0 of
        None \<Rightarrow> (None, s)
      | Some m \<Rightarrow>
          (case pause (r_te env) (r_term s) of
             (Some e, st) \<Rightarrow> (Some e, s\<lparr>r_term := st\<rparr>)
           | (None, st) \<Rightarrow> (None, s\<lparr>r_term := st, gets := gets s @ [(cap_text 1 m, int (read_nat 0 (cap_text 2 m)))]\<rparr>)))"

text \<open>The five lines, with \<open>n\<close> the number of the line less one.\<close>

definition code_lines :: "string list \<Rightarrow> int \<Rightarrow> string list" where
  "code_lines code n =
     (let some_lines = JS_Base.slice code (n - 2) (n + 3)
      in map (\<lambda>i. let l = some_lines ! i; l = (if i = 2 then ''[[;#f00;]'' @ escape_brackets l @ '']'' else l)
                  in ''['' @ show_int (n + int i) @ '']: '' @ l) [0..<length some_lines])"

text \<open>\<open>location.href.replace(/[^\/]+$/, '')\<close>, and the first occurrence of a text taken out.\<close>

definition href_prefix :: "string \<Rightarrow> string" where
  "href_prefix href = replace_first (Seq (Plus (none_of ''/'')) Eol) (\<lambda>_. '''') href"

definition without_prefix :: "string \<Rightarrow> string \<Rightarrow> string" where
  "without_prefix pre file = replace_first (Lit pre) (\<lambda>_. '''') file"

definition line_file_arrived :: "r_env \<Rightarrow> string \<Rightarrow> int \<Rightarrow> string \<Rightarrow> reporter meth" where
  "line_file_arrived env url line_number response s =
     (let te' = r_te env;
          file = without_prefix (href_prefix (location_href env)) url;
          st = echo_line te' (''[[b;white;]'' @ file @ '']'') (default_opts (t_out te')) (r_term s);
          code = split_char CHR 0x0A response;
          st = echo_line te' (join_with [CHR 0x0A] (code_lines code (line_number - 1))) (default_opts (t_out te')) st;
          (r, st) = r_resume env st
      in (r, s\<lparr>r_term := st\<rparr>))"

section \<open>Properties\<close>

text \<open>
  The five lines shown around the line of an error are the right ones, with that line in the middle and
  highlighted, but each has the number of the line after it.
\<close>

theorem code_lines_numbered:
  assumes "2 \<le> k" "k + 3 \<le> length code" "i < 5"
  shows "length (code_lines code (int k)) = 5 \<and>
    code_lines code (int k) ! i =
      ''['' @ show_int (int (k - 2 + i) + 2) @ '']: '' @
      (if i = 2 then ''[[;#f00;]'' @ escape_brackets (code ! k) @ '']'' else code ! (k - 2 + i))"
proof -
  have s: "JS_Base.slice code (int k - 2) (int k + 3) = take 5 (drop (k - 2) code)"
    using assms(1) JS_Base.slice_in [of "int k - 2" "int k + 3" code] by (simp add: nat_diff_distrib')
  let ?l = "take 5 (drop (k - 2) code)"
  have l: "length ?l = 5" "?l ! i = code ! (k - 2 + i)" using assms by simp_all
  have len: "length (code_lines code (int k)) = 5" by (simp only: code_lines_def s Let_def l length_map length_upt)
  have "code_lines code (int k) ! i = ''['' @ show_int (int k + int i) @ '']: '' @
      (if i = 2 then ''[[;#f00;]'' @ escape_brackets (?l ! i) @ '']'' else ?l ! i)"
    unfolding code_lines_def s Let_def l(1) using assms(3) by (subst nth_map) (simp_all only: length_upt nth_upt add_0 diff_zero)
  moreover have "int k + int i = int (k - 2 + i) + 2" "i = 2 \<Longrightarrow> k - 2 + i = k" using assms(1) by simp_all
  ultimately show ?thesis using len l(2) by (cases "i = 2") (simp_all only: if_True if_False simp_thms refl)
qed

theorem code_lines_numbered_witness:
  "code_lines [''a'', ''b'', ''c'', ''d'', ''e''] 2 ! 0 = ''[2]: a''"
proof -
  have "show_int 2 = ''2''" by code_simp
  then show ?thesis using code_lines_numbered [of 2 "[''a'', ''b'', ''c'', ''d'', ''e'']" 0] by simp
qed

text \<open>Near the beginning of the file nothing is shown, unless the file is short.\<close>

theorem code_lines_first:
  assumes "k < 2" "5 \<le> length code"
  shows "code_lines code (int k) = []"
  using assms by (simp add: code_lines_def JS_Base.slice_def rel_index_def Let_def)

theorem code_lines_first_witness: "code_lines [''a'', ''b'', ''c'', ''d'', ''e''] 0 = []"
  using code_lines_first [of 0 "[''a'', ''b'', ''c'', ''d'', ''e'']"] by simp



end
