(* ===== verification/Cursor.thy ===== *)
theory Cursor
  imports Timers
begin

text \<open>
  The cursor: the caret plugin on a text field (\<open>$.fn.caret\<close>), the blinking cursor of a command line without CSS
  animations on top of the timers plugin, the focus of its clipboard, and two accessors of the command line that share
  its options (\<open>commands\<close>, \<open>visible\<close>).
\<close>

section \<open>Caret\<close>

text \<open>What the browser has: \<open>window.getSelection\<close>, \<open>document.selection\<close> and \<open>document.body.createTextRange\<close>.\<close>

record caret_api =
  get_selection :: bool
  doc_selection :: bool
  text_range :: bool

text \<open>A field: a text area, or an editable element that holds one text node.\<close>

record field =
  field_text :: string
  editable :: bool
  sel_start :: nat
  sel_end :: nat
  focused :: bool

text \<open>A text range of old browsers moves its start by one character; the result is 0 at the beginning of the field.\<close>

definition move_back :: "nat \<Rightarrow> nat \<times> int" where
  "move_back k = (if k = 0 then (0, 0) else (k - 1, - 1))"

function count_moves :: "nat \<Rightarrow> nat \<Rightarrow> nat" where
  "count_moves pos k = (case move_back k of (k', moved) \<Rightarrow> if moved \<noteq> 0 then count_moves (pos + 1) k' else pos)"
  by auto
termination by (relation "measure snd") (auto simp: move_back_def split: if_splits)

declare count_moves.simps [simp del]

definition caret_get :: "caret_api \<Rightarrow> field \<Rightarrow> nat \<times> field" where
  "caret_get br f =
     (if get_selection br then
        (if editable f then (sel_end f, f\<lparr>focused := True\<rparr>) else (sel_start f, f))
      else if doc_selection br then
        (let f = f\<lparr>focused := True\<rparr> in
         if editable f then (sel_end f, f) else (count_moves 0 (sel_start f), f))
      else (0, f))"

text \<open>
  \<open>setSelectionRange\<close> of a text area clamps its arguments (a negative one is a huge unsigned one); \<open>collapse\<close> throws
  past the end of the text. \<open>select_range\<close> is the text range of old browsers.
\<close>

definition set_selection :: "int \<Rightarrow> field \<Rightarrow> field" where
  "set_selection pos f =
     (let n = length (field_text f); k = (if pos < 0 then n else min (nat pos) n) in f\<lparr>sel_start := k, sel_end := k\<rparr>)"

definition caret_set :: "caret_api \<Rightarrow> (int \<Rightarrow> field \<Rightarrow> field) \<Rightarrow> int \<Rightarrow> field \<Rightarrow> (js_error + int) \<times> field" where
  "caret_set br select_range pos f =
     (let pos = (if pos = - 1 then int (length (field_text f)) else pos);
          (e, f) =
            (if get_selection br then
               (if editable f then
                  (let f = f\<lparr>focused := True\<rparr> in
                   if 0 \<le> pos \<and> pos \<le> int (length (field_text f)) then (None, f\<lparr>sel_start := nat pos, sel_end := nat pos\<rparr>)
                   else (Some (Throw ''IndexSizeError''), f))
                else (None, set_selection pos f))
             else if text_range br then (None, select_range pos f)
             else (None, f))
      in case e of
           Some e \<Rightarrow> (Inl e, f)
         | None \<Rightarrow> (Inr pos, if editable f then f else f\<lparr>focused := True\<rparr>))"

definition caret :: "caret_api \<Rightarrow> (int \<Rightarrow> field \<Rightarrow> field) \<Rightarrow> int option \<Rightarrow> field option \<Rightarrow> (js_error + int) \<times> field option" where
  "caret br select_range pos target =
     (case target of
        None \<Rightarrow> (Inl TypeError, None)
      | Some f \<Rightarrow>
          (case pos of
             None \<Rightarrow> (let (n, f) = caret_get br f in (Inr (int n), Some f))
           | Some pos \<Rightarrow> (let (r, f) = caret_set br select_range pos f in (r, Some f))))"

lemma count_moves_eq: "count_moves pos k = pos + k"
  by (induction pos k rule: count_moves.induct) (subst count_moves.simps, auto simp: move_back_def)

text \<open>
  The caret is where it was put: with \<open>getSelection\<close>, setting a position of the text (or -1, its end) and then
  asking for it gives that position and leaves the text alone, in a text area and in an editable element, and a text
  area is focused.
\<close>

theorem caret_roundtrip:
  assumes "get_selection br" "- 1 \<le> pos" "pos \<le> int (length (field_text f))"
  shows "\<exists>f'. caret br select_range (Some pos) (Some f) = (Inr (if pos = - 1 then int (length (field_text f)) else pos), Some f') \<and>
    fst (caret br select_range None (Some f')) = Inr (if pos = - 1 then int (length (field_text f)) else pos) \<and>
    field_text f' = field_text f \<and> focused f'"
  using assms by (auto simp: caret_def caret_get_def caret_set_def set_selection_def Let_def)

theorem caret_roundtrip_witness:
  "\<exists>f'. caret \<lparr>get_selection = True, doc_selection = False, text_range = False\<rparr> (\<lambda>_ f. f) (Some (- 1))
       (Some \<lparr>field_text = ''abc'', editable = False, sel_start = 0, sel_end = 0, focused = False\<rparr>) = (Inr 3, Some f')"
  using caret_roundtrip [of "\<lparr>get_selection = True, doc_selection = False, text_range = False\<rparr>" "- 1"
      "\<lparr>field_text = ''abc'', editable = False, sel_start = 0, sel_end = 0, focused = False\<rparr>" "\<lambda>_ f. f"]
  by auto

text \<open>The loop of old browsers counts the characters before the caret: both ways of reading it agree.\<close>

theorem caret_old_browsers:
  assumes "\<not> editable f" "doc_selection br"
  shows "fst (caret_get br f) = fst (caret_get (br\<lparr>get_selection := True\<rparr>) f)"
  using assms by (simp add: caret_get_def count_moves_eq Let_def)

theorem caret_old_browsers_witness:
  "fst (caret_get \<lparr>get_selection = False, doc_selection = True, text_range = True\<rparr>
     \<lparr>field_text = ''abc'', editable = False, sel_start = 2, sel_end = 2, focused = False\<rparr>) = 2"
  using caret_old_browsers [of "\<lparr>field_text = ''abc'', editable = False, sel_start = 2, sel_end = 2, focused = False\<rparr>"
      "\<lparr>get_selection = False, doc_selection = True, text_range = True\<rparr>"]
  by (simp add: caret_get_def)


section \<open>The blinking cursor\<close>

text \<open>
  The cursor's classes and the closure variable \<open>animating\<close>. \<open>css\<close> says that the browser animates by itself
  (\<open>support_animations() && !is_android()\<close>). \<open>blink_fn\<close> is the function \<open>blink\<close>.
\<close>

record cursor =
  class_blink :: bool
  class_inverted :: bool
  animating :: bool
  cursor_timers :: timers

definition blink_fn :: nat where
  "blink_fn = 0"

definition cursor_off :: cursor where
  "cursor_off = \<lparr>class_blink = False, class_inverted = False, animating = False, cursor_timers = no_timers\<rparr>"

definition blink :: "cursor \<Rightarrow> cursor" where
  "blink c = c\<lparr>class_inverted := \<not> class_inverted c\<rparr>"

definition stop_blink :: "cursor \<Rightarrow> cursor" where
  "stop_blink c = c\<lparr>cursor_timers := remove_timer ''blink'' (Some blink_fn) (cursor_timers c)\<rparr>"

definition animation :: "bool \<Rightarrow> bool \<Rightarrow> cursor \<Rightarrow> cursor" where
  "animation css toggle c =
     (if css then c\<lparr>class_blink := toggle\<rparr>
      else if toggle \<and> \<not> animating c then
        (let c = c\<lparr>animating := True, class_inverted := True\<rparr> in
         c\<lparr>cursor_timers := snd (every_time (JNum 500) (AVal (JStr ''blink'')) (AFun blink_fn) (AVal JUndef) False (cursor_timers c))\<rparr>)
      else if animating c \<and> \<not> toggle then
        (stop_blink (c\<lparr>animating := False\<rparr>))\<lparr>class_inverted := False\<rparr>
      else c)"

text \<open>An interval fires: \<open>blink\<close> does not return \<open>false\<close>.\<close>

definition blink_call :: calling where
  "blink_call f n w = (False, w)"

definition fire :: "nat \<Rightarrow> cursor \<Rightarrow> cursor" where
  "fire k c = (case tick blink_call k (cursor_timers c) of
     (calls, w) \<Rightarrow> fold (\<lambda>p. if fst p = blink_fn then blink else id) calls (c\<lparr>cursor_timers := w\<rparr>))"

text \<open>What a command line does with its cursor: \<open>enable\<close>, \<open>disable\<close>, \<open>destroy\<close>, and time goes by.\<close>

datatype cursor_event = Enable | Disable | Fire nat

fun cursor_step :: "bool \<Rightarrow> cursor \<Rightarrow> cursor_event \<Rightarrow> cursor" where
  "cursor_step css c Enable = animation css True c"
| "cursor_step css c Disable = animation css False c"
| "cursor_step css c (Fire k) = fire k c"

definition cursor_run :: "bool \<Rightarrow> cursor_event list \<Rightarrow> cursor" where
  "cursor_run css es = foldl (cursor_step css) cursor_off es"

text \<open>The last of \<open>enable\<close> and \<open>disable\<close>.\<close>

definition last_toggle :: "cursor_event list \<Rightarrow> bool" where
  "last_toggle es = foldl (\<lambda>b e. case e of Enable \<Rightarrow> True | Disable \<Rightarrow> False | Fire k \<Rightarrow> b) False es"

definition blink_handler :: "nat \<Rightarrow> handler" where
  "blink_handler n = \<lparr>h_label = ''blink'', h_fn = blink_fn, h_times = 0, h_belay = False, h_interval = 500, h_counter = n, h_busy = False\<rparr>"

definition cursor_ok :: "cursor \<Rightarrow> bool" where
  "cursor_ok c =
     (if animating c then
        (\<exists>k i n. intervals (cursor_timers c) = [(k, blink_handler n)] \<and> map_of (fn_ids (cursor_timers c)) blink_fn = Some i \<and>
           by_label (cursor_timers c) = Some [(''blink'', [(i, k)])] \<and> class_inverted c = even n)
      else intervals (cursor_timers c) = [] \<and> by_label (cursor_timers c) = None \<and> \<not> class_inverted c)"

lemma cursor_ok_off: "cursor_ok cursor_off"
  by (simp add: cursor_ok_def cursor_off_def no_timers_def)

lemma cursor_ok_on:
  assumes "cursor_ok c" "\<not> animating c"
  shows "cursor_ok (animation False True c)" "animating (animation False True c)"
proof -
  let ?w = "cursor_timers c"
  have w: "by_label ?w = None" "intervals ?w = []" using assms by (auto simp: cursor_ok_def)
  obtain w' i where w': "start_timer ''blink'' blink_fn 500 0 False ?w = w'" "intervals w' = [(next_handle ?w, blink_handler 0)]"
    "map_of (fn_ids w') blink_fn = Some i" "by_label w' = Some [(''blink'', [(i, next_handle ?w)])]"
    using start_fresh [of ?w "''blink''" blink_fn 500 0 False, folded blink_handler_def] w by fastforce
  have "snd (every_time (JNum 500) (AVal (JStr ''blink'')) (AFun blink_fn) (AVal JUndef) False ?w) = w'"
    using w'(1) by (simp add: every_time_def add_timer_def time_parse_num times_of_def)
  then show "cursor_ok (animation False True c)" "animating (animation False True c)"
    using w' assms(2) by (auto simp: animation_def cursor_ok_def Let_def intro!: exI [of _ "0 :: nat"])
qed

lemma stop_blinking:
  assumes "cursor_ok c"
  shows "intervals (cursor_timers (stop_blink c)) = []" "by_label (cursor_timers (stop_blink c)) = None"
proof (atomize (full), cases "animating c")
  case True
  then obtain k i n where *: "intervals (cursor_timers c) = [] @ [(k, blink_handler n)]" "map_of (fn_ids (cursor_timers c)) blink_fn = Some i"
      "by_label (cursor_timers c) = Some [(''blink'', [(i, k)])]"
    using assms by (auto simp: cursor_ok_def)
  show "intervals (cursor_timers (stop_blink c)) = [] \<and> by_label (cursor_timers (stop_blink c)) = None"
    using remove_only [OF *(3,2) _ *(1)] by (simp add: stop_blink_def)
next
  case False
  then show "intervals (cursor_timers (stop_blink c)) = [] \<and> by_label (cursor_timers (stop_blink c)) = None"
    using assms by (simp add: cursor_ok_def stop_blink_def remove_timer_def remove_label_def)
qed

lemma cursor_ok_off_again:
  assumes "cursor_ok c"
  shows "cursor_ok (animation False False c)" "\<not> animating (animation False False c)"
proof -
  have "cursor_ok (c\<lparr>animating := False\<rparr>\<lparr>class_inverted := False\<rparr>)" if "\<not> animating c"
    using assms that by (simp add: cursor_ok_def)
  moreover have "cursor_timers (stop_blink (c\<lparr>animating := False\<rparr>)) = cursor_timers (stop_blink c)"
    by (simp add: stop_blink_def)
  ultimately show "cursor_ok (animation False False c)" "\<not> animating (animation False False c)"
    using stop_blinking [OF assms] assms by (auto simp: animation_def cursor_ok_def stop_blink_def)
qed

lemma fire_blink:
  assumes "intervals (cursor_timers c) = [(k, blink_handler n)]"
  shows "fire j c = (if j = k then blink (c\<lparr>cursor_timers := (cursor_timers c)\<lparr>intervals := [(k, blink_handler (Suc n))]\<rparr>\<rparr>) else c)"
  using assms by (simp add: fire_def tick_def Let_def blink_call_def blink_handler_def update_handler_def)

lemma cursor_ok_fire:
  assumes "cursor_ok c"
  shows "cursor_ok (fire j c)" "animating (fire j c) = animating c"
proof (atomize (full), cases "animating c")
  case True
  then obtain k i n where *: "intervals (cursor_timers c) = [(k, blink_handler n)]" "map_of (fn_ids (cursor_timers c)) blink_fn = Some i"
      "by_label (cursor_timers c) = Some [(''blink'', [(i, k)])]" "class_inverted c = even n"
    using assms by (auto simp: cursor_ok_def)
  show "cursor_ok (fire j c) \<and> animating (fire j c) = animating c"
  proof (cases "j = k")
    case True
    then show ?thesis using * \<open>animating c\<close>
      by (auto simp: fire_blink [OF *(1)] blink_def cursor_ok_def intro!: exI [of _ "Suc n"])
  next
    case False
    then show ?thesis using assms by (simp add: fire_blink [OF *(1)])
  qed
next
  case False
  then show "cursor_ok (fire j c) \<and> animating (fire j c) = animating c"
    using assms by (simp add: cursor_ok_def fire_def tick_def)
qed

lemma cursor_ok_step:
  assumes "cursor_ok c"
  shows "cursor_ok (cursor_step False c e)"
    "animating (cursor_step False c e) = (case e of Enable \<Rightarrow> True | Disable \<Rightarrow> False | Fire k \<Rightarrow> animating c)"
proof (atomize (full), cases e)
  case Enable
  then show "cursor_ok (cursor_step False c e) \<and>
    animating (cursor_step False c e) = (case e of Enable \<Rightarrow> True | Disable \<Rightarrow> False | Fire k \<Rightarrow> animating c)"
    using cursor_ok_on [OF assms] assms by (cases "animating c") (auto simp: animation_def)
qed (use cursor_ok_off_again [OF assms] cursor_ok_fire [OF assms] in auto)

lemma cursor_run_ok: "cursor_ok (cursor_run False es) \<and> animating (cursor_run False es) = last_toggle es"
proof (induction es rule: rev_induct)
  case Nil
  then show ?case using cursor_ok_off by (simp add: cursor_run_def last_toggle_def) (simp add: cursor_off_def)
next
  case (snoc e es)
  then show ?case using cursor_ok_step [of "cursor_run False es" e]
    by (auto simp: cursor_run_def last_toggle_def split: cursor_event.split)
qed




section \<open>Focus of the clipboard, commands and visible\<close>

text \<open>
  \<open>mobile_focus\<close> reads \<open>focus\<close>, which no variable of the function is (its own is called \<open>foucs\<close>): it is
  \<open>window.focus\<close>, a function.
\<close>

definition mobile_focus :: "bool \<Rightarrow> bool \<Rightarrow> bool" where
  "mobile_focus on has_focus =
     (let window_focus = True in if on then (if \<not> has_focus then True else has_focus) else (if window_focus then False else has_focus))"

text \<open>\<open>commands\<close> of a command line: the result is the command line itself or the argument.\<close>

datatype 'c commands_result = Self | Argument "'c option"

definition cmd_commands :: "'c option \<Rightarrow> 'c \<Rightarrow> 'c commands_result \<times> 'c" where
  "cmd_commands arg opt = (case arg of Some f \<Rightarrow> (Self, f) | None \<Rightarrow> (Argument arg, opt))"

text \<open>Setting the function works; reading it gives \<open>undefined\<close> whatever was set.\<close>

theorem commands_never_read: "fst (cmd_commands None (snd (cmd_commands arg opt))) = Argument None"
  by (simp add: cmd_commands_def)

end
