(* ===== verification/Startup.thy ===== *)
theory Startup
  imports Views Interp_Make Reports
begin

text \<open>
  How a terminal comes up: the call of the plugin, the choice of the authentication function, \<open>setInterpreter\<close>,
  \<open>option\<close>, the handlers that the terminal hands to its command line and to the page, and the commands in the hash of
  the address bar that are executed at the start.
\<close>

section \<open>The call of the plugin\<close>

text \<open>Several elements are set up one by one; an element that has a terminal gives it; an empty selection is an error.\<close>

datatype plugin_result = EachElement nat | Present nat | Fails js_error | Creates string

definition invalid_selector :: "string \<Rightarrow> string" where
  "invalid_selector sel = ''Sorry, but terminal said that \"'' @ sel @ ''\" is not valid selector!''"

definition plugin_call :: "nat \<Rightarrow> nat option \<Rightarrow> string \<Rightarrow> string option \<Rightarrow> plugin_result" where
  "plugin_call len data selector name =
     (if len > 1 then EachElement len
      else case data of
             Some t \<Rightarrow> Present t
           | None \<Rightarrow>
               (if len = 0 then Fails (Throw (invalid_selector selector))
                else Creates (case name of Some n \<Rightarrow> n | None \<Rightarrow> selector)))"

section \<open>The authentication function\<close>

datatype login_value = LoginNothing | LoginBool bool | LoginText string | LoginFunction nat

text \<open>\<open>settings.login\<close> afterwards: as it was, or the function that calls the method of the service.\<close>

datatype login_auth = AsGiven login_value | ServiceLogin string login_value

definition base_interpreter :: "intrp_arg \<Rightarrow> string option" where
  "base_interpreter u =
     (case u of Single (UiUrl url) \<Rightarrow> Some url | Several (UiUrl url # us) \<Rightarrow> Some url | _ \<Rightarrow> None)"

fun login_wanted :: "login_value \<Rightarrow> bool" where
  "login_wanted LoginNothing = False"
| "login_wanted (LoginBool b) = b"
| "login_wanted (LoginText s) = True"
| "login_wanted (LoginFunction k) = True"

definition make_json_rpc_login :: "string \<Rightarrow> login_value \<Rightarrow> login_auth" where
  "make_json_rpc_login url lg = ServiceLogin url (case lg of LoginBool b \<Rightarrow> LoginText ''login'' | _ \<Rightarrow> lg)"

definition login_setup :: "intrp_arg \<Rightarrow> login_value \<Rightarrow> login_auth" where
  "login_setup u lg =
     (if given (base_interpreter u) \<and> login_wanted lg then make_json_rpc_login (the (base_interpreter u)) lg
      else AsGiven lg)"

text \<open>
  A function for the login is never called when the interpreter is a service: it takes the place of the name of the
  method.
\<close>

theorem login_function_lost:
  "url \<noteq> '''' \<Longrightarrow> login_setup (Single (UiUrl url)) (LoginFunction k) = ServiceLogin url (LoginFunction k)"
  by (simp add: login_setup_def base_interpreter_def given_def make_json_rpc_login_def)

theorem login_function_lost_witness:
  "login_setup (Single (UiUrl ''rpc.php'')) (LoginFunction 1) = ServiceLogin ''rpc.php'' (LoginFunction 1)"
  using login_function_lost [of "''rpc.php''" 1] by simp

section \<open>Handlers\<close>

text \<open>\<open>onBeforeLogin\<close> runs when there is a login; its exception is shown and thrown again.\<close>

definition before_login :: "t_env \<Rightarrow> login_value \<Rightarrow> nat option \<Rightarrow> terminal meth" where
  "before_login env lg h st =
     (if login_wanted lg \<and> lg \<noteq> LoginText '''' then run_hook env ''onBeforeLogin'' h st else (None, st))"

text \<open>The handlers for the command line: \<open>keypress\<close> of the interpreter on top, and \<open>onCommandChange\<close>.\<close>

definition line_keypress :: "('i \<Rightarrow> (key \<Rightarrow> bool option) option) \<Rightarrow> key \<Rightarrow> 'i stack \<Rightarrow> js_error + bool option" where
  "line_keypress handler e intrps =
     (case stack_top intrps of
        None \<Rightarrow> Inl TypeError
      | Some i \<Rightarrow> (case handler i of None \<Rightarrow> Inr None | Some f \<Rightarrow> Inr (f e)))"

definition line_changed :: "t_env \<Rightarrow> nat option \<Rightarrow> terminal \<Rightarrow> (js_error option \<times> bool) \<times> terminal" where
  "line_changed env h st =
     (case run_hook env ''onCommandChange'' h st of (Some e, st) \<Rightarrow> ((Some e, False), st) | (None, st) \<Rightarrow> ((None, True), st))"

text \<open>A click on a link in an exception shows the line of the code; the middle button inserts outside Linux.\<close>

definition line_number_re :: re where \<comment> \<open>\<open>/:[0-9]+$/\<close>\<close>
  "line_number_re = Seq (Chr CHR '':'') (Seq (Plus (Cls digit_char)) Eol)"

definition exception_link :: "r_env \<Rightarrow> string \<Rightarrow> reporter meth" where
  "exception_link env href s = (if search line_number_re href 0 \<noteq> None then print_line env href s else (None, s))"

definition middle_click :: "options \<Rightarrow> bool \<Rightarrow> int \<Rightarrow> string \<Rightarrow> cmd \<Rightarrow> cmd" where
  "middle_click opts linux button selected c =
     (if \<not> linux \<and> button = 2 then cmd_insert opts selected False c else c)"

text \<open>
  The handler for the size of the window is bound by a timer through the variable \<open>$win\<close>, which is only set when the
  device has no touch screen.
\<close>

definition bind_resize :: "bool \<Rightarrow> js_error option \<times> bool" where
  "bind_resize is_touch = (let win = (if \<not> is_touch then Some () else None) in case win of None \<Rightarrow> (Some TypeError, False) | Some _ \<Rightarrow> (None, True))"

section \<open>option\<close>

datatype 'v option_arg = OptName string | OptObject "(string \<times> 'v) list" | OptOther

datatype 'v option_result = OptSelf | OptValue "'v option"

definition option_method :: "'v option_arg \<Rightarrow> 'v option \<Rightarrow> (string \<rightharpoonup> 'v) \<Rightarrow> 'v option_result \<times> (string \<rightharpoonup> 'v)" where
  "option_method arg val settings =
     (case val of
        None \<Rightarrow>
          (case arg of
             OptName k \<Rightarrow> (OptValue (settings k), settings)
           | OptObject ps \<Rightarrow> (OptSelf, settings ++ map_of (rev ps))
           | OptOther \<Rightarrow> (OptSelf, settings))
      | Some v \<Rightarrow>
          (case arg of OptName k \<Rightarrow> (OptSelf, settings(k \<mapsto> v)) | _ \<Rightarrow> (OptSelf, settings(''[object Object]'' \<mapsto> v))))"

section \<open>The first interpreter\<close>

text \<open>
  The stack with the interpreter of the settings, and the command line. It gets no name, so its name is the prompt;
  \<open>source_text\<close> is the text of a function. Then the login of the settings, or \<open>initialize\<close>.
\<close>

definition first_interpreter :: "string \<Rightarrow> prompt \<Rightarrow> intrp_fun \<Rightarrow> intrp" where
  "first_interpreter nm p f = \<lparr>i_fun = f, i_name = Some nm, i_prompt = p, i_mask = None, i_start = None, i_exit = None\<rparr>"

definition first_terminal :: "t_env \<Rightarrow> (string \<Rightarrow> string) \<Rightarrow> bool \<Rightarrow> bool \<Rightarrow> prompt \<Rightarrow> intrp_fun \<Rightarrow> int \<times> int \<Rightarrow> browser \<Rightarrow> js_error option \<times> terminal" where
  "first_terminal env source_text on is_touch p f measured b =
     (let nm = (case p of PromptStr t \<Rightarrow> t | PromptFun k \<Rightarrow> source_text k);
          (e, c) = new_cmd (cmd_opts env) (MaskBool False) (JStr nm) p (on \<and> \<not> is_touch) b
      in (e, \<lparr>lines = [], buffer = [], page_rows = [], finalized = [], alerts = [], cols = fst measured, rows = snd measured, prev = None,
              interpreters = new_stack (InitValue (first_interpreter (base_name env) p f)), command_line = c, in_login = False,
              paused = False, t_enabled = on, frozen = False, prev_name = None, autologin_handler = None, delayed = [], on_resume = [],
              pending = [], resolved = [], next_promise = 0\<rparr>))"

definition run_login :: "t_env \<Rightarrow> bool \<Rightarrow> terminal meth \<Rightarrow> terminal meth" where
  "run_login env ip R st =
     (case login_setting env of
        Some k \<Rightarrow> login env ip R \<lparr>auth = k, infinite = True, success = Initialize, on_error_pop = False\<rparr> st
      | None \<Rightarrow> initialize env ip R st)"

text \<open>What is selected on the page, for the middle button.\<close>

definition get_selected_text :: "(string option \<times> string) option \<Rightarrow> string option \<Rightarrow> string option" where
  "get_selected_text selection old =
     (case selection of
        Some (sel_text, as_string) \<Rightarrow> Some (if given sel_text then the sel_text else as_string)
      | None \<Rightarrow> old)"

section \<open>setInterpreter\<close>

text \<open>What the making of an interpreter does to the terminal on its way, one thing after the other.\<close>

fun perform_making :: "x_env \<Rightarrow> nat \<Rightarrow> making list \<Rightarrow> terminal meth" where
  "perform_making x depth [] st = (None, st)"
| "perform_making x depth (Pauses # l) st = and_then (pause (te x) st) (perform_making x depth l)"
| "perform_making x depth (Resumes # l) st = and_then (resume x depth st) (perform_making x depth l)"
| "perform_making x depth (Shows msg # l) st = perform_making x depth l (t_error (te x) msg st)"

text \<open>
  The function that should replace the interpreter is passed as the second argument of \<open>make_interpreter\<close>, the login;
  the third, \<open>finalize\<close>, is \<open>$.noop\<close>: what is made is dropped.
\<close>

definition overwrite_interpreter :: "i_env \<Rightarrow> x_env \<Rightarrow> nat \<Rightarrow> (string \<Rightarrow> (string \<times> nat option) list option) \<Rightarrow> intrp_arg \<Rightarrow> terminal meth" where
  "overwrite_interpreter env x depth describe u st =
     and_then (pause (te x) st) (\<lambda>st.
       (case make_interpreter env describe True u of
          (l, r) \<Rightarrow> and_then (perform_making x depth l st) (\<lambda>st.
             (case r of Inl e \<Rightarrow> (Some e, st) | Inr made \<Rightarrow> (None, st)))))"

datatype 'a set_result = LoginFirst login_auth | Overwritten 'a

definition set_interpreter :: "i_env \<Rightarrow> x_env \<Rightarrow> nat \<Rightarrow> (string \<Rightarrow> (string \<times> nat option) list option) \<Rightarrow> intrp_arg \<Rightarrow> login_value \<Rightarrow> terminal \<Rightarrow>
    (js_error option \<times> terminal) set_result" where
  "set_interpreter env x depth describe u lg st =
     (case u of
        Single (UiUrl url) \<Rightarrow>
          (if login_wanted lg \<and> lg \<noteq> LoginText '''' then LoginFirst (make_json_rpc_login url lg)
           else Overwritten (overwrite_interpreter env x depth describe u st))
      | _ \<Rightarrow> Overwritten (overwrite_interpreter env x depth describe u st))"

section \<open>Commands in the hash\<close>

text \<open>
  \<open>terminal.exec(command, silent)\<close> on the page: the exception it throws, or whether its promise is resolved
  already.
\<close>

type_synonym runner = "nat \<Rightarrow> bool \<Rightarrow> jsval \<Rightarrow> tab \<Rightarrow> (js_error + bool) \<times> tab"

definition exec_promise :: "x_env \<Rightarrow> terminal meth \<Rightarrow> bool \<Rightarrow> string \<Rightarrow> terminal \<Rightarrow> (js_error + bool) \<times> terminal" where
  "exec_promise x R silent txt st =
     (if paused st then (case exec x R silent None txt st of (_, st) \<Rightarrow> (Inr False, st))
      else
        (case commands x R False silent None txt st of
           (Inl e, st) \<Rightarrow> (Inl e, st)
         | (Inr NoPromise, st) \<Rightarrow> (Inl TypeError, st)
         | (Inr Resolved, st) \<Rightarrow> (Inr True, st)
         | (Inr Unresolved, st) \<Rightarrow> (Inr False, st)))"

text \<open>A text is executed; a number has no method \<open>match\<close> for \<open>commands\<close>. Arrays of commands are left out.\<close>

definition exec_in :: "(nat \<Rightarrow> x_env) \<Rightarrow> nat \<Rightarrow> runner" where
  "exec_in xs depth t silent cmd_text s =
     (case cmd_text of
        JStr txt \<Rightarrow> (let (r, st) = exec_promise (xs t) (resume (xs t) depth) silent txt (load t s) in (r, store_back t st s))
      | _ \<Rightarrow> (Inl TypeError, s))"

text \<open>
  \<open>exec_spec\<close> in the terminal \<open>t\<close>. The result says whether there is a promise and whether it is resolved; the command
  of one that is not waits. An exception of \<open>exec\<close> or \<open>save_state\<close> is caught, but its handler reads the variable
  \<open>command\<close>, which there is none: what leaves it is a \<open>ReferenceError\<close>, whatever was thrown.
\<close>

datatype spec_result = NoExec | ExecDone | ExecWaits nat jsval

definition reference_error :: js_error where
  "reference_error = Throw ''command is not defined''"

definition exec_spec :: "(nat \<Rightarrow> t_env) \<Rightarrow> runner \<Rightarrow> nat \<Rightarrow> jsval \<Rightarrow> tab \<Rightarrow> (js_error + spec_result) \<times> tab" where
  "exec_spec envs X t spec s =
     (if spec = JUndef \<or> spec = JNull then (Inl TypeError, s)
      else
        (case index_of_key (length (order s)) (spec_at spec 0) of
           None \<Rightarrow> (Inr NoExec, s)
         | Some i \<Rightarrow>
             (let f = order s ! i
              in if terminal_id (envs t) = terminal_id (envs f) \<and> truthy (spec_at spec 2) then
                   (case X f False (spec_at spec 2) s of
                      (Inl e, s) \<Rightarrow> (Inl reference_error, s)
                    | (Inr False, s) \<Rightarrow> (Inr (ExecWaits f (spec_at spec 2)), s)
                    | (Inr True, s) \<Rightarrow>
                        (case save_state envs f (spec_at spec 2) True s of
                           (Some e, s) \<Rightarrow> (Inl reference_error, s) | (None, s) \<Rightarrow> (Inr ExecDone, s)))
                 else (Inr NoExec, s))))"

fun exec_specs :: "(nat \<Rightarrow> t_env) \<Rightarrow> runner \<Rightarrow> nat \<Rightarrow> jsval list \<Rightarrow> tab \<Rightarrow> (js_error + (nat \<times> jsval) list) \<times> tab" where
  "exec_specs envs X t [] s = (Inr [], s)"
| "exec_specs envs X t (spec # rest) s =
     (case exec_spec envs X t spec s of
        (Inl e, s) \<Rightarrow> (Inl e, s)
      | (Inr r, s) \<Rightarrow>
          (case exec_specs envs X t rest s of
             (Inl e, s) \<Rightarrow> (Inl e, s)
           | (Inr ws, s) \<Rightarrow> (Inr (case r of ExecWaits f c \<Rightarrow> (f, c) # ws | _ \<Rightarrow> ws), s)))"

text \<open>What \<open>$.map\<close> goes through; \<open>null\<close> and a text that is not empty make it throw.\<close>

definition map_elements :: "jsval \<Rightarrow> jsval list option" where
  "map_elements v =
     (case v of
        JArr xs \<Rightarrow> Some xs | JObj ps \<Rightarrow> Some (map snd ps) | JNum n \<Rightarrow> Some [] | JBool b \<Rightarrow> Some []
      | JStr t \<Rightarrow> (if t = '''' then Some [] else None) | _ \<Rightarrow> None)"

text \<open>The commands that wait and the page; an exception is taken for bad JSON and forgotten.\<close>

definition start_hash :: "(nat \<Rightarrow> t_env) \<Rightarrow> runner \<Rightarrow> (string \<Rightarrow> js_error + jsval) \<Rightarrow> bool \<Rightarrow> nat \<Rightarrow> tab \<Rightarrow> (nat \<times> jsval) list \<times> tab" where
  "start_hash envs X parse exec_hash t s =
     (if exec_hash \<and> location_hash s \<noteq> '''' then
        (case parse (location_hash s) of
           Inl e \<Rightarrow> ([], s)
         | Inr v \<Rightarrow>
             (let s = s\<lparr>hash_commands := v\<rparr>
              in case map_elements v of
                   None \<Rightarrow> ([], s)
                 | Some xs \<Rightarrow>
                     (case exec_specs envs X t xs s of
                        (Inl e, s) \<Rightarrow> ([], s)
                      | (Inr [], s) \<Rightarrow> ([], s\<lparr>change_hash := True\<rparr>)
                      | (Inr ws, s) \<Rightarrow> (ws, s))))
      else ([], s\<lparr>change_hash := True\<rparr>))"

text \<open>An extended command: the hash is left alone while it runs.\<close>

definition extended_command :: "runner \<Rightarrow> nat \<Rightarrow> string \<Rightarrow> tab \<Rightarrow> tab" where
  "extended_command X t txt s =
     (case X t True (JStr txt) (s\<lparr>change_hash := False\<rparr>) of
        (Inl e, s) \<Rightarrow> s
      | (Inr done, s) \<Rightarrow> (if done then s\<lparr>change_hash := True\<rparr> else s))"


section \<open>Properties\<close>

text \<open>A part of the terminal that printing leaves alone.\<close>

definition boot_view :: "terminal \<Rightarrow> intrp list \<times> prompt \<times> bool \<times> bool" where
  "boot_view st = (stack_list st, prompt (command_line st), in_login st, paused st)"

lemma new_cmd_parts:
  "page (snd (new_cmd opts m nm p on b)) = b" "h_enabled (history (snd (new_cmd opts m nm p on b)))"
  "mask (snd (new_cmd opts (MaskBool False) nm p on b)) = MaskBool False"
  by (auto simp: new_cmd_def cmd_set_name_def new_history_def cmd_enable_def draw_prompt_def Let_def
      split: prod.splits sum.splits option.splits prompt.splits if_splits)

lemma first_terminal_parts:
  assumes "first_terminal env src on is_touch p f measured b = (e, st)"
  shows "stack_list st = [first_interpreter (base_name env) p f]" "store_of st = b" "\<not> in_login st" "\<not> paused st"
    "h_enabled (history (command_line st))" "\<not> ghost st"
proof -
  define nm where "nm = (case p of PromptStr t \<Rightarrow> t | PromptFun k \<Rightarrow> src k)"
  have "command_line st = snd (new_cmd (cmd_opts env) (MaskBool False) (JStr nm) p (on \<and> \<not> is_touch) b)"
    using assms by (auto simp: first_terminal_def Let_def split_beta nm_def)
  moreover have "stack_list st = [first_interpreter (base_name env) p f]" "\<not> in_login st" "\<not> paused st"
    using assms by (auto simp: first_terminal_def stack_list_def Let_def split: prod.splits)
  ultimately show "stack_list st = [first_interpreter (base_name env) p f]" "store_of st = b" "\<not> in_login st" "\<not> paused st"
    "h_enabled (history (command_line st))" "\<not> ghost st"
    by (simp_all add: store_of_def ghost_def new_cmd_parts)
qed

lemma show_greetings_keeps: "keeps env f \<Longrightarrow> f (show_greetings env st) = f st"
  by (simp add: show_greetings_def echo_keeps split: option.split)

lemma prepare_top_stack: "interpreters (snd (prepare_top env silent st)) = interpreters st"
  by (simp add: prepare_top_def and_then_def maybe_append_name_def with_store_def run_raw_def with_out_def Let_def
      split: prod.split option.split)

lemma push_plain_size:
  assumes "push_plain env f po st = (None, st')"
  shows "stack_size (interpreters st') = stack_size (interpreters st) + 1"
proof -
  have "prepare_top env False (push_intrp f po st) = (None, st')"
    using assms by (auto simp: push_plain_def guarded_def split: prod.splits option.splits)
  then have "interpreters st' = interpreters (push_intrp f po st)" using prepare_top_stack by (metis snd_conv)
  then show ?thesis by (simp add: push_intrp_def stack_push_def stack_size_def stack_list_def Let_def)
qed

text \<open>
  C27: how a terminal comes up. Without a login the prompt of the settings is on the command line, the interpreter of
  the settings is the only one, and the terminal is neither paused nor in a login; with a login and without a stored
  token the command line asks for the name on top of that interpreter, and its history is off.
\<close>

theorem terminal_starts:
  assumes "first_terminal env src on is_touch p f measured b = (None, st)" "readable b" "json_storable (prefix_name env True st)"
    and "on_init env = None" "keeps env boot_view" "history_setting env" "\<not> given (token env True st)"
  shows "\<exists>st'. run_login env ip (resume x (Suc depth)) st = (None, st') \<and>
    (case login_setting env of
       None \<Rightarrow> stack_list st' = [first_interpreter (base_name env) p f] \<and> prompt (command_line st') = p \<and> \<not> in_login st' \<and> \<not> paused st'
     | Some k \<Rightarrow> in_login st' \<and> \<not> h_enabled (history (command_line st')) \<and> prompt (command_line st') = PromptStr login_text \<and>
         stack_size (interpreters st') = 2)"
proof (cases "login_setting env")
  case None
  note st = first_terminal_parts [OF assms(1)]
  have "stack_list st \<noteq> []" "i_start (last (stack_list st)) = None" "readable (store_of st)"
    using st assms(2) by (simp_all add: first_interpreter_def)
  then obtain c where c: "prepare_top env False st = (None, st\<lparr>command_line := c\<rparr>)" "prompt c = i_prompt (last (stack_list st))"
    using prepare_ok [of st env False] assms(3) by metis
  let ?t = "show_greetings env (st\<lparr>command_line := c\<rparr>)"
  have t: "boot_view ?t = boot_view (st\<lparr>command_line := c\<rparr>)" by (rule show_greetings_keeps [OF assms(5)])
  then have "initialize env ip (resume x (Suc depth)) st = (None, ?t)"
    using c(1) assms(4) st(4) by (simp add: initialize_def boot_view_def)
  then show ?thesis
    using t c(2) st None by (simp add: run_login_def boot_view_def stack_list_def first_interpreter_def)
next
  case (Some k)
  note st = first_terminal_parts [OF assms(1)]
  let ?lc = "\<lparr>auth = k, infinite = True, success = Initialize, on_error_pop = False\<rparr>"
  let ?s = "(set_history h_disable st)\<lparr>in_login := True, autologin_handler := Some ?lc\<rparr>"
  have a: "asks ?s" using assms(2) st(2) by (simp add: asks_def set_history_def h_disable_def store_of_def)
  obtain st1 where st1: "push_plain env (AskName ?lc) (prompt_only login_text) ?s = (None, st1)" "asks st1"
    "prompt (command_line st1) = PromptStr login_text"
    using push_asks [OF a] by metis
  have "stack_size (interpreters st) = 1" using st(1) by (simp add: stack_size_def stack_list_def)
  then have n: "stack_size (interpreters st1) = 2" using push_plain_size [OF st1(1)] by (simp add: set_history_def)
  have "login env ip (resume x (Suc depth)) ?lc st = (None, st1)"
    unfolding login_def using assms(6,7) st(3) st1(1) by (intro guarded_None) (auto simp: Let_def)
  then show ?thesis using Some st1(2,3) n by (simp add: run_login_def asks_def)
qed


lemma boot_view_more: "out.more st = out.more st' \<Longrightarrow> boot_view st = boot_view st'"
  by (cases st, cases st') (simp add: boot_view_def stack_list_def)

theorem terminal_starts_witness:
  "\<exists>st st'. first_terminal small_env id True False (PromptStr ''> '') (UserFun 0) (80, 24) empty_browser = (None, st) \<and>
     run_login small_env False (resume small_x 1) st = (None, st') \<and> \<not> paused st' \<and> prompt (command_line st') = PromptStr ''> ''"
proof -
  obtain st where st: "first_terminal small_env id True False (PromptStr ''> '') (UserFun 0) (80, 24) empty_browser = (None, st)"
  proof -
    have "storage_get k empty_browser = None" for k by (simp add: storage_get_def rls_def empty_browser_def)
    then have "fst (first_terminal small_env id True False (PromptStr ''> '') (UserFun 0) (80, 24) empty_browser) = None"
      by (simp add: first_terminal_def new_cmd_def cmd_set_name_def new_history_def split_beta Let_def)
    then show thesis using that by (metis prod.collapse)
  qed
  note parts = first_terminal_parts [OF st]
  have z: "show_nat 0 = ''0''" by code_simp
  have "prefix_name small_env True st = ''t_0''"
    using parts(1) by (simp add: prefix_name_def stack_list_def stack_size_def small_env_def z)
  moreover have "json_storable ''t_0''" by code_simp
  ultimately have j: "json_storable (prefix_name small_env True st)" by simp
  have r: "readable empty_browser" by (simp add: readable_def empty_browser_def)
  have g: "\<not> given (token small_env True st)"
    using parts(2) by (simp add: token_def storage_get_def rls_def empty_browser_def given_def)
  have k: "keeps small_env boot_view" unfolding keeps_def by (intro conjI allI impI) (erule boot_view_more, simp add: small_env_def)
  have e: "on_init small_env = None" "history_setting small_env" "login_setting small_env = None" by (simp_all add: small_env_def)
  obtain st' where "run_login small_env False (resume small_x (Suc 0)) st = (None, st')" "prompt (command_line st') = PromptStr ''> ''" "\<not> paused st'"
    using terminal_starts [OF st r j e(1) k e(2) g, of False small_x 0] unfolding e(3) option.case by blast
  then show ?thesis using st unfolding One_nat_def by blast
qed

section \<open>setInterpreter\<close>

text \<open>
  C36: \<open>setInterpreter\<close> with a function or an object never sets it: the stack is as before, and the terminal stays
  paused, so that the next command only waits.
\<close>

theorem set_interpreter_locks:
  assumes "\<not> paused st" "on_pause (te x) = None" "u = Single (UiFun k) \<or> u = Single (UiObj ob) \<or> u = NoIntrp"
  shows "\<exists>st'. set_interpreter env x depth describe u lg st = Overwritten (None, st') \<and> paused st' \<and>
    interpreters st' = interpreters st \<and>
    exec x R silent (Some d) txt st' = (None, st'\<lparr>delayed := delayed st @ [(txt, silent, d)]\<rparr>)"
proof -
  let ?s = "disable (st\<lparr>paused := True\<rparr>)"
  have "pause (te x) st = (None, ?s)" using assms(1,2) by (simp add: pause_def guarded_def run_raw_def)
  moreover have "paused ?s" "interpreters ?s = interpreters st" "delayed ?s = delayed st" by (simp_all add: disable_def)
  ultimately show ?thesis
    using assms(3) by (auto simp: set_interpreter_def overwrite_interpreter_def make_interpreter_def exec_def)
qed

theorem set_interpreter_locks_witness:
  "\<exists>st'. set_interpreter split_env small_x 1 (\<lambda>_. None) (Single (UiFun 7)) LoginNothing small_terminal = Overwritten (None, st') \<and> paused st'"
proof -
  have "\<not> paused small_terminal" "on_pause (te small_x) = None" by (simp_all add: small_terminal_def small_x_def small_env_def)
  from set_interpreter_locks [OF this, of "Single (UiFun 7)" 7 "[]" split_env 1 "\<lambda>_. None" LoginNothing] show ?thesis by blast
qed

text \<open>An option that was set is read back, and no other option changes.\<close>

theorem option_read_back:
  "fst (option_method (OptName k) None (snd (option_method (OptName k) (Some v) s))) = OptValue (Some v) \<and>
   (\<forall>k'. k' \<noteq> k \<longrightarrow> snd (option_method (OptName k) (Some v) s) k' = s k')"
  by (simp add: option_method_def)

section \<open>Commands in the hash\<close>

text \<open>\<open>exec_promise\<close> is \<open>exec\<close> with its promise.\<close>

lemma exec_promise_exec:
  "exec x R silent None txt st = (case exec_promise x R silent txt st of (Inl e, st) \<Rightarrow> (Some e, st) | (Inr b, st) \<Rightarrow> (None, st))"
  by (auto simp: exec_def exec_promise_def resolve_def split: prod.splits sum.splits returned.splits)

lemma index_of_num: "i < n \<Longrightarrow> index_of_key n (JNum (int i)) = Some i"
  by (simp add: index_of_key_def show_int_def find_Some_iff) (rule exI [of _ i], simp)

text \<open>A command of the hash that throws: it is not reported, the rest is not executed, the hash is not changed again.\<close>

theorem hash_error_forgotten:
  assumes "location_hash s \<noteq> ''''" "parse (location_hash s) = Inr (JArr (JArr [JNum (int i), n, JStr txt] # rest))"
    and "i < length (order s)" "order s ! i = t" "txt \<noteq> ''''"
    and "X t False (JStr txt) (s\<lparr>hash_commands := JArr (JArr [JNum (int i), n, JStr txt] # rest)\<rparr>) = (Inl e, s')"
  shows "start_hash envs X parse True t s = ([], s')"
  using assms by (simp add: start_hash_def map_elements_def exec_spec_def spec_at_def index_of_num)


definition tab_start :: "string \<Rightarrow> tab" where
  "tab_start hash = nested_tab\<lparr>change_hash := False, saved := [], location_hash := hash\<rparr>"

theorem hash_error_forgotten_witness:
  "start_hash (\<lambda>_. small_env) (\<lambda>t silent c s. (Inl TypeError, s)) (\<lambda>_. Inr (JArr [JArr [JNum 0, JNum 1, JStr ''exit'']])) True 0
     (tab_start ''[[0,1,...]]'') = ([], (tab_start ''[[0,1,...]]'')\<lparr>hash_commands := JArr [JArr [JNum 0, JNum 1, JStr ''exit'']]\<rparr>)"
  using hash_error_forgotten [of "tab_start ''[[0,1,...]]''" "\<lambda>_. Inr (JArr [JArr [JNum 0, JNum 1, JStr ''exit'']])" 0 "JNum 1"
      "''exit''" "[]" 0 "\<lambda>t silent c s. (Inl TypeError, s)" TypeError _ "\<lambda>_. small_env"]
  by (simp add: tab_start_def nested_tab_def)

text \<open>The terminal \<open>t\<close> takes commands.\<close>

definition ready :: "nat \<Rightarrow> tab \<Rightarrow> bool" where
  "ready t s \<longleftrightarrow> tab_ok s \<and> \<not> paused (load t s) \<and> user_top (load t s)"

lemma store_back_ready:
  assumes "ready t s" "core st = core (load t s)" "\<not> paused st"
  shows "ready t (store_back t st s)"
proof -
  have "tab_ok s" "user_top (load t s)" using assms(1) by (simp_all add: ready_def)
  then show ?thesis
    using store_back_ok load_store user_top_cong [OF assms(2)] assms(3) by (simp add: ready_def)
qed

lemma exec_in_ready:
  assumes "tame (xs t)" "steady (xs t)" "ordinary (xs t) c" "ready t s"
  obtains s' where "exec_in xs depth t silent (JStr c) s = (Inr True, s')" "ready t s'" "hash_commands s' = hash_commands s" "order s' = order s"
proof -
  let ?st = "load t s"
  have st: "user_top ?st" "\<not> paused ?st" using assms(4) by (simp_all add: ready_def)
  obtain s2 where "commands (xs t) (resume (xs t) depth) False silent None c ?st =
      (if paused s2 then (Inr Unresolved, s2\<lparr>on_resume := on_resume s2 @ [(c, None)]\<rparr>) else (Inr Resolved, s2))"
    "core s2 = core ?st" "paused s2 = paused ?st"
    using commands_tame [OF assms(1,3) st(1), of False] assms(2) by metis
  then have s2: "exec_in xs depth t silent (JStr c) s = (Inr True, store_back t s2 s)" "core s2 = core ?st" "\<not> paused s2"
    using st(2) by (simp_all add: exec_in_def exec_promise_def)
  from that [OF s2(1) store_back_ready [OF assms(4) s2(2,3)]] show ?thesis by (simp add: store_back_def Let_def)
qed

lemma save_state_ready:
  assumes "ready t s"
  obtains s' k where "save_state envs t (JStr c) True s = (None, s')" "ready t s'" "order s' = order s"
    "hash_commands s' = JArr (array_of (hash_commands s) @ [JArr [JNum (int (terminal_id (envs t))), JNum k, JStr c]])"
    "change_hash s' = change_hash s" "length (saved s') = Suc (length (saved s))"
proof -
  have s: "tab_ok s" "user_top (load t s)" using assms by (simp_all add: ready_def)
  obtain i where i: "stack_top (interpreters (load t s)) = Some i" using s(2) by (auto simp: user_top_def split: option.splits)
  have c: "cur s t \<noteq> next_stack s" using s(1) by (metis less_irrefl tab_ok_def)
  obtain s' k where s': "save_state envs t (JStr c) True s = (None, s')" "order s' = order s" "load t s' = load t s"
    "hash_commands s' = JArr (array_of (hash_commands s) @ [JArr [JNum (int (terminal_id (envs t))), JNum k, JStr c]])"
    "change_hash s' = change_hash s" "length (saved s') = Suc (length (saved s))"
  proof -
    obtain v where v: "export_view t s = (Inr v, snd (stack_copy t s))"
      by (simp add: export_view_def i Let_def split_beta)
    have n: "load t (snd (stack_copy t s)) = load t s" "order (snd (stack_copy t s)) = order s"
      "hash_commands (snd (stack_copy t s)) = hash_commands s" "change_hash (snd (stack_copy t s)) = change_hash s"
      "saved (snd (stack_copy t s)) = saved s"
      using c by (simp_all add: stack_copy_def load_def)
    show thesis
      by (rule that, simp add: save_state_def guarded_tab_def v Let_def)
        (use n in \<open>simp_all add: load_def array_of_def\<close>)
  qed
  have "typed_step s s'" using typed_save [of s envs t "JStr c" True] s'(1) by simp
  then show ?thesis using that s' assms by (simp add: ready_def typed_step_def)
qed

text \<open>The commands of a list of entries.\<close>

definition commands_of :: "jsval \<Rightarrow> jsval list" where
  "commands_of v = map (\<lambda>spec. spec_at spec 2) (array_of v)"

text \<open>An entry for the terminal at the index \<open>i\<close> with a command that is no built-in one.\<close>

definition entry_for :: "x_env \<Rightarrow> nat \<Rightarrow> jsval \<Rightarrow> bool" where
  "entry_for x i spec \<longleftrightarrow> (\<exists>n c. spec = JArr [JNum (int i), n, JStr c] \<and> c \<noteq> '''' \<and> ordinary x c)"

lemma exec_specs_all:
  assumes "tame (xs t)" "steady (xs t)"
  shows "\<forall>spec\<in>set es. entry_for (xs t) i spec \<Longrightarrow> i < length (order s) \<Longrightarrow> order s ! i = t \<Longrightarrow> ready t s \<Longrightarrow>
    \<exists>s'. exec_specs envs (exec_in xs depth) t es s = (Inr [], s') \<and>
      commands_of (hash_commands s') = commands_of (hash_commands s) @ commands_of (JArr es)"
proof (induction es arbitrary: s)
  case Nil
  then show ?case by (simp add: commands_of_def array_of_def)
next
  case (Cons spec es)
  then obtain n c where spec: "spec = JArr [JNum (int i), n, JStr c]" "c \<noteq> ''''" "ordinary (xs t) c"
    by (auto simp: entry_for_def)
  obtain s1 where s1: "exec_in xs depth t False (JStr c) s = (Inr True, s1)" "ready t s1" "hash_commands s1 = hash_commands s"
      "order s1 = order s"
    using exec_in_ready [where xs = xs, OF assms spec(3) Cons.prems(4)] by metis
  obtain s2 k where s2: "save_state envs t (JStr c) True s1 = (None, s2)" "ready t s2" "order s2 = order s1"
    "hash_commands s2 = JArr (array_of (hash_commands s1) @ [JArr [JNum (int (terminal_id (envs t))), JNum k, JStr c]])"
    using save_state_ready [OF s1(2)] by metis
  have e: "exec_spec envs (exec_in xs depth) t spec s = (Inr ExecDone, s2)"
    using spec s1(1) s2(1) Cons.prems(2,3) by (simp add: exec_spec_def index_of_num spec_at_def)
  have "\<exists>s'. exec_specs envs (exec_in xs depth) t es s2 = (Inr [], s') \<and>
      commands_of (hash_commands s') = commands_of (hash_commands s2) @ commands_of (JArr es)"
    by (rule Cons.IH) (use Cons.prems s1 s2 in auto)
  moreover have "commands_of (hash_commands s2) = commands_of (hash_commands s) @ [spec_at spec 2]"
    using s2(4) s1(3) spec(1) by (simp add: commands_of_def array_of_def spec_at_def)
  ultimately show ?case using e by (auto simp: commands_of_def array_of_def)
qed

text \<open>
  Executing the commands of the hash at the start doubles them: although each is saved with the wish not to touch
  the hash, it is appended to the list that the hash is made of, so the next command writes every old command twice
  into the address, and the next visit executes them twice.
\<close>

theorem hash_doubles:
  assumes "parse (location_hash s) = Inr (JArr es)" "location_hash s \<noteq> ''''" "i < length (order s)" "order s ! i = t"
    and "\<forall>spec\<in>set es. entry_for (xs t) i spec" "tame (xs t)" "steady (xs t)" "ready t s"
  shows "\<exists>s'. start_hash envs (exec_in xs depth) parse True t s = ([], s') \<and> change_hash s' \<and>
    commands_of (hash_commands s') = commands_of (JArr es) @ commands_of (JArr es)"
proof -
  let ?s = "s\<lparr>hash_commands := JArr es\<rparr>"
  have "ready t ?s" using assms(8) by (simp add: ready_def tab_ok_def load_def)
  then obtain s' where "exec_specs envs (exec_in xs depth) t es ?s = (Inr [], s')"
    "commands_of (hash_commands s') = commands_of (JArr es) @ commands_of (JArr es)"
    using exec_specs_all [where xs = xs and es = es and i = i and s = ?s and envs = envs and depth = depth and t = t] assms(3-7) by auto
  then show ?thesis using assms(1,2) by (simp add: start_hash_def map_elements_def commands_of_def)
qed

lemma small_tame: "tame small_x"
  unfolding tame_def by (intro conjI keeps_core) (simp_all add: small_x_def small_env_def core_def)

lemma paused_more: "out.more st = out.more st' \<Longrightarrow> paused st = paused st'" for st st' :: terminal
  by (cases st, cases st') simp

lemma small_steady: "steady small_x"
proof -
  have "keeps (te small_x) paused"
    unfolding keeps_def by (intro conjI allI impI) (erule paused_more, simp add: small_x_def small_env_def)
  then show ?thesis by (simp add: steady_def small_x_def)
qed

lemma start_ready: "ready 0 (tab_start h)"
proof -
  have "load 0 (tab_start h) = load 0 nested_tab" "tab_ok (tab_start h)"
    using nested_ok by (simp_all add: load_def tab_start_def tab_ok_def)
  moreover have "\<not> paused (load 0 nested_tab)" "user_top (load 0 nested_tab)"
    by (simp_all add: nested_tab_def load_def small_terminal_def user_top_def base_intrp_def stack_top_eq)
  ultimately show ?thesis by (simp add: ready_def)
qed

lemma small_entry: "entry_for small_x 0 (JArr [JNum 0, JNum 1, JStr ''a''])"
proof -
  have "\<not> is_word ''exit'' ''a''" "\<not> is_word ''clear'' ''a''" by code_simp+
  then show ?thesis by (simp add: entry_for_def ordinary_def small_x_def small_env_def)
qed

theorem hash_doubles_witness:
  "\<exists>s'. start_hash (\<lambda>_. small_env) (exec_in (\<lambda>_. small_x) 1) (\<lambda>_. Inr (JArr [JArr [JNum 0, JNum 1, JStr ''a'']])) True 0
     (tab_start ''[[0,1,...]]'') = ([], s') \<and> commands_of (hash_commands s') = [JStr ''a'', JStr ''a'']"
proof -
  have o: "location_hash (tab_start h) = h" "order (tab_start h) = [0]" for h by (simp_all add: tab_start_def nested_tab_def)
  have e: "\<forall>spec\<in>set [JArr [JNum 0, JNum 1, JStr ''a'']]. entry_for small_x 0 spec" using small_entry by simp
  have c: "commands_of (JArr [JArr [JNum 0, JNum 1, JStr ''a'']]) = [JStr ''a'']"
    by (simp add: commands_of_def array_of_def spec_at_def)
  have h: "location_hash (tab_start ''[[0,1,...]]'') \<noteq> ''''" "0 < length (order (tab_start ''[[0,1,...]]''))"
    "order (tab_start ''[[0,1,...]]'') ! 0 = 0" by (simp_all add: o)
  show ?thesis
    using hash_doubles [where xs = "\<lambda>_. small_x" and parse = "\<lambda>_. Inr (JArr [JArr [JNum 0, JNum 1, JStr ''a'']])" and i = 0 and t = 0
        and envs = "\<lambda>_. small_env" and depth = 1, OF refl h e small_tame small_steady start_ready] unfolding c by auto
qed

text \<open>An extended command that throws turns the hash off for good, although the exception is taken care of.\<close>

theorem extended_turns_hash_off:
  assumes "X t True (JStr txt) (s\<lparr>change_hash := False\<rparr>) = (Inl e, s')" "\<not> change_hash s'"
  shows "maybe_update_hash (extended_command X t txt s) = extended_command X t txt s"
  using assms by (simp add: extended_command_def maybe_update_hash_def)

theorem extended_turns_hash_off_witness:
  "maybe_update_hash (extended_command (\<lambda>t silent c s. (Inl TypeError, s)) 0 ''exit'' nested_tab) =
     extended_command (\<lambda>t silent c s. (Inl TypeError, s)) 0 ''exit'' nested_tab"
  using extended_turns_hash_off [of "\<lambda>t silent c s. (Inl TypeError, s)" 0 "''exit''" nested_tab TypeError _] by simp

end
