(* ===== verification/Json_Values.thy ===== *)
theory Json_Values
  imports Json
begin

text \<open>
  \<open>$.json_stringify\<close> on all values of JSON, against the compact form of the standard as reference (\<open>json_print\<close>: commas
  only between the members; literals escaped by the table of the code, which also escapes the slash), and \<open>JSON.parse\<close>
  on them. Numbers are integers without a bound (in a browser they are exact up to \<open>2 ^ 53\<close>); the properties of an object
  are in their order of enumeration.
\<close>

section \<open>The reference\<close>

fun json_print :: "jsval \<Rightarrow> string" where
  "json_print JNull = ''null''"
| "json_print (JBool b) = (if b then ''true'' else ''false'')"
| "json_print (JNum i) = show_int i"
| "json_print (JStr s) = json_lit s"
| "json_print (JArr xs) = CHR ''['' # join_with '','' (map json_print xs) @ '']''"
| "json_print (JObj ps) = CHR ''{'' # join_with '','' (map (\<lambda>(k, v). CHR 0x22 # k @ CHR 0x22 # CHR '':'' # json_print v) ps) @ ''}''"
| "json_print v = ''''"

text \<open>
  The values of JSON that the writer gets right: texts as in \<^const>\<open>json_storable\<close>, and names of properties that need
  no escaping, since it escapes none.
\<close>

definition json_key :: "string \<Rightarrow> bool" where
  "json_key k \<longleftrightarrow> (\<forall>c\<in>set k. \<not> c < CHR 0x20 \<and> c \<noteq> CHR 0x22 \<and> c \<noteq> CHR 0x5C) \<and> \<not> has_pair close_pair k \<and> \<not> has_pair open_pair k"

fun json_value :: "jsval \<Rightarrow> bool" where
  "json_value JNull = True"
| "json_value (JBool b) = True"
| "json_value (JNum i) = True"
| "json_value (JStr s) = json_storable s"
| "json_value (JArr xs) = (\<forall>x\<in>set xs. json_value x)"
| "json_value (JObj ps) = (distinct (map fst ps) \<and> (\<forall>p\<in>set ps. json_key (fst p) \<and> json_value (snd p)))"
| "json_value v = False"

section \<open>What the writer makes before the commas go\<close>

definition chunks :: "string list \<Rightarrow> string" where
  "chunks cs = concat (map (\<lambda>c. c @ '','') cs)"

fun json_raw :: "jsval \<Rightarrow> string" where
  "json_raw JNull = ''null''"
| "json_raw (JBool b) = (if b then ''true'' else ''false'')"
| "json_raw (JNum i) = show_int i"
| "json_raw (JStr s) = json_lit s"
| "json_raw (JArr xs) = CHR ''['' # chunks (map json_raw xs) @ '']''"
| "json_raw (JObj ps) = CHR ''{'' # chunks (map (\<lambda>(k, v). CHR 0x22 # k @ CHR 0x22 # CHR '':'' # json_raw v) ps) @ ''}''"
| "json_raw v = ''''"

definition good_ends :: "string \<Rightarrow> bool" where
  "good_ends s \<longleftrightarrow> s \<noteq> [] \<and> hd s \<notin> {CHR '','', CHR '']'', CHR ''}''} \<and> last s \<notin> {CHR '','', CHR ''['', CHR ''{''}"

lemma no_pair:
  "a \<noteq> CHR '','' \<Longrightarrow> \<not> close_pair a b" "b \<noteq> CHR '']'' \<Longrightarrow> b \<noteq> CHR ''}'' \<Longrightarrow> \<not> close_pair a b"
  "a \<noteq> CHR ''['' \<Longrightarrow> a \<noteq> CHR ''{'' \<Longrightarrow> \<not> open_pair a b" "b \<noteq> CHR '','' \<Longrightarrow> \<not> open_pair a b"
  by (auto simp: close_pair_def open_pair_def)

lemma chunks_simps [simp]: "chunks [] = []" "chunks (c # cs) = c @ CHR '','' # chunks cs"
  by (simp_all add: chunks_def)

lemma show_nat_ne [simp]: "show_nat n \<noteq> []"
  by (subst show_nat.simps) simp

lemma digit_plain: "c \<in> set (show_nat n) \<Longrightarrow> digit_char c"
proof -
  assume "c \<in> set (show_nat n)"
  then obtain d where d: "d < 10" "c = digit d" using digits_of_show_nat by blast
  then have "d \<in> {0, 1, 2, 3, 4, 5, 6, 7, 8, 9}" by auto
  then show ?thesis using d(2) by (auto simp: digit_char_def digit_def less_eq_char_def)
qed

lemma show_int_chars: "c \<in> set (show_int i) \<Longrightarrow> digit_char c \<or> c = CHR ''-''"
  using digit_plain by (auto simp: show_int_def split: if_splits)

lemma show_int_ne [simp]: "show_int i \<noteq> []"
  by (simp add: show_int_def)

lemma digit_char_not: "digit_char c \<Longrightarrow> c \<notin> {CHR '','', CHR '']'', CHR ''}'', CHR ''['', CHR ''{'', CHR 0x22, CHR '' '', CHR 0x09, CHR 0x0A, CHR 0x0D, CHR '':''}"
  by (auto simp: digit_char_def less_eq_char_def)

lemma good_ends_int: "good_ends (show_int i)"
proof -
  have "hd (show_int i) \<in> set (show_int i)" "last (show_int i) \<in> set (show_int i)" by simp_all
  then have "digit_char (hd (show_int i)) \<or> hd (show_int i) = CHR ''-''" "digit_char (last (show_int i)) \<or> last (show_int i) = CHR ''-''"
    using show_int_chars by blast+
  then show ?thesis using digit_char_not by (auto simp: good_ends_def)
qed

lemma no_pair_chars: "(\<forall>c\<in>set s. c \<noteq> CHR '','') \<Longrightarrow> \<not> has_pair close_pair s \<and> \<not> has_pair open_pair s"
  by (induction s rule: induct_list012) (auto simp: close_pair_def open_pair_def)

lemma int_pairs: "\<not> has_pair close_pair (show_int i)" "\<not> has_pair open_pair (show_int i)"
  using no_pair_chars [of "show_int i"] show_int_chars digit_char_not by blast+

section \<open>The two replacements on chunks\<close>

lemma drop_first_append:
  "s \<noteq> [] \<Longrightarrow> last s \<noteq> CHR '','' \<Longrightarrow> drop_first close_pair (s @ t) = drop_first close_pair s @ drop_first close_pair t"
proof (induction close_pair s rule: drop_first.induct)
  case (1 a b s)
  show ?case
  proof (cases "close_pair a b \<and> s = []")
    case True
    then have "b \<noteq> CHR '',''" by (auto simp: close_pair_def)
    then show ?thesis using True by (cases t) (auto simp: no_pair)
  next
    case False
    then show ?thesis using 1 by auto
  qed
next
  case "2_2"
  then show ?case by (cases t) (auto simp: no_pair)
qed simp

lemma drop_first_Cons: "a \<noteq> CHR '','' \<Longrightarrow> drop_first close_pair (a # t) = a # drop_first close_pair t"
  by (cases t) (auto simp: no_pair)

lemma chunks_drop:
  assumes "cs \<noteq> []" "\<forall>c\<in>set cs. good_ends c" "e = CHR '']'' \<or> e = CHR ''}''"
  shows "drop_first close_pair (chunks cs @ [e]) = join_with '','' (map (drop_first close_pair) cs) @ [e]"
  using assms(1,2)
proof (induction cs rule: induct_list012)
  case (2 c)
  have "drop_first close_pair (c @ [CHR '','', e]) = drop_first close_pair c @ drop_first close_pair [CHR '','', e]"
    using 2 by (intro drop_first_append) (auto simp: good_ends_def)
  moreover have "drop_first close_pair [CHR '','', e] = [e]" using assms(3) by (auto simp: close_pair_def)
  ultimately show ?case by simp
next
  case (3 c d cs)
  let ?r = "chunks (d # cs) @ [e]"
  have "?r \<noteq> []" "hd ?r = hd d" using 3(4) by (simp_all add: good_ends_def)
  then have "drop_first close_pair (CHR '','' # ?r) = CHR '','' # drop_first close_pair ?r"
    using 3(4) by (cases ?r) (auto simp: good_ends_def no_pair)
  moreover have "drop_first close_pair (c @ CHR '','' # ?r) = drop_first close_pair c @ drop_first close_pair (CHR '','' # ?r)"
    using 3(4) by (intro drop_first_append) (auto simp: good_ends_def)
  ultimately show ?case using 3 by simp
qed simp

lemma chunks_open:
  "\<forall>c\<in>set cs. good_ends c \<and> \<not> has_pair open_pair c \<Longrightarrow>
   \<not> has_pair open_pair (chunks cs) \<and> (cs \<noteq> [] \<longrightarrow> chunks cs \<noteq> [] \<and> hd (chunks cs) \<noteq> CHR '','')"
proof (induction cs)
  case (Cons c cs)
  then have "\<not> has_pair open_pair (CHR '','' # chunks cs)" by (cases "chunks cs") (auto simp: no_pair)
  then show ?case using Cons by (auto simp: has_pair_append good_ends_def no_pair)
qed simp

lemma join_open:
  "\<forall>c\<in>set cs. good_ends c \<and> \<not> has_pair open_pair c \<Longrightarrow>
   \<not> has_pair open_pair (join_with '','' cs) \<and> (cs \<noteq> [] \<longrightarrow> join_with '','' cs \<noteq> [] \<and> hd (join_with '','' cs) = hd (hd cs))"
proof (induction cs rule: induct_list012)
  case (3 c d cs)
  then have j: "\<not> has_pair open_pair (join_with '','' (d # cs))" by simp
  have "\<not> has_pair open_pair (CHR '','' # join_with '','' (d # cs))"
    using j by (cases "join_with '','' (d # cs)") (auto simp: no_pair)
  then show ?case using 3 by (auto simp: has_pair_append good_ends_def no_pair)
qed (simp_all add: good_ends_def)

lemma bracket_open:
  assumes "\<not> has_pair open_pair m" "m = [] \<or> hd m \<noteq> CHR '',''" "e \<noteq> CHR '',''"
  shows "\<not> has_pair open_pair (a # m @ [e])"
proof -
  have "\<not> has_pair open_pair (m @ [e])" using assms by (auto simp: has_pair_append no_pair)
  then show ?thesis using assms by (cases "m @ [e]"; cases m) (auto simp: no_pair)
qed

lemma open_brackets:
  assumes "\<forall>c\<in>set cs. good_ends c \<and> \<not> has_pair open_pair c" "e \<noteq> CHR '',''"
  shows "\<not> has_pair open_pair (a # chunks cs @ [e])" "\<not> has_pair open_pair (a # join_with '','' cs @ [e])"
proof -
  have "chunks cs = [] \<or> hd (chunks cs) \<noteq> CHR '',''" using chunks_open [OF assms(1)] by (cases cs) auto
  then show "\<not> has_pair open_pair (a # chunks cs @ [e])" using chunks_open [OF assms(1)] assms(2) by (intro bracket_open) auto
  have "join_with '','' cs = [] \<or> hd (join_with '','' cs) \<noteq> CHR '',''"
    using join_open [OF assms(1)] assms(1) by (cases cs) (auto simp: good_ends_def)
  then show "\<not> has_pair open_pair (a # join_with '','' cs @ [e])" using join_open [OF assms(1)] assms(2) by (intro bracket_open) auto
qed

section \<open>The writer\<close>

abbreviation raw_member :: "string \<times> jsval \<Rightarrow> string" where
  "raw_member \<equiv> \<lambda>(k, v). CHR 0x22 # k @ CHR 0x22 # CHR '':'' # json_raw v"

abbreviation print_member :: "string \<times> jsval \<Rightarrow> string" where
  "print_member \<equiv> \<lambda>(k, v). CHR 0x22 # k @ CHR 0x22 # CHR '':'' # json_print v"

lemma good_ends_lit: "good_ends (json_lit s)"
  by (simp add: good_ends_def)

lemma good_ends_brackets: "a \<in> {CHR ''['', CHR ''{''} \<Longrightarrow> e \<in> {CHR '']'', CHR ''}''} \<Longrightarrow> good_ends (a # m @ [e])"
  by (auto simp: good_ends_def)

lemma raw_ends: "json_value v \<Longrightarrow> good_ends (json_raw v)"
  by (cases v) (simp_all add: good_ends_lit good_ends_brackets good_ends_int, simp_all add: good_ends_def)

lemma print_ends: "json_value v \<Longrightarrow> good_ends (json_print v)"
  by (cases v) (simp_all add: good_ends_lit good_ends_brackets good_ends_int, simp_all add: good_ends_def)

lemma member_ends: "good_ends v \<Longrightarrow> good_ends (CHR 0x22 # k @ CHR 0x22 # CHR '':'' # v)"
  by (auto simp: good_ends_def)

lemma key_pairs:
  assumes "json_key k"
  shows "\<not> has_pair close_pair (CHR 0x22 # k @ [CHR 0x22, CHR '':''])" "\<not> has_pair open_pair (CHR 0x22 # k @ [CHR 0x22, CHR '':''])"
proof -
  have "\<not> has_pair close_pair ([CHR 0x22] @ k @ [CHR 0x22, CHR '':''])" "\<not> has_pair open_pair ([CHR 0x22] @ k @ [CHR 0x22, CHR '':''])"
    using assms unfolding has_pair_append json_key_def by (simp_all add: no_pair)
  then show "\<not> has_pair close_pair (CHR 0x22 # k @ [CHR 0x22, CHR '':''])" "\<not> has_pair open_pair (CHR 0x22 # k @ [CHR 0x22, CHR '':''])"
    by simp_all
qed

lemma member_open:
  assumes "json_key k" "\<not> has_pair open_pair v" "good_ends v"
  shows "\<not> has_pair open_pair (CHR 0x22 # k @ CHR 0x22 # CHR '':'' # v)"
proof -
  have "\<not> has_pair open_pair ((CHR 0x22 # k @ [CHR 0x22, CHR '':'']) @ v)"
    using key_pairs(2) [OF assms(1)] assms(2) unfolding has_pair_append by (simp add: no_pair)
  then show ?thesis by simp
qed

lemma raw_open: "json_value v \<Longrightarrow> \<not> has_pair open_pair (json_raw v)"
proof (induction v)
  case (JArr xs)
  then have "\<forall>c\<in>set (map json_raw xs). good_ends c \<and> \<not> has_pair open_pair c" using raw_ends by auto
  from open_brackets(1) [OF this] show ?case by simp
next
  case (JObj ps)
  then have "\<forall>c\<in>set (map raw_member ps). good_ends c \<and> \<not> has_pair open_pair c"
    using raw_ends member_ends member_open by fastforce
  from open_brackets(1) [OF this] show ?case by simp
qed (simp_all add: int_pairs json_lit_pairs json_storable_def no_pair)

lemma print_open: "json_value v \<Longrightarrow> \<not> has_pair open_pair (json_print v)"
proof (induction v)
  case (JArr xs)
  then have "\<forall>c\<in>set (map json_print xs). good_ends c \<and> \<not> has_pair open_pair c" using print_ends by auto
  from open_brackets(2) [OF this] show ?case by simp
next
  case (JObj ps)
  then have "\<forall>c\<in>set (map print_member ps). good_ends c \<and> \<not> has_pair open_pair c"
    using print_ends member_ends member_open by fastforce
  from open_brackets(2) [OF this] show ?case by simp
qed (simp_all add: int_pairs json_lit_pairs json_storable_def no_pair)

text \<open>Below the top the writer makes the raw text and a comma.\<close>

lemma close_below: "json_value v \<Longrightarrow> json_close (Suc (Suc n)) (json_raw v) = json_raw v @ '',''"
proof -
  assume v: "json_value v"
  have "last (json_raw v) \<notin> {CHR ''['', CHR ''{''}" using raw_ends [OF v] by (simp add: good_ends_def)
  then have "\<not> has_pair open_pair (json_raw v @ '','')" using raw_open [OF v] by (auto simp: has_pair_append no_pair)
  then show ?thesis by (simp add: json_close_eq drop_second_id)
qed

lemma stringify_below: "json_value v \<Longrightarrow> json_stringify v (Suc (Suc n)) = json_raw v @ '',''"
proof (induction v arbitrary: n)
  case (JArr xs)
  show ?case
  proof (cases "xs = []")
    case True
    then show ?thesis by (simp add: json_close_eq no_pair open_pair_def)
  next
    case False
    have "concat (map (\<lambda>x. json_stringify x (Suc (Suc (Suc n)))) xs) = chunks (map json_raw xs)"
      unfolding chunks_def map_map comp_def using JArr by (intro arg_cong [where f = concat] map_cong) auto
    then show ?thesis using False close_below [OF JArr.prems] by simp
  qed
next
  case (JObj ps)
  have "concat (map (\<lambda>(k, v). CHR 0x22 # k @ CHR 0x22 # CHR '':'' # json_stringify v (Suc (Suc (Suc n)))) ps) = chunks (map raw_member ps)"
    unfolding chunks_def map_map comp_def using JObj by (intro arg_cong [where f = concat] map_cong) (auto split: prod.split)
  then show ?case using close_below [OF JObj.prems] by simp
next
  case (JStr s)
  then show ?case using close_below [of "JStr s" n] by (simp add: json_lit_def)
next
  case (JNum i)
  then show ?case using close_below [of "JNum i" n] by simp
next
  case (JBool b)
  then show ?case using close_below [of "JBool b" n] by simp
next
  case JNull
  then show ?case using close_below [of JNull n] by simp
qed simp_all

lemma raw_drop: "json_value v \<Longrightarrow> drop_first close_pair (json_raw v) = json_print v"
proof (induction v)
  case (JArr xs)
  show ?case
  proof (cases "xs = []")
    case False
    have e: "drop_first close_pair (chunks (map json_raw xs) @ '']'') = join_with '','' (map (drop_first close_pair) (map json_raw xs)) @ '']''"
      using False JArr.prems raw_ends by (intro chunks_drop) auto
    have m: "map (drop_first close_pair) (map json_raw xs) = map json_print xs"
      unfolding map_map comp_def using JArr by (intro map_cong) auto
    show ?thesis using e unfolding m by (simp add: drop_first_Cons)
  qed (simp add: no_pair)
next
  case (JObj ps)
  show ?case
  proof (cases "ps = []")
    case False
    have e: "drop_first close_pair (chunks (map raw_member ps) @ ''}'') = join_with '','' (map (drop_first close_pair) (map raw_member ps)) @ ''}''"
      using False JObj.prems raw_ends member_ends by (intro chunks_drop) auto
    have p: "drop_first close_pair (raw_member p) = print_member p" if "p \<in> set ps" for p
    proof -
      obtain k v where p: "p = (k, v)" by (cases p)
      let ?k = "CHR 0x22 # k @ [CHR 0x22, CHR '':'']"
      have "json_key k" "drop_first close_pair (json_raw v) = json_print v" using JObj that p by force+
      moreover have "drop_first close_pair (?k @ json_raw v) = drop_first close_pair ?k @ drop_first close_pair (json_raw v)"
        by (rule drop_first_append) simp_all
      ultimately show ?thesis using drop_first_id [OF key_pairs(1)] by (simp add: p)
    qed
    have m: "map (drop_first close_pair) (map raw_member ps) = map print_member ps"
      unfolding map_map comp_def using p by (rule map_cong [OF refl])
    show ?thesis using e unfolding m by (simp add: drop_first_Cons)
  qed (simp add: no_pair)
qed (simp_all add: drop_first_id int_pairs json_lit_pairs json_storable_def no_pair)

text \<open>
  On every value of JSON whose texts hold no comma beside a bracket the writer, with its commas after everything and its
  two replacements over the whole text, makes what the standard's writer makes.
\<close>

lemma json_print_written:
  assumes "json_value v"
  shows "json_stringify v 1 = json_print v"
proof -
  have "json_stringify v 1 = drop_second open_pair (drop_first close_pair (json_raw v))" if "v \<noteq> JArr []"
  proof (cases v)
    case (JArr xs)
    have "concat (map (\<lambda>x. json_stringify x (Suc (Suc 0))) xs) = chunks (map json_raw xs)"
      unfolding chunks_def map_map comp_def using assms JArr by (intro arg_cong [where f = concat] map_cong) (auto simp: stringify_below)
    then show ?thesis using that JArr by (simp add: json_close_eq)
  next
    case (JObj ps)
    have "concat (map (\<lambda>(k, v). CHR 0x22 # k @ CHR 0x22 # CHR '':'' # json_stringify v (Suc (Suc 0))) ps) = chunks (map raw_member ps)"
      unfolding chunks_def map_map comp_def using assms JObj
      by (intro arg_cong [where f = concat] map_cong) (auto simp: stringify_below split: prod.split)
    then show ?thesis using JObj by (simp add: json_close_eq)
  qed (use assms in \<open>simp_all add: json_close_eq json_lit_def\<close>)
  moreover have "json_stringify (JArr []) 1 = json_print (JArr [])" by (simp add: json_close_eq no_pair open_pair_def close_pair_def)
  ultimately show ?thesis using raw_drop [OF assms] drop_second_id [OF print_open [OF assms]] by (cases "v = JArr []") auto
qed

section \<open>\<open>JSON.parse\<close>\<close>

text \<open>
  Each function takes the rest of the text and gives the value and what follows it; \<^const>\<open>None\<close>: the text is no JSON, or
  holds a number that is no integer. The first argument bounds the recursion; the length of the text is enough.
\<close>

definition strip_word :: "string \<Rightarrow> string \<Rightarrow> string option" where
  "strip_word w s = (if take (length w) s = w then Some (drop (length w) s) else None)"

definition parse_num :: "string \<Rightarrow> (int \<times> string) option" where
  "parse_num s =
     (let neg = s \<noteq> [] \<and> hd s = CHR ''-''; t = (if neg then tl s else s); ds = takeWhile digit_char t; r = dropWhile digit_char t
      in if ds = [] \<or> (hd ds = CHR ''0'' \<and> tl ds \<noteq> []) \<or> (r \<noteq> [] \<and> hd r \<in> {CHR ''.'', CHR ''e'', CHR ''E''}) then None
         else Some (if neg then - int (read_nat 0 ds) else int (read_nat 0 ds), r))"

text \<open>A name that comes twice keeps its place and takes the later value.\<close>

definition put_member :: "string \<times> jsval \<Rightarrow> (string \<times> jsval) list \<Rightarrow> (string \<times> jsval) list" where
  "put_member p ps = (if fst p \<in> set (map fst ps) then map (\<lambda>q. if fst q = fst p then p else q) ps else ps @ [p])"

fun parse_val :: "nat \<Rightarrow> string \<Rightarrow> (jsval \<times> string) option"
  and parse_list :: "nat \<Rightarrow> string \<Rightarrow> (jsval list \<times> string) option"
  and parse_members :: "nat \<Rightarrow> string \<Rightarrow> ((string \<times> jsval) list \<times> string) option" where
  "parse_val 0 s = None"
| "parse_val (Suc n) s =
     (case skip_ws s of
        [] \<Rightarrow> None
      | c # cs \<Rightarrow>
          (if c = CHR 0x22 then map_option (\<lambda>(x, r). (JStr x, r)) (parse_body cs)
           else if c = CHR ''['' then
             (case skip_ws cs of
                [] \<Rightarrow> None
              | d # r \<Rightarrow> (if d = CHR '']'' then Some (JArr [], r) else map_option (\<lambda>(xs, r). (JArr xs, r)) (parse_list n cs)))
           else if c = CHR ''{'' then
             (case skip_ws cs of
                [] \<Rightarrow> None
              | d # r \<Rightarrow> (if d = CHR ''}'' then Some (JObj [], r)
                          else map_option (\<lambda>(ps, r). (JObj (fold put_member ps []), r)) (parse_members n cs)))
           else if c = CHR ''n'' then map_option (\<lambda>r. (JNull, r)) (strip_word ''ull'' cs)
           else if c = CHR ''t'' then map_option (\<lambda>r. (JBool True, r)) (strip_word ''rue'' cs)
           else if c = CHR ''f'' then map_option (\<lambda>r. (JBool False, r)) (strip_word ''alse'' cs)
           else map_option (\<lambda>(i, r). (JNum i, r)) (parse_num (c # cs))))"
| "parse_list 0 s = None"
| "parse_list (Suc n) s =
     (case parse_val n s of
        None \<Rightarrow> None
      | Some (v, r) \<Rightarrow>
          (case skip_ws r of
             [] \<Rightarrow> None
           | d # r \<Rightarrow>
               (if d = CHR '']'' then Some ([v], r)
                else if d = CHR '','' then map_option (\<lambda>(vs, t). (v # vs, t)) (parse_list n r)
                else None)))"
| "parse_members 0 s = None"
| "parse_members (Suc n) s =
     (case skip_ws s of
        [] \<Rightarrow> None
      | c # cs \<Rightarrow>
          (if c \<noteq> CHR 0x22 then None
           else (case parse_body cs of
               None \<Rightarrow> None
             | Some (k, r) \<Rightarrow>
                 (case skip_ws r of
                    [] \<Rightarrow> None
                  | d # r \<Rightarrow>
                      (if d \<noteq> CHR '':'' then None
                       else (case parse_val n r of
                           None \<Rightarrow> None
                         | Some (v, r) \<Rightarrow>
                             (case skip_ws r of
                                [] \<Rightarrow> None
                              | d # r \<Rightarrow>
                                  (if d = CHR ''}'' then Some ([(k, v)], r)
                                   else if d = CHR '','' then map_option (\<lambda>(ps, t). ((k, v) # ps, t)) (parse_members n r)
                                   else None))))))))"

definition parse_json :: "string \<Rightarrow> js_error + jsval" where
  "parse_json s =
     (case parse_val (length s) s of
        None \<Rightarrow> Inl SyntaxError
      | Some (v, r) \<Rightarrow> (if skip_ws r = [] then Inr v else Inl SyntaxError))"

section \<open>What is written is read back\<close>

lemma skip_simps [simp]: "skip_ws [] = []" "\<not> json_ws c \<Longrightarrow> skip_ws (c # s) = c # s"
  by (simp_all add: skip_ws_def)

lemma ws_simps [simp]:
  "\<not> json_ws CHR 0x22" "\<not> json_ws CHR '','' " "\<not> json_ws CHR ''['' " "\<not> json_ws CHR '']'' " "\<not> json_ws CHR ''{'' " "\<not> json_ws CHR ''}'' "
  "\<not> json_ws CHR '':'' " "\<not> json_ws CHR ''n'' " "\<not> json_ws CHR ''t'' " "\<not> json_ws CHR ''f'' " "\<not> json_ws CHR ''-'' "
  "digit_char c \<Longrightarrow> \<not> json_ws c"
  using digit_char_not by (auto simp: json_ws_def)

definition json_stop :: "string \<Rightarrow> bool" where
  "json_stop r \<longleftrightarrow> r = [] \<or> hd r \<in> {CHR '','', CHR '']'', CHR ''}''}"

lemma stop_simps [simp]: "json_stop []" "json_stop (CHR '','' # r)" "json_stop (CHR '']'' # r)" "json_stop (CHR ''}'' # r)"
  by (simp_all add: json_stop_def)

lemma digit_zero: "d < 10 \<Longrightarrow> digit d = CHR ''0'' \<longleftrightarrow> d = 0"
proof -
  have "digit 0 = CHR ''0''" by code_simp
  then show "d < 10 \<Longrightarrow> ?thesis" using read_digit [of d] read_digit [of 0] by fastforce
qed

lemma show_nat_zero: "0 < n \<Longrightarrow> hd (show_nat n) \<noteq> CHR ''0''"
proof (induction n rule: show_nat.induct)
  case (1 n)
  then show ?case by (cases "n < 10") (simp_all add: show_nat.simps [of n] digit_zero)
qed

lemma show_nat_lead: "\<not> (hd (show_nat n) = CHR ''0'' \<and> tl (show_nat n) \<noteq> [])"
  using show_nat_zero [of n] by (cases "n = 0") (auto simp: show_nat.simps [of 0])

lemma stop_digit: "json_stop r \<Longrightarrow> takeWhile digit_char (show_nat n @ r) = show_nat n \<and> dropWhile digit_char (show_nat n @ r) = r"
proof -
  assume "json_stop r"
  then have "takeWhile digit_char r = []" "dropWhile digit_char r = r"
    using digit_char_not by (cases r; auto simp: json_stop_def)+
  then show ?thesis using digit_plain by (simp add: takeWhile_append2 dropWhile_append2)
qed

lemma parse_num_nat:
  assumes "json_stop r"
  shows "parse_num (show_nat n @ r) = Some (int n, r)" "parse_num (CHR ''-'' # show_nat n @ r) = Some (- int n, r)"
proof -
  have "hd (show_nat n) \<noteq> CHR ''-''"
    using digit_plain [of "hd (show_nat n)" n] by (auto simp: digit_char_def less_eq_char_def)
  then show "parse_num (show_nat n @ r) = Some (int n, r)"
    using stop_digit [OF assms, of n] show_nat_lead [of n] assms by (auto simp: parse_num_def Let_def read_show_nat json_stop_def)
  show "parse_num (CHR ''-'' # show_nat n @ r) = Some (- int n, r)"
    using stop_digit [OF assms, of n] show_nat_lead [of n] assms by (auto simp: parse_num_def Let_def read_show_nat json_stop_def)
qed

lemma parse_num_int: "json_stop r \<Longrightarrow> parse_num (show_int i @ r) = Some (i, r)"
  using parse_num_nat [of r "nat i"] parse_num_nat [of r "nat (- i)"] by (simp add: show_int_def)

text \<open>\<open>reads v\<close>: with enough fuel the printed \<open>v\<close> is read back, whatever may follow it.\<close>

definition reads :: "jsval \<Rightarrow> bool" where
  "reads v \<longleftrightarrow> (\<forall>n r. length (json_print v) \<le> n \<longrightarrow> json_stop r \<longrightarrow> parse_val n (json_print v @ r) = Some (v, r))"

lemma reads_Suc: "(\<And>n r. length (json_print v) \<le> Suc n \<Longrightarrow> json_stop r \<Longrightarrow> parse_val (Suc n) (json_print v @ r) = Some (v, r)) \<Longrightarrow>
   json_print v \<noteq> [] \<Longrightarrow> reads v"
  unfolding reads_def by (metis le_0_eq length_0_conv not0_implies_Suc)

lemma reads_int: "reads (JNum i)"
proof (rule reads_Suc)
  fix n r assume "json_stop r"
  obtain c t where c: "show_int i = c # t" by (cases "show_int i") auto
  then have "digit_char c \<or> c = CHR ''-''" using show_int_chars [of c i] by simp
  then have "\<not> json_ws c \<and> c \<notin> {CHR 0x22, CHR ''['', CHR ''{'', CHR ''n'', CHR ''t'', CHR ''f''}"
    by (auto simp: digit_char_def less_eq_char_def)
  then show "parse_val (Suc n) (json_print (JNum i) @ r) = Some (JNum i, r)"
    using parse_num_int [OF \<open>json_stop r\<close>, of i] by (simp add: c)
qed simp

lemma reads_str: "json_storable s \<Longrightarrow> reads (JStr s)"
proof (rule reads_Suc)
  fix n r assume "json_storable s"
  then have "parse_body (json_escape s @ CHR 0x22 # r) = Some (s, r)" by (intro parse_body_escape) (simp add: json_storable_def)
  then show "parse_val (Suc n) (json_print (JStr s) @ r) = Some (JStr s, r)" by (simp add: json_lit_def)
qed simp

lemma parse_list_join:
  "xs \<noteq> [] \<Longrightarrow> \<forall>x\<in>set xs. reads x \<Longrightarrow> length (join_with '','' (map json_print xs)) < n \<Longrightarrow>
   parse_list n (join_with '','' (map json_print xs) @ CHR '']'' # r) = Some (xs, r)"
proof (induction xs arbitrary: n rule: induct_list012)
  case (2 x)
  then obtain m where m: "n = Suc m" "length (json_print x) \<le> m" by (cases n) auto
  then have "parse_val m (json_print x @ CHR '']'' # r) = Some (x, CHR '']'' # r)" using 2 by (simp add: reads_def)
  then show ?case by (simp add: m)
next
  case (3 x y xs)
  let ?t = "join_with '','' (map json_print (y # xs)) @ CHR '']'' # r"
  obtain m where m: "n = Suc m" "length (json_print x) \<le> m" "length (join_with '','' (map json_print (y # xs))) < m"
    using "3.prems"(3) by (cases n) auto
  have "parse_val m (json_print x @ CHR '','' # ?t) = Some (x, CHR '','' # ?t)" using 3(4) m(2) by (simp add: reads_def)
  moreover have "parse_list m ?t = Some (y # xs, r)" using 3(2) [OF _ _ m(3)] 3(4) by simp
  ultimately show ?case by (simp add: m(1))
qed simp

lemma plain_body: "\<forall>c\<in>set k. \<not> c < CHR 0x20 \<and> c \<noteq> CHR 0x22 \<and> c \<noteq> CHR 0x5C \<Longrightarrow> parse_body (k @ CHR 0x22 # r) = Some (k, r)"
  by (induction k) auto

lemma parse_members_join:
  "ps \<noteq> [] \<Longrightarrow> \<forall>p\<in>set ps. json_key (fst p) \<and> reads (snd p) \<Longrightarrow> length (join_with '','' (map print_member ps)) < n \<Longrightarrow>
   parse_members n (join_with '','' (map print_member ps) @ CHR ''}'' # r) = Some (ps, r)"
proof (induction ps arbitrary: n rule: induct_list012)
  case (2 p)
  obtain k v where p: "p = (k, v)" by (cases p)
  obtain m where m: "n = Suc m" "length (json_print v) \<le> m" using "2.prems"(3) by (cases n) (auto simp: p)
  have "parse_val m (json_print v @ CHR ''}'' # r) = Some (v, CHR ''}'' # r)" using 2 m(2) by (simp add: reads_def p)
  moreover have "parse_body (k @ CHR 0x22 # s) = Some (k, s)" for s using 2 by (intro plain_body) (simp add: json_key_def p)
  ultimately show ?case by (simp add: m p)
next
  case (3 p q ps)
  let ?t = "join_with '','' (map print_member (q # ps)) @ CHR ''}'' # r"
  obtain k v where p: "p = (k, v)" by (cases p)
  obtain m where m: "n = Suc m" "length (json_print v) \<le> m" "length (join_with '','' (map print_member (q # ps))) < m"
    using "3.prems"(3) by (cases n) (auto simp: p)
  have "parse_val m (json_print v @ CHR '','' # ?t) = Some (v, CHR '','' # ?t)" using 3(4) m(2) by (simp add: reads_def p)
  moreover have "parse_members m ?t = Some (q # ps, r)" using 3(2) [OF _ _ m(3)] 3(4) by simp
  moreover have "parse_body (k @ CHR 0x22 # s) = Some (k, s)" for s using 3(4) by (intro plain_body) (simp add: json_key_def p)
  ultimately show ?case by (simp add: m(1) p)
qed simp

lemma fold_put_append: "distinct (map fst (qs @ ps)) \<Longrightarrow> fold put_member ps qs = qs @ ps"
  by (induction ps arbitrary: qs) (auto simp: put_member_def)

lemma print_start: "json_value v \<Longrightarrow> \<exists>c t. json_print v = c # t \<and> \<not> json_ws c \<and> c \<noteq> CHR '']''"
proof -
  assume v: "json_value v"
  have "\<not> json_ws (hd (json_print v))"
  proof (cases v)
    case (JNum i)
    then show ?thesis using show_int_chars [of "hd (show_int i)" i] by auto
  qed (use v in \<open>auto simp: json_lit_def\<close>)
  then show ?thesis using print_ends [OF v] by (cases "json_print v") (auto simp: good_ends_def)
qed

lemma join_start: "xs \<noteq> [] \<Longrightarrow> hd xs = c # t \<Longrightarrow> \<exists>u. join_with '','' xs = c # u"
  by (cases xs rule: list.exhaust; cases "tl xs") auto

lemma json_reads: "json_value v \<Longrightarrow> reads v"
proof (induction v)
  case (JArr xs)
  show ?case
  proof (rule reads_Suc)
    fix n r assume n: "length (json_print (JArr xs)) \<le> Suc n"
    show "parse_val (Suc n) (json_print (JArr xs) @ r) = Some (JArr xs, r)"
    proof (cases "xs = []")
      case False
      let ?j = "join_with '','' (map json_print xs)"
      have "parse_list n (?j @ CHR '']'' # r) = Some (xs, r)"
        using False JArr n by (intro parse_list_join) auto
      moreover obtain c u where "?j = c # u" "\<not> json_ws c" "c \<noteq> CHR '']''"
        using print_start [of "hd xs"] JArr.prems False join_start [of "map json_print xs"] by (auto simp: hd_map)
      ultimately show ?thesis by simp
    qed simp
  qed simp
next
  case (JObj ps)
  show ?case
  proof (rule reads_Suc)
    fix n r assume n: "length (json_print (JObj ps)) \<le> Suc n"
    show "parse_val (Suc n) (json_print (JObj ps) @ r) = Some (JObj ps, r)"
    proof (cases "ps = []")
      case False
      let ?j = "join_with '','' (map print_member ps)"
      have "\<forall>p\<in>set ps. json_key (fst p) \<and> reads (snd p)" using JObj by force
      then have "parse_members n (?j @ CHR ''}'' # r) = Some (ps, r)" using False n by (intro parse_members_join) auto
      moreover obtain u where "?j = CHR 0x22 # u"
        using False join_start [of "map print_member ps"] by (cases ps) (auto split: prod.split)
      moreover have "fold put_member ps [] = ps" using fold_put_append [of "[]" ps] JObj.prems by simp
      ultimately show ?thesis by simp
    qed simp
  qed simp
qed (simp_all add: reads_int reads_str, auto intro!: reads_Suc simp: strip_word_def split: if_splits)

lemma json_value_back: "json_value v \<Longrightarrow> parse_json (json_stringify v 1) = Inr v"
proof -
  assume v: "json_value v"
  have "parse_val (length (json_print v)) (json_print v @ []) = Some (v, [])"
    using json_reads [OF v] unfolding reads_def by (metis le_refl stop_simps(1))
  then show ?thesis unfolding json_print_written [OF v] parse_json_def by simp
qed



end
