(* ===== verification/Hash_Commands.thy ===== *)
theory Hash_Commands
  imports Startup Json_Values
begin

text \<open>
  The part of \<open>commands\<close> and of its \<open>after_exec\<close> that keeps the hash of the address bar, with the setting
  \<open>historyState\<close>: what is typed on a terminal of the page, the views that are saved for it, and the hash that results.
  A terminal without \<open>onAfterCommand\<close> is meant, which would be called after the state is saved.
\<close>

section \<open>Commands on the page\<close>

text \<open>Before the first command of a terminal its state is saved; the first of all leaves the hash alone.\<close>

definition before_command :: "(nat \<Rightarrow> t_env) \<Rightarrow> bool \<Rightarrow> bool \<Rightarrow> nat \<Rightarrow> tab meth" where
  "before_command envs history_on first t s =
     (if first \<and> history_on then
        (if saved s = [] then save_state envs t JUndef False s else save_state envs t JNull False s)
      else (None, s))"

definition hash_after_exec :: "(nat \<Rightarrow> t_env) \<Rightarrow> bool \<Rightarrow> bool \<Rightarrow> bool \<Rightarrow> nat \<Rightarrow> string \<Rightarrow> tab meth" where
  "hash_after_exec envs history_on by_exec saved_change_hash t txt s =
     (if \<not> by_exec then
        (let s = s\<lparr>change_hash := True\<rparr>
         in and_then (if history_on then save_state envs t (JStr txt) False s else (None, s))
              (\<lambda>s. (None, s\<lparr>change_hash := saved_change_hash\<rparr>)))
      else (None, s))"

text \<open>
  A command that is through at once. One that pauses the terminal runs \<open>hash_after_exec\<close> at the next \<open>resume\<close>, and the
  built-in ones do not run it.
\<close>

definition page_command :: "(nat \<Rightarrow> t_env) \<Rightarrow> (nat \<Rightarrow> x_env) \<Rightarrow> bool \<Rightarrow> nat \<Rightarrow> bool \<Rightarrow> bool \<Rightarrow> nat \<Rightarrow> string \<Rightarrow> tab meth" where
  "page_command envs xs history_on depth by_exec first t txt s =
     and_then (before_command envs history_on first t s) (\<lambda>s.
       (let saved_change_hash = change_hash s;
            (r, st) = commands (xs t) (resume (xs t) depth) (\<not> by_exec) False None txt (load t s);
            s = store_back t st s
        in case r of
             Inl e \<Rightarrow> (Some e, s)
           | Inr Resolved \<Rightarrow> hash_after_exec envs history_on by_exec saved_change_hash t txt s
           | Inr _ \<Rightarrow> (None, s)))"

fun page_commands :: "(nat \<Rightarrow> t_env) \<Rightarrow> (nat \<Rightarrow> x_env) \<Rightarrow> bool \<Rightarrow> nat \<Rightarrow> nat \<Rightarrow> string list \<Rightarrow> tab meth" where
  "page_commands envs xs history_on depth t [] s = (None, s)"
| "page_commands envs xs history_on depth t (c # cs) s =
     and_then (page_command envs xs history_on depth False False t c s) (page_commands envs xs history_on depth t cs)"

section \<open>The hash\<close>

lemma save_state_shown:
  "save_state envs t c False s =
     (case save_state envs t c True s of
        (None, s') \<Rightarrow> (None, if c \<noteq> JUndef then maybe_update_hash s' else s') | (Some e, s') \<Rightarrow> (Some e, s'))"
proof -
  obtain r s1 where "export_view t s = (r, s1)" by fastforce
  then show ?thesis by (cases r) (simp_all add: save_state_def guarded_tab_def Let_def)
qed

lemma ready_hash: "ready t (s\<lparr>change_hash := b\<rparr>) = ready t s" "ready t (maybe_update_hash s) = ready t s"
  by (simp_all add: ready_def tab_ok_def load_def maybe_update_hash_def)

text \<open>What is saved for a command: the terminal, the number of its view and the text.\<close>

definition entry_of :: "t_env \<Rightarrow> jsval \<Rightarrow> string \<Rightarrow> bool" where
  "entry_of env e c \<longleftrightarrow> (\<exists>k. e = JArr [JNum (int (terminal_id env)), JNum k, JStr c])"

lemma entries_commands: "list_all2 (entry_of env) es cs \<Longrightarrow> commands_of (JArr (xs @ es)) = commands_of (JArr xs) @ map JStr cs"
proof (induction es cs arbitrary: xs rule: list_all2_induct)
  case (Cons e es c cs)
  then show ?case using Cons.IH [of "xs @ [e]"] by (auto simp: entry_of_def commands_of_def array_of_def spec_at_def)
qed simp

lemma save_state_updates:
  assumes "ready t s" "change_hash s"
  obtains s' e where "save_state envs t (JStr c) False s = (None, s')" "ready t s'" "change_hash s'"
    "hash_commands s' = JArr (array_of (hash_commands s) @ [e])" "entry_of (envs t) e c"
    "location_hash s' = json_stringify (hash_commands s') 1" "length (saved s') = Suc (length (saved s))"
proof -
  obtain s1 k where s1: "save_state envs t (JStr c) True s = (None, s1)" "ready t s1"
    "hash_commands s1 = JArr (array_of (hash_commands s) @ [JArr [JNum (int (terminal_id (envs t))), JNum k, JStr c]])"
    "change_hash s1 = change_hash s" "length (saved s1) = Suc (length (saved s))"
    using save_state_ready [OF assms(1), of envs c] by metis
  have "save_state envs t (JStr c) False s = (None, maybe_update_hash s1)" by (simp add: save_state_shown s1(1))
  from that [OF this] show ?thesis
    using s1 assms(2) by (simp add: ready_hash entry_of_def) (simp add: maybe_update_hash_def)
qed

lemma page_command_saved:
  assumes "tame (xs t)" "steady (xs t)" "ordinary (xs t) c" "\<exists>p. split_command c = Inr p" "ready t s"
  obtains s' e where "page_command envs xs True depth False False t c s = (None, s')" "ready t s'" "change_hash s' = change_hash s"
    "hash_commands s' = JArr (array_of (hash_commands s) @ [e])" "entry_of (envs t) e c"
    "location_hash s' = json_stringify (hash_commands s') 1" "length (saved s') = Suc (length (saved s))"
proof -
  let ?st = "load t s"
  have st: "user_top ?st" "\<not> paused ?st" using assms(5) by (simp_all add: ready_def)
  obtain s2 where s2: "commands (xs t) (resume (xs t) depth) True False None c ?st =
      (if paused s2 then (Inr Unresolved, s2\<lparr>on_resume := on_resume s2 @ [(c, None)]\<rparr>) else (Inr Resolved, s2))"
    "core s2 = core ?st" "paused s2 = paused ?st"
    using commands_tame [OF assms(1,3) st(1), of True] assms(2,4) by metis
  let ?s = "(store_back t s2 s)\<lparr>change_hash := True\<rparr>"
  have np: "\<not> paused s2" using s2(3) st(2) by simp
  have r: "ready t ?s" using store_back_ready [OF assms(5) s2(2) np] by (simp only: ready_hash)
  have ch: "change_hash ?s" by simp
  obtain s3 e where s3: "save_state envs t (JStr c) False ?s = (None, s3)" "ready t s3"
    "hash_commands s3 = JArr (array_of (hash_commands ?s) @ [e])" "entry_of (envs t) e c"
    "location_hash s3 = json_stringify (hash_commands s3) 1" "length (saved s3) = Suc (length (saved ?s))"
    using save_state_updates [OF r ch, of envs c] by blast
  have same: "hash_commands ?s = hash_commands s" "saved ?s = saved s" by (simp_all add: store_back_def Let_def)
  have "page_command envs xs True depth False False t c s = (None, s3\<lparr>change_hash := change_hash s\<rparr>)"
    using s2(1) np s3(1) by (simp add: page_command_def before_command_def hash_after_exec_def)
  moreover have "ready t (s3\<lparr>change_hash := change_hash s\<rparr>)" using s3(2) by (simp only: ready_hash)
  ultimately show ?thesis by (rule that [OF _ _ _ _ s3(4)]) (use s3 same in simp_all)
qed

lemma page_commands_saved:
  assumes "tame (xs t)" "steady (xs t)" "\<forall>c\<in>set cs. ordinary (xs t) c \<and> (\<exists>p. split_command c = Inr p)" "ready t s" "cs \<noteq> []"
  shows "\<exists>s' es. page_commands envs xs True depth t cs s = (None, s') \<and>
    hash_commands s' = JArr (array_of (hash_commands s) @ es) \<and> list_all2 (entry_of (envs t)) es cs \<and>
    location_hash s' = json_stringify (hash_commands s') 1 \<and> length (saved s') = length (saved s) + length cs \<and>
    change_hash s' = change_hash s"
  using assms(3-5)
proof (induction cs arbitrary: s)
  case (Cons c cs)
  obtain s1 e where s1: "page_command envs xs True depth False False t c s = (None, s1)" "ready t s1" "change_hash s1 = change_hash s"
    "hash_commands s1 = JArr (array_of (hash_commands s) @ [e])" "entry_of (envs t) e c"
    "location_hash s1 = json_stringify (hash_commands s1) 1" "length (saved s1) = Suc (length (saved s))"
    using page_command_saved [where xs = xs, OF assms(1,2) _ _ Cons.prems(2), of c envs depth] Cons.prems(1) by (metis list.set_intros(1))
  show ?case
  proof (cases "cs = []")
    case True
    then show ?thesis using s1 by (intro exI [of _ s1] exI [of _ "[e]"]) simp
  next
    case False
    then obtain s' es where s': "page_commands envs xs True depth t cs s1 = (None, s')"
      "hash_commands s' = JArr (array_of (hash_commands s1) @ es)" "list_all2 (entry_of (envs t)) es cs"
      "location_hash s' = json_stringify (hash_commands s') 1" "length (saved s') = length (saved s1) + length cs"
      "change_hash s' = change_hash s1"
      using Cons.IH [OF _ s1(2) False] Cons.prems(1) by auto
    then show ?thesis using s1 by (intro exI [of _ s'] exI [of _ "e # es"]) (simp add: array_of_def)
  qed
qed simp



section \<open>Coming back to the page\<close>

lemma entries_stored:
  "list_all2 (entry_of env) es cs \<Longrightarrow> \<forall>c\<in>set cs. json_storable c \<Longrightarrow> json_value (JArr es)"
  by (induction es cs rule: list_all2_induct) (auto simp: entry_of_def)

lemma entries_for:
  "list_all2 (entry_of env) es cs \<Longrightarrow> \<forall>c\<in>set cs. c \<noteq> '''' \<and> ordinary x c \<Longrightarrow> \<forall>e\<in>set es. entry_for x (terminal_id env) e"
  by (induction es cs rule: list_all2_induct) (auto simp: entry_of_def entry_for_def)



end
