(* ===== verification/Methods.thy ===== *)
theory Methods
  imports Views Timers
begin

text \<open>
  What surrounds the widget: the tests for the browser, the timers that old browsers stop when the page goes, small
  methods of the terminal, and the handler for the history of the browser, which is bound to no event.
\<close>

section \<open>The browser\<close>

definition dom_prefixes :: "string list" where
  "dom_prefixes = [''Webkit'', ''Moz'', ''O'', ''ms'', ''Khtml'']"

text \<open>\<open>style\<close> is the style of a new element: a property that the browser has holds an empty text.\<close>

fun find_prefix :: "(string \<Rightarrow> string option) \<Rightarrow> string list \<Rightarrow> bool" where
  "find_prefix style [] = False"
| "find_prefix style (p # ps) = (if style (p @ ''AnimationName'') \<noteq> None then True else find_prefix style ps)"

definition support_animations :: "(string \<Rightarrow> string option) \<Rightarrow> bool" where
  "support_animations style =
     (let animation = given (style ''animationName'') in if \<not> animation then find_prefix style dom_prefixes else animation)"

definition is_android :: "string \<Rightarrow> bool" where
  "is_android agent \<longleftrightarrow> re_test (Lit ''android'') (to_lower agent)"

definition is_touch :: "bool \<Rightarrow> bool \<Rightarrow> bool \<Rightarrow> bool" where
  "is_touch touchstart has_document_touch is_document_touch \<longleftrightarrow> touchstart \<or> has_document_touch \<and> is_document_touch"

definition webkit_re :: re where \<comment> \<open>\<open>/(webkit)[ \/]([\w.]+)/\<close>\<close>
  "webkit_re = Seq (Grp 1 (Lit ''webkit'')) (Seq (Cls (\<lambda>c. c = CHR '' '' \<or> c = CHR ''/'')) (Grp 2 (Plus (Cls (\<lambda>c. word_char c \<or> c = CHR ''.'')))))"

definition msie_re :: re where \<comment> \<open>\<open>/(msie) ([\w.]+)/\<close>\<close>
  "msie_re = Seq (Grp 1 (Lit ''msie'')) (Seq (Chr CHR '' '') (Grp 2 (Plus (Cls (\<lambda>c. word_char c \<or> c = CHR ''.'')))))"

datatype scroller = PageScrolls | TerminalScrolls

definition scroll_object :: "string \<Rightarrow> string \<Rightarrow> scroller" where
  "scroll_object agent tag =
     (if \<not> re_test webkit_re (to_lower agent) \<and> to_lower tag = ''body'' then PageScrolls else TerminalScrolls)"

text \<open>
  Internet Explorer stops the timers when the page goes. The loop \<open>while (--i)\<close> goes over the elements of a label; it
  does not end for an empty list.
\<close>

fun unload_from :: "nat list \<Rightarrow> nat \<Rightarrow> nat list option" where
  "unload_from els 0 = None"
| "unload_from els (Suc 0) = Some []"
| "unload_from els (Suc (Suc i)) = map_option (\<lambda>r. els ! Suc i # r) (unload_from els (Suc i))"

fun unload_all :: "(string \<times> nat list) list \<Rightarrow> (nat \<times> string) list option" where
  "unload_all [] = Some []"
| "unload_all ((label, els) # ls) =
     (case unload_from els (length els) of
        None \<Rightarrow> None
      | Some removed \<Rightarrow> map_option (\<lambda>r. map (\<lambda>e. (e, label)) removed @ r) (unload_all ls))"

definition unload :: "string \<Rightarrow> (string \<times> nat list) list \<Rightarrow> (nat \<times> string) list option" where
  "unload agent global = (if re_test msie_re (to_lower agent) then unload_all global else Some [])"

section \<open>Methods of the terminal\<close>

definition active :: "'a cycle \<Rightarrow> 'a option" where
  "active ts = cycle_front ts"

definition level :: "terminal \<Rightarrow> nat" where
  "level st = stack_size (interpreters st)"

definition term_cols :: "terminal \<Rightarrow> int" where "term_cols st = cols st"

definition term_rows :: "terminal \<Rightarrow> int" where "term_rows st = rows st"

definition of_top :: "(intrp \<Rightarrow> 'a) \<Rightarrow> terminal \<Rightarrow> js_error + 'a" where \<comment> \<open>a member of \<open>interpreters.top()\<close>\<close>
  "of_top f st = (case stack_top (interpreters st) of None \<Rightarrow> Inl TypeError | Some i \<Rightarrow> Inr (f i))"

definition term_name :: "terminal \<Rightarrow> js_error + string option" where "term_name = of_top i_name"

definition get_prompt :: "terminal \<Rightarrow> js_error + prompt" where "get_prompt = of_top i_prompt"

definition current_commands :: "terminal \<Rightarrow> js_error + intrp_fun" where "current_commands = of_top i_fun"

definition get_command :: "terminal \<Rightarrow> string" where
  "get_command st = cmd_get (command_line st)"

definition set_command :: "t_env \<Rightarrow> string \<Rightarrow> terminal \<Rightarrow> terminal" where
  "set_command env c st = st\<lparr>command_line := cmd_set (cmd_opts env) (Some c) False (command_line st)\<rparr>"

definition insert_method :: "t_env \<Rightarrow> jsval \<Rightarrow> terminal meth" where
  "insert_method env v = guarded env (\<lambda>st.
     (case v of
        JStr t \<Rightarrow> (None, st\<lparr>command_line := cmd_insert (cmd_opts env) t False (command_line st)\<rparr>)
      | _ \<Rightarrow> (Some (Throw ''insert function argument is not a string''), st)))"

text \<open>\<open>history_state\<close> sets the setting by a timer, so that the command that calls it is not included.\<close>

record hstate =
  history_setting_on :: bool
  timers_waiting :: nat

datatype hstate_event = HistoryState bool | TimerFires

fun history_state :: "hstate_event \<Rightarrow> hstate \<Rightarrow> hstate" where
  "history_state (HistoryState toggle) s =
     (if toggle then s\<lparr>timers_waiting := timers_waiting s + 1\<rparr> else s\<lparr>history_setting_on := False\<rparr>)"
| "history_state TimerFires s =
     (if timers_waiting s > 0 then s\<lparr>history_setting_on := True, timers_waiting := timers_waiting s - 1\<rparr> else s)"

text \<open>The first terminal binds the handler of \<open>hashchange\<close>, if there is the plugin for it.\<close>

definition bind_hashchange :: "t_env \<Rightarrow> bool \<Rightarrow> bool \<Rightarrow> bool \<Rightarrow> terminal \<Rightarrow> bool \<times> bool \<times> terminal" where
  "bind_hashchange env first_instance on has_plugin st =
     (if first_instance \<and> on then
        (if has_plugin then (False, True, st)
         else (False, False, t_error env ''You need to include hashchange jquery plugin for history to work'' st))
      else (first_instance, False, st))"

text \<open>The answer of a service to \<open>system.describe\<close>: its procedures, if it has a list of them.\<close>

datatype 'p describe_reply = Answered "'p option" | RequestFailed

fun described :: "'p describe_reply \<Rightarrow> 'p option" where
  "described (Answered procs) = procs"
| "described RequestFailed = None"

section \<open>restore\_history\_state\<close>

text \<open>
  \<open>history.state\<close> is \<open>null\<close> or has a position and the index of a terminal. A view has neither \<open>view\<close> nor \<open>join\<close>:
  \<open>import_view\<close> gets \<open>undefined\<close>, and throws when it reads the prompt of it, if not before.
\<close>

definition import_undefined :: "(nat \<Rightarrow> t_env) \<Rightarrow> nat \<Rightarrow> tab meth" where
  "import_undefined envs t = guarded_tab envs t (\<lambda>s.
     (if in_login (shells s t) then (Some (Throw ''You can't call `import_view' function while in login''), s) else (Some TypeError, s)))"

definition restore_history_state :: "(nat \<Rightarrow> t_env) \<Rightarrow> nat \<Rightarrow> (nat \<times> nat) option \<Rightarrow> tab \<Rightarrow> tab" where
  "restore_history_state envs t hist_state s =
     (if saved s = [] then s
      else
        (let (p, i) = (case hist_state of None \<Rightarrow> (0, 0) | Some (p, i) \<Rightarrow> (p, i));
             r = (if i < length (order s) \<and> p < length (saved s) then import_undefined envs (order s ! i) s else (Some TypeError, s))
         in case r of
              (None, s) \<Rightarrow> s
            | (Some e, s) \<Rightarrow> snd (in_tab t (\<lambda>st. (None, display_exception (envs t) e ''TERMINAL'' st)) s)))"

section \<open>Properties\<close>

text \<open>
  A browser that has animations without a prefix only is taken for one without: the empty text of the style is falsy.
\<close>

theorem standard_animations_missed:
  assumes "style ''animationName'' = Some ''''" "\<forall>p\<in>set dom_prefixes. style (p @ ''AnimationName'') = None"
  shows "\<not> support_animations style"
  using assms by (simp add: support_animations_def given_def dom_prefixes_def)

theorem standard_animations_missed_witness:
  "\<not> support_animations (\<lambda>p. if p = ''animationName'' then Some '''' else None)"
  using standard_animations_missed [of "\<lambda>p. if p = ''animationName'' then Some '''' else None"] by (simp add: dom_prefixes_def)

lemma unload_from_eq: "unload_from els (Suc i) = Some (rev (map (\<lambda>j. els ! Suc j) [0..<i]))"
  by (induction i) simp_all

text \<open>Of the elements with a label all but the first lose their timers; without an element the loop does not end.\<close>

theorem unload_misses_first:
  "unload_from els (length els) = (if els = [] then None else Some (rev (tl els)))"
proof (cases els)
  case (Cons e es)
  have "map (\<lambda>j. els ! Suc j) [0..<length es] = es" using Cons by (intro nth_equalityI) simp_all
  then show ?thesis using Cons unload_from_eq [of els "length es"] by simp
qed simp

text \<open>Switching the setting on and off again in one command leaves it on, once the timer has fired.\<close>

theorem history_state_late:
  "history_setting_on (fold history_state [HistoryState True, HistoryState False, TimerFires] s)"
  by simp

text \<open>\<open>insert\<close> takes texts only; with another value the terminal is left alone but for the message.\<close>

theorem insert_checks:
  "(\<forall>t. v \<noteq> JStr t) \<Longrightarrow> insert_method env v st =
     (Some (Throw ''insert function argument is not a string''),
      display_exception env (Throw ''insert function argument is not a string'') ''TERMINAL'' st)"
  by (cases v) (simp_all add: insert_method_def guarded_def)

theorem insert_checks_witness:
  "fst (insert_method small_env (JNum 5) small_terminal) = Some (Throw ''insert function argument is not a string'')"
  using insert_checks [of "JNum 5" small_env small_terminal] by simp

text \<open>A command that is set is read back.\<close>

theorem set_get_command: "get_command (set_command env c st) = c"
  by (simp add: get_command_def set_command_def cmd_get_def cmd_set_def Let_def)

lemma in_tab_cur: "cur (snd (in_tab t m s)) = cur s" "saved (snd (in_tab t m s)) = saved s"
  by (simp_all add: in_tab_def Let_def split_beta store_back_def)

lemma import_undefined_cur:
  obtains e s' where "import_undefined envs t s = (Some e, s')" "cur s' = cur s" "saved s' = saved s"
  by (cases "in_login (shells s t)") (simp_all add: import_undefined_def guarded_tab_def in_tab_cur)

text \<open>\<open>restore_history_state\<close> never restores a view: every terminal keeps its stack.\<close>

theorem restore_history_fails:
  "cur (restore_history_state envs t h s) = cur s \<and> saved (restore_history_state envs t h s) = saved s"
proof -
  obtain p i where p: "(case h of None \<Rightarrow> (0, 0) | Some (p, i) \<Rightarrow> (p, i)) = (p, i)" by (metis surj_pair)
  obtain e s' where "import_undefined envs (order s ! i) s = (Some e, s')" "cur s' = cur s" "saved s' = saved s"
    using import_undefined_cur by metis
  then show ?thesis by (simp add: restore_history_state_def p in_tab_cur)
qed

end
