(* ===== verification/Frontend.thy ===== *)
theory Frontend
  imports Arguments
begin

text \<open>
  The node programs beside the terminal: \<open>server.js\<close>, which keeps a database connection for each
  browser session and passes queries and answers on; \<open>sendfile.js\<close>, which loads a file through a
  connection and has to find the end of each answer by itself; \<open>tel.js\<close>, a plain console. The network,
  express and its sessions are events of the model; the identifiers of \<open>uuid.v4\<close> are given with the event
  and new each time.
\<close>

section \<open>unescape\<close>

definition hex_string :: "string \<Rightarrow> bool" where
  "hex_string s \<longleftrightarrow> list_all hex_char s"

text \<open>\<open>%uXXXX\<close> and \<open>%XX\<close> stand for a code unit; any other text is copied.\<close>

function unescape :: "string \<Rightarrow> string" where
  "unescape [] = []"
| "unescape (c # t) =
     (if c = CHR ''%'' \<and> at t 0 = Some CHR ''u'' \<and> length (take 4 (tl t)) = 4 \<and> hex_string (take 4 (tl t))
      then from_char_code (read_base 16 0 (take 4 (tl t))) @ unescape (drop 5 t)
      else if c = CHR ''%'' \<and> length (take 2 t) = 2 \<and> hex_string (take 2 t)
      then from_char_code (read_base 16 0 (take 2 t)) @ unescape (drop 2 t)
      else c # unescape t)"
  by pat_completeness auto
termination by (relation "measure length") auto

section \<open>server.js\<close>

text \<open>
  A connection has the requests that wait for its next data (\<open>once('data')\<close>), in the order of their
  registration, and what was written to it. \<open>clients\<close> maps an identifier to its connection, a session has the
  identifier of its connection. Requests and sessions are numbered.
\<close>

record socket =
  waiting :: "nat list"
  written :: "string list"

record server =
  clients :: "string \<Rightarrow> socket option"
  conn :: "nat \<Rightarrow> string option"

datatype net_event =
    Query nat nat "string option"   \<comment> \<open>request, session, \<open>req.body.query\<close>\<close>
  | Connected nat nat string        \<comment> \<open>request, session, identifier: the socket of \<open>/connect\<close> is open\<close>
  | Disconnect nat nat
  | Data string string              \<comment> \<open>the connection with this identifier has data\<close>

datatype reply = Sent string | Failed js_error

definition server_init :: server where
  "server_init = \<lparr>clients = (\<lambda>_. None), conn = (\<lambda>_. None)\<rparr>"

definition client_of :: "nat \<Rightarrow> server \<Rightarrow> (string \<times> socket) option" where
  "client_of ses sv =
     (case conn sv ses of None \<Rightarrow> None
      | Some k \<Rightarrow> (case clients sv k of None \<Rightarrow> None | Some c \<Rightarrow> Some (k, c)))"

text \<open>A query that is missing or empty gets no answer at all.\<close>

fun serve :: "net_event \<Rightarrow> server \<Rightarrow> server \<times> (nat \<times> reply) list" where
  "serve (Query req ses q) sv =
     (case q of
        None \<Rightarrow> (sv, [])
      | Some t \<Rightarrow>
          (if t = '''' then (sv, [])
           else (case client_of ses sv of
                   None \<Rightarrow> (sv, [(req, Failed TypeError)])
                 | Some (k, c) \<Rightarrow>
                     (sv\<lparr>clients := (clients sv)(k \<mapsto> c\<lparr>written := written c @ [unescape t],
                                                    waiting := waiting c @ [req]\<rparr>)\<rparr>, []))))"
| "serve (Connected req ses k) sv =
     (sv\<lparr>clients := (clients sv)(k \<mapsto> \<lparr>waiting = [], written = []\<rparr>), conn := (conn sv)(ses \<mapsto> k)\<rparr>,
      [(req, Sent ''success'')])"
| "serve (Disconnect req ses) sv =
     (case client_of ses sv of
        None \<Rightarrow> (sv, [(req, Failed TypeError)])
      | Some (k, c) \<Rightarrow>
          (sv\<lparr>clients := (clients sv)(k := None), conn := (conn sv)(ses := None)\<rparr>, [(req, Sent ''success'')]))"
| "serve (Data k d) sv =
     (case clients sv k of
        None \<Rightarrow> (sv, [])
      | Some c \<Rightarrow> (sv\<lparr>clients := (clients sv)(k \<mapsto> c\<lparr>waiting := []\<rparr>)\<rparr>, map (\<lambda>r. (r, Sent d)) (waiting c)))"

fun serve_all :: "net_event list \<Rightarrow> server \<Rightarrow> server \<times> (nat \<times> reply) list" where
  "serve_all [] sv = (sv, [])"
| "serve_all (e # es) sv =
     (let (sv1, out1) = serve e sv; (sv2, out2) = serve_all es sv1 in (sv2, out1 @ out2))"

section \<open>sendfile.js\<close>

text \<open>
  The listener of \<open>sendCmd\<close>. \<open>decode\<close> is \<open>Buffer.toString\<close> and \<open>bytesRead\<close> grows by the length of
  each piece before the listener runs, so the difference it looks at is that length. \<open>Some\<close>: the promise is
  resolved with the text handed to \<open>JSON.parse\<close>.
\<close>

fun nonzero_text :: "string \<Rightarrow> string \<Rightarrow> nat \<Rightarrow> string" where
  "nonzero_text [] txt i = []"
| "nonzero_text (b # bs) txt i =
     (if b \<noteq> CHR 0x00
      then (case at txt (int i) of Some c \<Rightarrow> [c] | None \<Rightarrow> ''undefined'') @ nonzero_text bs txt (Suc i)
      else nonzero_text bs txt (Suc i))"

definition on_data :: "(string \<Rightarrow> string) \<Rightarrow> string \<Rightarrow> string \<Rightarrow> string option \<times> string" where
  "on_data decode data result =
     (if length data < 384 then (Some (result @ decode data), result)
      else (let result = result @ nonzero_text data (decode data) 0
            in (if length data mod 384 \<noteq> 0 then Some result else None, result)))"

fun send_cmd :: "(string \<Rightarrow> string) \<Rightarrow> string list \<Rightarrow> string \<Rightarrow> string option" where
  "send_cmd decode [] result = None"
| "send_cmd decode (d # ds) result =
     (case on_data decode d result of
        (Some r, _) \<Rightarrow> Some r
      | (None, result) \<Rightarrow> send_cmd decode ds result)"

text \<open>
  The script: what it has written to the connection and what it waits for. A listener of \<open>sendCmd\<close> keeps the
  text of the pieces so far; when \<open>JSON.parse\<close> throws in it, the process ends.
\<close>

datatype phase =
    Reading
  | ReadFailed
  | Connecting string
  | Flushing string
  | LoggingIn string string
  | Loading string
  | Finished
  | Crashed

datatype load_event = FileRead "string option" | Opened | Piece string

record loader =
  phase :: phase
  to_server :: "string list"
  logged :: "string list"

definition loader_init :: loader where
  "loader_init = \<lparr>phase = Reading, to_server = [], logged = []\<rparr>"

text \<open>\<open>parses\<close> says whether \<open>JSON.parse\<close> takes a text.\<close>

definition load_step :: "(string \<Rightarrow> string) \<Rightarrow> (string \<Rightarrow> bool) \<Rightarrow> load_event \<Rightarrow> loader \<Rightarrow> loader" where
  "load_step decode parses e l =
     (case (phase l, e) of
        (Reading, FileRead None) \<Rightarrow> l\<lparr>phase := ReadFailed\<rparr>
      | (Reading, FileRead (Some f)) \<Rightarrow> l\<lparr>phase := Connecting f\<rparr>
      | (Connecting f, Opened) \<Rightarrow> l\<lparr>phase := Flushing f, to_server := to_server l @ [''FLUSH'']\<rparr>
      | (Flushing f, Piece d) \<Rightarrow>
          l\<lparr>phase := LoggingIn f '''', to_server := to_server l @ [''USER LOGIN fzydb_admin password'']\<rparr>
      | (LoggingIn f r, Piece d) \<Rightarrow>
          (case on_data decode d r of
             (Some t, _) \<Rightarrow>
               (if parses t then l\<lparr>phase := Loading '''', to_server := to_server l @ [f]\<rparr> else l\<lparr>phase := Crashed\<rparr>)
           | (None, r) \<Rightarrow> l\<lparr>phase := LoggingIn f r\<rparr>)
      | (Loading r, Piece d) \<Rightarrow>
          (case on_data decode d r of
             (Some t, _) \<Rightarrow>
               (if parses t then l\<lparr>phase := Finished, logged := logged l @ [t]\<rparr> else l\<lparr>phase := Crashed\<rparr>)
           | (None, r) \<Rightarrow> l\<lparr>phase := Loading r\<rparr>)
      | _ \<Rightarrow> l)"

section \<open>tel.js\<close>

record console =
  sent :: "string list"
  shown_text :: string

definition tel_connected :: "console \<Rightarrow> console" where
  "tel_connected c = c\<lparr>shown_text := shown_text c @ ''Connected'' @ [CHR 0x0A] @ ''> ''\<rparr>"

definition tel_input :: "string \<Rightarrow> console \<Rightarrow> console" where
  "tel_input d c = c\<lparr>sent := sent c @ [trim d]\<rparr>"

definition tel_data :: "string \<Rightarrow> console \<Rightarrow> console" where
  "tel_data d c = c\<lparr>shown_text := shown_text c @ [CHR 0x0A] @ d @ [CHR 0x0A, CHR 0x0A] @ ''> ''\<rparr>"


text \<open>The program: it listens to the input from the connection on, and an error of the socket ends it.\<close>

record tel =
  tel_console :: console
  listening :: bool
  exited :: bool

datatype tel_event = TelOpened | TelTyped string | TelArrived string | TelClosed | TelError string

definition tel_print :: "string \<Rightarrow> tel \<Rightarrow> tel" where
  "tel_print t s = s\<lparr>tel_console := (tel_console s)\<lparr>shown_text := shown_text (tel_console s) @ t @ [CHR 0x0A]\<rparr>\<rparr>"

definition tel_init :: tel where
  "tel_init = \<lparr>tel_console = \<lparr>sent = [], shown_text = []\<rparr>, listening = False, exited = False\<rparr>"

definition tel_step :: "tel \<Rightarrow> tel_event \<Rightarrow> tel" where
  "tel_step s e =
     (if exited s then s
      else
        (case e of
           TelOpened \<Rightarrow> s\<lparr>tel_console := tel_connected (tel_console s), listening := True\<rparr>
         | TelTyped d \<Rightarrow> (if listening s then s\<lparr>tel_console := tel_input d (tel_console s)\<rparr> else s)
         | TelArrived d \<Rightarrow> s\<lparr>tel_console := tel_data d (tel_console s)\<rparr>
         | TelClosed \<Rightarrow> tel_print ''Connection closed'' s
         | TelError m \<Rightarrow> (tel_print ([CHR 0x0A, CHR 0x0D] @ m) s)\<lparr>exited := True\<rparr>))"

definition tel_run :: "tel_event list \<Rightarrow> tel" where
  "tel_run es = foldl tel_step tel_init es"

text \<open>What is typed between the opening of the connection and the first error.\<close>

definition typed_while_open :: "tel_event list \<Rightarrow> string list" where
  "typed_while_open es = List.map_filter (\<lambda>e. case e of TelTyped d \<Rightarrow> Some d | _ \<Rightarrow> None)
     (dropWhile (\<lambda>e. e \<noteq> TelOpened) (takeWhile (\<lambda>e. \<not> (\<exists>m. e = TelError m)) es))"

lemma tel_step_simps [simp]:
  "exited s \<Longrightarrow> tel_step s e = s"
  "\<not> exited s \<Longrightarrow> tel_step s TelOpened = s\<lparr>tel_console := tel_connected (tel_console s), listening := True\<rparr>"
  "\<not> exited s \<Longrightarrow> tel_step s (TelTyped d) = (if listening s then s\<lparr>tel_console := tel_input d (tel_console s)\<rparr> else s)"
  "\<not> exited s \<Longrightarrow> tel_step s (TelArrived d) = s\<lparr>tel_console := tel_data d (tel_console s)\<rparr>"
  "\<not> exited s \<Longrightarrow> tel_step s TelClosed = tel_print ''Connection closed'' s"
  "\<not> exited s \<Longrightarrow> tel_step s (TelError m) = (tel_print ([CHR 0x0A, CHR 0x0D] @ m) s)\<lparr>exited := True\<rparr>"
  by (simp_all add: tel_step_def)

lemma tel_exited: "exited s \<Longrightarrow> foldl tel_step s es = s"
  by (induction es) simp_all

lemma tel_listening:
  "listening s \<Longrightarrow> \<not> exited s \<Longrightarrow> sent (tel_console (foldl tel_step s es)) = sent (tel_console s) @ map trim
     (List.map_filter (\<lambda>e. case e of TelTyped d \<Rightarrow> Some d | _ \<Rightarrow> None) (takeWhile (\<lambda>e. \<not> (\<exists>m. e = TelError m)) es))"
proof (induction es arbitrary: s)
  case (Cons e es)
  then show ?case
    by (cases e) (simp_all add: tel_connected_def tel_input_def tel_data_def tel_print_def map_filter_simps tel_exited)
qed (simp add: map_filter_simps)

text \<open>Exactly what is typed while the connection is open is sent, in order, without the blanks at its ends.\<close>

theorem tel_sends: "sent (tel_console (tel_run es)) = map trim (typed_while_open es)"
proof -
  have "sent (tel_console (foldl tel_step s es)) = sent (tel_console s) @ map trim (typed_while_open es)"
    if "\<not> listening s" "\<not> exited s" for s
    using that
  proof (induction es arbitrary: s)
    case (Cons e es)
    show ?case
    proof (cases e)
      case TelOpened
      let ?s = "s\<lparr>tel_console := tel_connected (tel_console s), listening := True\<rparr>"
      have "tel_step s e = ?s" using TelOpened Cons.prems by simp
      then show ?thesis using tel_listening [of ?s es] Cons.prems TelOpened
        by (simp add: typed_while_open_def tel_connected_def map_filter_simps)
    qed (use Cons in \<open>simp_all add: tel_data_def tel_print_def typed_while_open_def map_filter_simps tel_exited\<close>)
  qed (simp add: typed_while_open_def map_filter_simps)
  then show ?thesis by (simp add: tel_run_def tel_init_def)
qed


section \<open>Answers of the server\<close>

fun requests :: "net_event list \<Rightarrow> nat list" where
  "requests [] = []"
| "requests (Query r s q # es) = r # requests es"
| "requests (Connected r s k # es) = r # requests es"
| "requests (Disconnect r s # es) = r # requests es"
| "requests (Data k d # es) = requests es"

text \<open>The requests that wait, on whichever connection.\<close>

definition waits :: "server \<Rightarrow> nat \<Rightarrow> bool" where
  "waits sv r \<longleftrightarrow> (\<exists>k c. clients sv k = Some c \<and> r \<in> set (waiting c))"

text \<open>No request waits twice.\<close>

definition waits_once :: "server \<Rightarrow> bool" where
  "waits_once sv \<longleftrightarrow> (\<forall>k c. clients sv k = Some c \<longrightarrow> distinct (waiting c)) \<and>
     (\<forall>k k' c c' r. clients sv k = Some c \<longrightarrow> clients sv k' = Some c' \<longrightarrow> r \<in> set (waiting c) \<longrightarrow>
        r \<in> set (waiting c') \<longrightarrow> k = k')"

lemma client_of_SomeD: "client_of ses sv = Some (k, c) \<Longrightarrow> conn sv ses = Some k \<and> clients sv k = Some c"
  by (auto simp: client_of_def split: option.splits)

lemma serve_waits:
  assumes "serve e sv = (sv', out)" "waits_once sv" "\<forall>r\<in>set (requests [e]). \<not> waits sv r"
  shows "waits_once sv' \<and> distinct (map fst out) \<and>
    (\<forall>r. r \<in> set (map fst out) \<longrightarrow> \<not> waits sv' r \<and> (waits sv r \<or> r \<in> set (requests [e]))) \<and>
    (\<forall>r. waits sv' r \<longrightarrow> waits sv r \<or> r \<in> set (requests [e]))"
proof (cases e)
  case (Query req ses q)
  with assms show ?thesis
    by (auto simp: waits_once_def waits_def split: option.splits if_splits prod.splits dest!: client_of_SomeD; blast)
next
  case (Connected req ses k)
  with assms show ?thesis
    by (auto simp: waits_once_def waits_def split: if_splits; blast)
next
  case (Disconnect req ses)
  with assms show ?thesis
    by (auto simp: waits_once_def waits_def split: option.splits if_splits prod.splits dest!: client_of_SomeD; blast)
next
  case (Data k d)
  with assms show ?thesis
    by (auto simp: waits_once_def waits_def comp_def split: option.splits if_splits; blast)
qed

lemma requests_Cons: "set (requests (e # es)) = set (requests [e]) \<union> set (requests es)"
  "distinct (requests (e # es)) \<Longrightarrow> set (requests [e]) \<inter> set (requests es) = {} \<and> distinct (requests es)"
  by (cases e; auto)+

lemma serve_all_waits:
  "serve_all es sv = (sv', out) \<Longrightarrow> waits_once sv \<Longrightarrow> distinct (requests es) \<Longrightarrow>
   \<forall>r\<in>set (requests es). \<not> waits sv r \<Longrightarrow>
   distinct (map fst out) \<and> (\<forall>r\<in>set (map fst out). waits sv r \<or> r \<in> set (requests es))"
proof (induction es arbitrary: sv sv' out)
  case (Cons e es)
  obtain sv1 out1 where e: "serve e sv = (sv1, out1)" by force
  obtain sv2 out2 where es: "serve_all es sv1 = (sv2, out2)" by force
  note rs = requests_Cons(1) [of e es] requests_Cons(2) [OF Cons.prems(3)]
  have s: "waits_once sv1" "distinct (map fst out1)"
    "\<And>r. r \<in> set (map fst out1) \<Longrightarrow> \<not> waits sv1 r \<and> (waits sv r \<or> r \<in> set (requests [e]))"
    "\<And>r. waits sv1 r \<Longrightarrow> waits sv r \<or> r \<in> set (requests [e])"
    using serve_waits [OF e Cons.prems(2)] Cons.prems(4) rs(1) by auto
  have "\<forall>r\<in>set (requests es). \<not> waits sv1 r" using s(4) Cons.prems(4) rs by blast
  from Cons.IH [OF es s(1) _ this] rs(2) have
    i: "distinct (map fst out2)" "\<forall>r\<in>set (map fst out2). waits sv1 r \<or> r \<in> set (requests es)" by auto
  have out: "out = out1 @ out2" using Cons.prems(1) e es by simp
  have disj: "set (map fst out1) \<inter> set (map fst out2) = {}"
  proof (rule ccontr)
    assume "\<not> ?thesis"
    then obtain r where r: "r \<in> set (map fst out1)" "r \<in> set (map fst out2)" by blast
    from s(3) [OF r(1)] have "\<not> waits sv1 r" "waits sv r \<or> r \<in> set (requests [e])" by blast+
    with i(2) r(2) have "r \<in> set (requests es)" by blast
    with s(3) [OF r(1)] Cons.prems(4) rs show False by blast
  qed
  show ?case
    unfolding out using s(2) i(1) disj
    by (simp only: map_append distinct_append set_append) (use s(3,4) i(2) rs(1) in blast)
qed simp

text \<open>C25: no request is answered twice, whatever the order of queries, connections and data.\<close>

theorem answered_at_most_once:
  assumes "distinct (requests es)"
  shows "distinct (map fst (snd (serve_all es server_init)))"
proof -
  obtain sv out where s: "serve_all es server_init = (sv, out)" by force
  have "waits_once server_init" "\<And>r. \<not> waits server_init r"
    by (simp_all add: waits_once_def waits_def server_init_def)
  with serve_all_waits [OF s _ assms] show ?thesis by (simp add: s)
qed

theorem answered_at_most_once_witness:
  "distinct (map fst (snd (serve_all [Connected 1 7 ''id'', Query 2 7 (Some ''GET''), Query 3 7 (Some ''GET''),
     Data ''id'' ''x'', Data ''id'' ''y''] server_init)))"
  by (rule answered_at_most_once) simp

section \<open>Sessions are kept apart\<close>

fun opened :: "net_event list \<Rightarrow> string list" where
  "opened [] = []"
| "opened (Connected r s k # es) = k # opened es"
| "opened (_ # es) = opened es"

text \<open>What is known after the events \<open>es\<close>: a session has a connection it opened, a waiting request is a query of the session that opened the connection.\<close>

definition apart :: "net_event list \<Rightarrow> server \<Rightarrow> bool" where
  "apart es sv \<longleftrightarrow>
     (\<forall>ses k. conn sv ses = Some k \<longrightarrow> (\<exists>r. Connected r ses k \<in> set es)) \<and>
     (\<forall>k c r. clients sv k = Some c \<longrightarrow> r \<in> set (waiting c) \<longrightarrow>
        (\<exists>ses q r'. Query r ses q \<in> set es \<and> Connected r' ses k \<in> set es))"

lemma apart_serve: "apart es sv \<Longrightarrow> apart (es @ [e]) (fst (serve e sv))"
proof (cases e)
  case (Query req ses q)
  assume a: "apart es sv"
  show ?thesis
  proof (cases "\<exists>t k c. q = Some t \<and> t \<noteq> [] \<and> client_of ses sv = Some (k, c)")
    case True
    then obtain t k c where q: "q = Some t" "t \<noteq> []" "client_of ses sv = Some (k, c)" by blast
    from client_of_SomeD [OF q(3)] a obtain r' where "Connected r' ses k \<in> set es"
      unfolding apart_def by blast
    with a q client_of_SomeD [OF q(3)] show ?thesis
      unfolding Query by (auto simp: apart_def; blast)
  next
    case False
    then have "fst (serve e sv) = sv"
      unfolding Query by (auto split: option.splits prod.splits if_splits)
    with a show ?thesis by (auto simp: apart_def; blast)
  qed
next
  case (Connected req ses k)
  assume "apart es sv"
  with Connected show ?thesis by (auto simp: apart_def; blast)
next
  case (Disconnect req ses)
  assume a: "apart es sv"
  with Disconnect show ?thesis by (auto simp: apart_def split: option.splits; blast)
next
  case (Data k d)
  assume a: "apart es sv"
  with Data show ?thesis by (auto simp: apart_def split: option.splits; blast)
qed

lemma serve_all_snoc:
  "serve_all (es @ [e]) sv = (let (sv1, out1) = serve_all es sv; (sv2, out2) = serve e sv1 in (sv2, out1 @ out2))"
  by (induction es arbitrary: sv) (auto split: prod.splits)

lemma apart_all: "apart es (fst (serve_all es server_init))"
proof (induction es rule: rev_induct)
  case Nil
  then show ?case by (simp add: apart_def server_init_def)
next
  case (snoc e es)
  have "fst (serve_all (es @ [e]) server_init) = fst (serve e (fst (serve_all es server_init)))"
    by (simp add: serve_all_snoc split_def Let_def)
  with apart_serve [OF snoc, of e] show ?case by simp
qed

lemma opened_unique:
  "distinct (opened es) \<Longrightarrow> Connected r s k \<in> set es \<Longrightarrow> Connected r' s' k \<in> set es \<Longrightarrow> s = s'"
proof (induction es)
  case (Cons e es)
  have in_opened: "Connected r s k \<in> set es \<Longrightarrow> k \<in> set (opened es)" for r s k es
    by (induction es rule: opened.induct) auto
  from Cons show ?case by (cases e) (auto dest: in_opened)
qed simp

text \<open>
  Data of a connection answers only queries of the session that opened the connection, as long as the
  identifiers of the connections are different.
\<close>

theorem sessions_apart:
  assumes "distinct (opened es)" "Connected r0 ses k \<in> set es"
    and "(r, Sent d) \<in> set (snd (serve (Data k d) (fst (serve_all es server_init))))"
  shows "\<exists>q. Query r ses q \<in> set es"
proof -
  let ?sv = "fst (serve_all es server_init)"
  from assms(3) obtain c where "clients ?sv k = Some c" "r \<in> set (waiting c)" by (auto split: option.splits)
  with apart_all [of es] obtain s q r' where "Query r s q \<in> set es" "Connected r' s k \<in> set es"
    unfolding apart_def by blast
  with opened_unique [OF assms(1) _ assms(2)] show ?thesis by blast
qed

theorem sessions_apart_witness:
  "\<exists>q. Query 3 7 q \<in> set [Connected 1 7 ''a'', Connected 2 8 ''b'', Query 3 7 (Some ''GET'')]"
  by (rule sessions_apart [of _ 1 7 "''a''" 3 "''x''"]) (simp_all add: server_init_def client_of_def)

text \<open>
  Two queries of one session that overlap both get the first answer of the database, and the
  second answer reaches nobody: the listeners are not tied to their queries.
\<close>

theorem overlapping_queries_share_answer:
  assumes "client_of ses sv = Some (k, c)" "waiting c = []" "q1 \<noteq> ''''" "q2 \<noteq> ''''"
  shows "snd (serve_all [Query r1 ses (Some q1), Query r2 ses (Some q2), Data k d1, Data k d2] sv)
    = [(r1, Sent d1), (r2, Sent d1)]"
  using assms client_of_SomeD [OF assms(1)] by (simp add: client_of_def)

theorem overlapping_queries_share_answer_witness:
  "snd (serve_all [Query 2 7 (Some ''A''), Query 3 7 (Some ''B''), Data ''id'' ''x'', Data ''id'' ''y'']
     (fst (serve (Connected 1 7 ''id'') server_init))) = [(2, Sent ''x''), (3, Sent ''x'')]"
  by (rule overlapping_queries_share_answer [where c = "\<lparr>waiting = [], written = []\<rparr>"])
     (simp_all add: client_of_def)

section \<open>The end of an answer\<close>



lemma nonzero_text_id: "nonzero_text bs txt i = filter (\<lambda>b. b \<noteq> CHR 0x00) bs" if "drop i txt = bs"
  using that
proof (induction bs arbitrary: i)
  case (Cons b bs)
  from drop_Cons_D [OF Cons.prems] have d: "i < length txt" "txt ! i = b" "drop (Suc i) txt = bs" by simp_all
  with Cons.IH [OF d(3)] show ?case by (simp add: at_def)
qed simp

text \<open>For text of one byte a character, full blocks and a last one give the text without the padding of the full blocks.\<close>

theorem send_cmd_text:
  assumes "\<forall>d\<in>set ds. d \<noteq> [] \<and> length d mod 384 = 0" "length e < 384"
  shows "send_cmd id (ds @ [e]) r = Some (r @ filter (\<lambda>b. b \<noteq> CHR 0x00) (concat ds) @ e)"
  using assms(1)
proof (induction ds arbitrary: r)
  case Nil
  then show ?case using assms(2) by (simp add: on_data_def)
next
  case (Cons d ds)
  then have "\<not> length d < 384" by (cases "length d = 0") auto
  with Cons show ?case by (simp add: on_data_def Let_def nonzero_text_id)
qed

theorem send_cmd_text_witness:
  "send_cmd id [replicate 384 CHR ''a'', ''b''] '''' = Some (replicate 384 CHR ''a'' @ ''b'')"
proof -
  have "send_cmd id ([replicate 384 CHR ''a''] @ [''b'']) ''''
      = Some ('''' @ filter (\<lambda>b. b \<noteq> CHR 0x00) (concat [replicate 384 CHR ''a'']) @ ''b'')"
    by (rule send_cmd_text) simp_all
  then show ?thesis by (simp del: send_cmd.simps)
qed

end
