(* ===== verification/Spec2Isabelle.thy ===== *)
theory Spec2Isabelle
  imports Containers Cmd_View Cmd_Page Split_Equal Interp_Make Term_Keys Terminals Views Sprintf Timers Split_Shim Layout Reports Cursor Startup Json_Values Hash_Commands Methods Frontend
begin

text \<open>
  A verification development for the browser and node side of the fuzzy database \<open>fzdb\<close>: the directory
  \<open>frontend/\<close>. Its core is \<open>public/terminal.js\<close>, the terminal in the browser; \<open>server.js\<close> is the web server that
  connects a browser session with the database, \<open>sendfile.js\<close> loads a file, \<open>tel.js\<close> is a plain console.

  Parts and theories, in the order of their imports:

  JS\_Base: results of JavaScript code (\<open>js\<close>: nothing when it does not return, an error, or a value), strings
  and arrays with their index conventions (\<open>slice\<close>, \<open>substring\<close>, \<open>at\<close>, \<open>splice1\<close>).
  JS\_Value: dynamically typed values, \<open>typeof\<close>, \<open>String\<close>.
  JS\_Regex: a backtracking matcher for the regular expressions of the file, and the calculus of first matches
  (\<open>starts\<close>), of pieces (\<open>pieces\<close>) and of shifted subjects (\<open>forward\<close>) by which the properties use it. The
  matcher is total: a star unrolls only while the position advances.

  Containers: \<open>Stack\<close> and \<open>Cycle\<close>. The interface of a stack is the locale \<open>lifo\<close>, interpreted on the code's.
  Storage: \<open>$.Storage\<close> over \<open>localStorage\<close> and over cookies; the locales \<open>kv_store\<close> and \<open>kv_removable\<close> state what
  its clients rely on and are interpreted on both variants.
  Json: \<open>$.json_stringify\<close>, and \<open>JSON.parse\<close> on the arrays of strings that the code stores. Json\_Values: the writer against the compact
  form of the standard, \<open>JSON.parse\<close> on all values, and the round trip between them.
  History: the class \<open>History\<close>.

  Cmd\_Line, Cmd\_Keys: the plugin \<open>$.fn.cmd\<close>, its closure variables as the record \<open>cmd\<close>, its methods and its
  event handlers. A handler gives what the JavaScript handler returns or throws, and the state it leaves in
  either case. Cmd\_Edit has the invariant \<open>cmd_ok\<close> and one lemma for each operation; Cmd\_Run has the step
  relation \<open>cmd_step\<close> (any event, any method, any timer), the reachable states and the properties of editing.
  Cmd\_View: \<open>redraw\<close>, what the page shows. Cmd\_Page: the command lines of a page, \<open>show\<close> and \<open>destroy\<close>.

  Text\_Tools, Text\_Laws: \<open>encode\<close>, \<open>escape_formatting\<close>, \<open>format\<close> and the regular expressions of formatting.
  Split\_Equal: the cutting of text into lines, against the reference \<open>fill\<close> over visible units.
  Arguments: \<open>parse_arguments\<close>, \<open>split_arguments\<close>, \<open>process_command\<close>.
  Term\_Output: the lines of the terminal, \<open>echo\<close>, \<open>error\<close>, \<open>flush\<close>, and the refinement of the page by its lines.
  Term\_Core: the stack of interpreters with the command line, \<open>push\<close>, \<open>pop\<close>, \<open>login\<close>, \<open>logout\<close> and the tokens in the
  storage. \<open>prepare_ok\<close> and \<open>pop_ok\<close> give the new state of these steps; the properties follow from them.
  Term\_Exec: \<open>commands\<close>, \<open>exec\<close>, \<open>resume\<close>, \<open>read\<close>. The calls nest up to the depth that the engine allows, the parameter
  \<open>depth\<close> of \<open>resume\<close>; the properties hold for every depth from one on.
  Interp\_Make: \<open>make_interpreter\<close> and the interpreters of objects and JSON-RPC services, each as a function from a command
  to one action, and what the actions do to the terminal.
  Term\_Keys: the keys of the terminal, \<open>key_down\<close>, and the completion of the word before the cursor; the completion
  arrays are part of the state, since \<open>complete_helper\<close> writes into them. \<open>common_end_lcp\<close> ties its loop to the longest
  common prefix.
  Terminals: the terminals of a page, \<open>focus\<close>, \<open>next\<close>, \<open>freeze\<close>, \<open>destroy\<close> and the handlers of clicks and of the window.
  \<open>site_ok\<close> is the invariant, \<open>site_step\<close> the relation of what can happen; every operation has a lemma that it keeps \<open>site_ok\<close>.
  Views: \<open>export_view\<close>, \<open>import_view\<close>, \<open>save_state\<close> and the hash of the address bar. Interpreters and stacks are objects
  in a store (\<open>tab\<close>), because views share them; \<open>load\<close> and \<open>store_back\<close> carry a method of \<open>Term_Core\<close> over to it.
  Sprintf: \<open>sprintf\<close>, against the reference \<open>fill_in\<close> for the formats that the terminal uses.
  Timers: the timers plugin, with \<open>tick\<close> for one interval that elapses.
  Split\_Shim: the replacement of \<open>split\<close>, against the \<open>split\<close> of the language in JS\_Regex.
  Layout: how many columns and lines fit, scrolling and the mouse wheel, the events of resizing, the signature.
  Reports: how exceptions, failed requests and the code behind a link in a stack trace are shown.
  Cursor: the caret plugin, and the blinking cursor on top of the timers.
  Startup: how a terminal comes up, from the call of the plugin over the first interpreter and the login to the commands in
  the hash of the address bar; \<open>option\<close> and \<open>setInterpreter\<close>.
  Hash\_Commands: the part of \<open>commands\<close> that saves a view for each command and writes the hash, and what the next visit to the page
  makes of that hash.
  Methods: tests for the browser, small methods of the terminal, \<open>restore_history_state\<close>.
  Frontend: the node programs. A run of the server is a list of events in any order.

  Bounds: numbers are unbounded integers, since the code only counts and indexes. Fuel occurs in \<open>cut_line\<close>, which
  gets the length of the line, and each pass advances by at least one character; in \<open>parse_elems\<close> and \<open>parse_val\<close>, which get the length of
  the text, and every level of a value takes a bracket on each side. The loop of \<open>str_parts\<close> may not end and is a partial function; \<open>str_parts_terminates\<close> says exactly when it ends.

  Parameters: \<open>new RegExp\<close> on a text, \<open>Buffer.toString\<close>, \<open>JSON.parse\<close> in the loader, what a prompt shows, the
  callbacks of the options, the features of the browser.

  Not modelled: jQuery and the DOM; the animation of \<open>next\<close>; the methods that only hand out an object of the closure.
  The exceptions that \<open>redraw\<close> can throw are part of \<open>redraw\<close> and not of the methods that call it. The database core is C++ and outside this development.
\<close>

end
